(* ===== verification/Py_Prelude.thy ===== *)
theory Py_Prelude
  imports Main "HOL-Library.AList" "HOL-Library.Multiset" "HOL-Library.Sublist"
begin

text \<open>
  What the component theories share: the exceptions of the modelled Python code as
  values, dictionaries as association lists with Python's insertion order, Python's
  slicing rules, the string methods the sources use, and two interfaces that several
  components rely on: the dictionary operations (locale \<open>py_mapping\<close>) and the invariants
  of a machine that runs over a list of inputs (locale \<open>guarded_run\<close>).
\<close>

named_theorems py_defs \<open>definitions of the modelled Python primitives\<close>
named_theorems dict_simps \<open>equations for dictionary operations\<close>

section \<open>Exceptions and results\<close>

datatype py_exn =
    ValueError
  | NameError
  | IndexError
  | KeyError
  | TypeError
  | AssertionError
  | AttributeError
  | ZeroDivisionError
  | UnboundLocalError
  | IOError
  | OSError
  | WafError
  | PlainException

type_synonym 'a py = "py_exn + 'a"

definition py_bind :: "'e + 'a \<Rightarrow> ('a \<Rightarrow> 'e + 'b) \<Rightarrow> 'e + 'b" where
  "py_bind m f = (case m of Inl e \<Rightarrow> Inl e | Inr x \<Rightarrow> f x)"

lemma py_bind_simps [simp]:
  "py_bind (Inl e) f = Inl e"
  "py_bind (Inr x) f = f x"
  by (simp_all add: py_bind_def)

lemma py_bind_eq_Inr [simp]:
  "py_bind m f = Inr y \<longleftrightarrow> (\<exists>x. m = Inr x \<and> f x = Inr y)"
  by (cases m) simp_all

lemma py_bind_eq_Inl:
  "py_bind m f = Inl e \<longleftrightarrow> m = Inl e \<or> (\<exists>x. m = Inr x \<and> f x = Inl e)"
  by (cases m) auto

lemma py_bind_assoc: "py_bind (py_bind m f) g = py_bind m (\<lambda>x. py_bind (f x) g)"
  by (cases m) simp_all

text \<open>A list comprehension whose body can raise stops at the first exception.\<close>

fun py_map :: "('a \<Rightarrow> 'e + 'b) \<Rightarrow> 'a list \<Rightarrow> 'e + 'b list" where
  "py_map f [] = Inr []"
| "py_map f (x # xs) = py_bind (f x) (\<lambda>y. py_bind (py_map f xs) (\<lambda>ys. Inr (y # ys)))"

lemma py_map_Inr: "(\<And>x. x \<in> set xs \<Longrightarrow> f x = Inr (g x)) \<Longrightarrow> py_map f xs = Inr (map g xs)"
  by (induction xs) simp_all

lemma py_map_list_all2: "py_map f xs = Inr ys \<longleftrightarrow> list_all2 (\<lambda>x y. f x = Inr y) xs ys"
proof (induction xs arbitrary: ys)
  case Nil
  then show ?case by auto
next
  case (Cons x xs)
  then show ?case by (cases ys) auto
qed

section \<open>Dictionaries\<close>

text \<open>
  A dictionary is an association list with distinct keys. \<open>d[k] = v\<close> is
  \<open>AList.update\<close>: it replaces the value where the key is present and appends otherwise;
  \<open>del d[k]\<close> is \<open>AList.delete\<close>. Python 2 leaves the order in which \<open>keys()\<close> lists the
  keys open, so a source that iterates over a dictionary takes that order as a parameter
  (any function that permutes the keys, \<open>key_order\<close> below) or is modelled on an
  arbitrary association list.
\<close>

type_synonym ('k, 'v) dict = "('k \<times> 'v) list"

abbreviation dict_keys :: "('k, 'v) dict \<Rightarrow> 'k list" where
  "dict_keys d \<equiv> map fst d"

definition dict_ok :: "('k, 'v) dict \<Rightarrow> bool" where
  "dict_ok d \<longleftrightarrow> distinct (dict_keys d)"

definition has_key :: "('k, 'v) dict \<Rightarrow> 'k \<Rightarrow> bool" where
  "has_key d k \<longleftrightarrow> map_of d k \<noteq> None"

definition dict_get :: "('k, 'v) dict \<Rightarrow> 'k \<Rightarrow> 'v py" where
  "dict_get d k = (case map_of d k of None \<Rightarrow> Inl KeyError | Some v \<Rightarrow> Inr v)"

definition dict_del :: "('k, 'v) dict \<Rightarrow> 'k \<Rightarrow> ('k, 'v) dict py" where
  "dict_del d k = (if has_key d k then Inr (AList.delete k d) else Inl KeyError)"

definition key_order :: "('k list \<Rightarrow> 'k list) \<Rightarrow> bool" where
  "key_order ko \<longleftrightarrow> (\<forall>ks. mset (ko ks) = mset ks)"

lemma key_order_set [simp]: "key_order ko \<Longrightarrow> set (ko ks) = set ks"
  by (metis key_order_def set_mset_mset)

lemma key_order_distinct [simp]: "key_order ko \<Longrightarrow> distinct (ko ks) = distinct ks"
  by (metis key_order_def mset_eq_imp_distinct_iff)

lemma key_order_id [simp]: "key_order (\<lambda>ks. ks)"
  by (simp add: key_order_def)

lemma key_order_rev [simp]: "key_order rev"
  by (simp add: key_order_def)

lemma has_key_iff [dict_simps]: "has_key d k \<longleftrightarrow> k \<in> fst ` set d"
  by (simp add: has_key_def map_of_eq_None_iff)

lemma dict_ok_Nil [simp]: "dict_ok []"
  by (simp add: dict_ok_def)

lemma dict_ok_update [simp]: "dict_ok d \<Longrightarrow> dict_ok (AList.update k v d)"
  by (simp add: dict_ok_def distinct_update)

lemma dict_ok_delete [simp]: "dict_ok d \<Longrightarrow> dict_ok (AList.delete k d)"
  by (simp add: dict_ok_def distinct_delete)

lemma map_of_update [dict_simps]: "map_of (AList.update k v d) = (map_of d)(k \<mapsto> v)"
  by (simp add: update_conv')

lemma map_of_delete [dict_simps]: "map_of (AList.delete k d) = (map_of d)(k := None)"
  by (simp add: delete_conv')

lemma keys_update [dict_simps]: "fst ` set (AList.update k v d) = insert k (fst ` set d)"
  by (simp add: dom_update)

lemma set_update_subset: "set (AList.update k v d) \<subseteq> insert (k, v) (set d)"
  by (induction d) auto

lemma update_new: "k \<notin> fst ` set d \<Longrightarrow> AList.update k v d = d @ [(k, v)]"
  by (induction d) auto

lemma keys_delete [dict_simps]: "fst ` set (AList.delete k d) = fst ` set d - {k}"
  by (metis dom_fun_upd dom_map_of_conv_image_fst map_of_delete)

lemma map_of_key: "map_of d k = Some v \<Longrightarrow> k \<in> fst ` set d"
  by (force dest: map_of_SomeD)

lemma map_of_key_iff: "k \<in> fst ` set d \<longleftrightarrow> (\<exists>v. map_of d k = Some v)"
  by (metis map_of_eq_None_iff not_None_eq)

lemma keys_update_absorb:
  "map_of d k = Some v \<Longrightarrow> fst ` set (AList.update k w d) = fst ` set d"
  by (simp add: dict_simps insert_absorb map_of_key)

lemma card_keys_delete: "k \<in> fst ` set d \<Longrightarrow> card (fst ` set (AList.delete k d)) < card (fst ` set d)"
  by (metis card_Diff1_less finite_imageI finite_set keys_delete)

lemma dict_get_Inr: "map_of d k = Some v \<Longrightarrow> dict_get d k = Inr v"
  by (simp add: dict_get_def)

lemma dict_del_Inr: "k \<in> fst ` set d \<Longrightarrow> dict_del d k = Inr (AList.delete k d)"
  by (simp add: dict_del_def has_key_iff)

lemma length_delete_less: "k \<in> fst ` set d \<Longrightarrow> length (AList.delete k d) < length d"
  by (metis delete_keys list.set_map length_map length_removeAll_less)

text \<open>
  The interface of a dictionary, as its clients use it: what a lookup returns after a
  store or a deletion, and that both keep the keys distinct.
\<close>

locale py_mapping =
  fixes lookup :: "'d \<Rightarrow> 'k \<Rightarrow> 'v option"
    and store :: "'k \<Rightarrow> 'v \<Rightarrow> 'd \<Rightarrow> 'd"
    and remove :: "'k \<Rightarrow> 'd \<Rightarrow> 'd"
    and invar :: "'d \<Rightarrow> bool"
  assumes lookup_store: "invar d \<Longrightarrow> lookup (store k v d) = (lookup d)(k \<mapsto> v)"
    and lookup_remove: "invar d \<Longrightarrow> lookup (remove k d) = (lookup d)(k := None)"
    and invar_store: "invar d \<Longrightarrow> invar (store k v d)"
    and invar_remove: "invar d \<Longrightarrow> invar (remove k d)"
begin

lemma invar_store_all: "invar d \<Longrightarrow> invar (foldl (\<lambda>d x. store (f x) (g x) d) d xs)"
  by (induction xs arbitrary: d) (simp_all add: invar_store)

lemma lookup_store_all:
  "invar d \<Longrightarrow> lookup (foldl (\<lambda>d x. store (f x) (g x) d) d xs) =
     lookup d ++ map_of (rev (map (\<lambda>x. (f x, g x)) xs))"
proof (induction xs arbitrary: d)
  case Nil
  then show ?case by simp
next
  case (Cons x xs)
  have "lookup (foldl (\<lambda>d x. store (f x) (g x) d) d (x # xs)) =
      (lookup d)(f x \<mapsto> g x) ++ map_of (rev (map (\<lambda>x. (f x, g x)) xs))"
    by (simp only: foldl.simps Cons.IH [OF invar_store [OF Cons.prems]] lookup_store [OF Cons.prems])
  then show ?case by (simp add: map_add_def fun_eq_iff split: option.splits)
qed

lemma remove_store: "invar d \<Longrightarrow> lookup (remove k (store k v d)) = lookup (remove k d)"
  by (simp add: lookup_store lookup_remove invar_store)

end

interpretation alist_dict: py_mapping map_of AList.update AList.delete dict_ok
  by unfold_locales (simp_all add: dict_simps)

section \<open>Python slices\<close>

text \<open>A slice bound: negative bounds count from the end, and both ends are clamped.\<close>

definition slice_bound :: "nat \<Rightarrow> int \<Rightarrow> nat" where
  "slice_bound n k = (if k < 0 then nat (max 0 (int n + k)) else min n (nat k))"

definition slice_to :: "'a list \<Rightarrow> int \<Rightarrow> 'a list" where
  "slice_to xs k = take (slice_bound (length xs) k) xs"

definition slice_from :: "'a list \<Rightarrow> int \<Rightarrow> 'a list" where
  "slice_from xs k = drop (slice_bound (length xs) k) xs"

definition slice :: "'a list \<Rightarrow> int \<Rightarrow> int \<Rightarrow> 'a list" where
  "slice xs i j = drop (slice_bound (length xs) i) (take (slice_bound (length xs) j) xs)"

definition py_nth :: "'a list \<Rightarrow> int \<Rightarrow> 'a py" where
  "py_nth xs i =
     (let j = (if i < 0 then int (length xs) + i else i)
      in if 0 \<le> j \<and> j < int (length xs) then Inr (xs ! nat j) else Inl IndexError)"

lemmas slice_defs = slice_bound_def slice_to_def slice_from_def slice_def

lemma slice_bound_nat [simp]: "slice_bound n (int k) = min n k"
  by (simp add: slice_bound_def)

lemma slice_bound_minus: "0 < k \<Longrightarrow> slice_bound n (- int k) = n - k"
  by (simp add: slice_bound_def)

lemma slice_bound_le: "slice_bound n k \<le> n"
  by (auto simp: slice_bound_def)

lemma slice_to_from: "slice_to xs k @ slice_from xs k = xs"
  by (simp add: slice_to_def slice_from_def)

lemma slice_nat: "slice xs (int i) (int j) = drop i (take j xs)"
  by (auto simp: slice_def min_def take_all)

lemma filter_window:
  assumes "i \<le> j" "j \<le> length xs" "\<And>k. k < length xs \<Longrightarrow> P (xs ! k) \<longleftrightarrow> i \<le> k \<and> k < j"
  shows "filter P xs = drop i (take j xs)"
proof -
  have xs: "xs = take i xs @ drop i (take j xs) @ drop j xs"
    using assms(1) by (metis append_assoc append_take_drop_id min.absorb1 take_take)
  have "filter P (take i xs) = []"
    using assms by (auto simp: filter_empty_conv in_set_conv_nth)
  moreover have "filter P (drop i (take j xs)) = drop i (take j xs)"
    using assms by (auto simp: filter_id_conv in_set_conv_nth)
  moreover have "filter P (drop j xs) = []"
    using assms by (auto simp: filter_empty_conv in_set_conv_nth)
  ultimately show ?thesis by (subst xs) (simp only: filter_append append_Nil append_Nil2)
qed

lemma py_nth_nat: "i < length xs \<Longrightarrow> py_nth xs (int i) = Inr (xs ! i)"
  by (simp add: py_nth_def)

lemma py_nth_last: "xs \<noteq> [] \<Longrightarrow> py_nth xs (- 1) = Inr (last xs)"
  by (cases xs rule: rev_cases) (auto simp: py_nth_def nth_append nat_diff_distrib)

text \<open>Updating an object held in a list, as a method call on the element does.\<close>

definition update_nth :: "nat \<Rightarrow> ('a \<Rightarrow> 'a) \<Rightarrow> 'a list \<Rightarrow> 'a list" where
  "update_nth i f xs = xs[i := f (xs ! i)]"

section \<open>Strings\<close>

abbreviation nl :: string where
  "nl \<equiv> [CHR 0x0A]"

definition startswith :: "string \<Rightarrow> string \<Rightarrow> bool" where
  "startswith s p \<longleftrightarrow> prefix p s"

text \<open>\<open>p in s\<close> for strings.\<close>

definition contains :: "string \<Rightarrow> string \<Rightarrow> bool" where
  "contains s p \<longleftrightarrow> sublist p s"

text \<open>\<open>s.split(c)\<close> for a separator of one character.\<close>

fun split_char :: "char \<Rightarrow> string \<Rightarrow> string list" where
  "split_char c [] = [[]]"
| "split_char c (x # xs) =
     (if x = c then [] # split_char c xs
      else (case split_char c xs of [] \<Rightarrow> [[x]] | y # ys \<Rightarrow> (x # y) # ys))"

text \<open>\<open>s.split(c, 1)\<close>: one part without the separator, two with it.\<close>

definition split_once :: "char \<Rightarrow> string \<Rightarrow> string list" where
  "split_once c s =
     (if c \<in> set s
      then [takeWhile (\<lambda>x. x \<noteq> c) s, tl (dropWhile (\<lambda>x. x \<noteq> c) s)]
      else [s])"

text \<open>\<open>sep.join(parts)\<close>.\<close>

fun py_join :: "string \<Rightarrow> string list \<Rightarrow> string" where
  "py_join sep [] = []"
| "py_join sep [x] = x"
| "py_join sep (x # y # ys) = x @ sep @ py_join sep (y # ys)"

definition is_space :: "char \<Rightarrow> bool" where
  "is_space c \<longleftrightarrow> c \<in> set [CHR '' '', CHR 0x09, CHR 0x0A, CHR 0x0B, CHR 0x0C, CHR 0x0D]"

definition strip :: "string \<Rightarrow> string" where
  "strip s = rev (dropWhile is_space (rev (dropWhile is_space s)))"

text \<open>\<open>str(i)\<close> and \<open>'%d' % i\<close> for an integer.\<close>

fun str_nat :: "nat \<Rightarrow> string" where
  "str_nat n = (if n < 10 then [''0123456789'' ! n] else str_nat (n div 10) @ [''0123456789'' ! (n mod 10)])"

declare str_nat.simps [simp del]

definition str_int :: "int \<Rightarrow> string" where
  "str_int i = (if i < 0 then ''-'' @ str_nat (nat (- i)) else str_nat (nat i))"

text \<open>The value of a string of decimal digits.\<close>

definition is_digit :: "char \<Rightarrow> bool" where
  "is_digit c \<longleftrightarrow> c \<in> set ''0123456789''"

definition digit_value :: "char \<Rightarrow> int" where
  "digit_value c = of_char c - of_char (CHR ''0'')"

definition int_of_digits :: "string \<Rightarrow> int" where
  "int_of_digits s = foldl (\<lambda>a c. 10 * a + digit_value c) 0 s"

text \<open>The rest of a string after a given prefix, as a regular expression consumes it.\<close>

definition literal :: "string \<Rightarrow> string \<Rightarrow> string option" where
  "literal p s = (if startswith s p then Some (drop (length p) s) else None)"

text \<open>\<open>os.path.join(a, b)\<close> on a POSIX system.\<close>

definition path_join :: "string \<Rightarrow> string \<Rightarrow> string" where
  "path_join a b =
     (if startswith b ''/'' then b
      else if a = [] \<or> last a = CHR ''/'' then a @ b
      else a @ ''/'' @ b)"

lemma str_nat_digits: "set (str_nat n) \<subseteq> set ''0123456789''"
proof (induction n rule: str_nat.induct)
  case (1 n)
  have digit: "''0123456789'' ! d \<in> set ''0123456789''" if "d < 10" for d :: nat
    using that by (intro nth_mem) simp
  show ?case
  proof (cases "n < 10")
    case True
    then show ?thesis using digit [of n] by (subst str_nat.simps) simp
  next
    case False
    then show ?thesis using 1 digit [of "n mod 10"] by (subst str_nat.simps) simp
  qed
qed

lemma digit_value_nth: "d < 10 \<Longrightarrow> digit_value (''0123456789'' ! d) = int d"
  by (auto simp: digit_value_def less_Suc_eq numeral_eq_Suc)

lemma int_of_digits_snoc: "int_of_digits (s @ [c]) = 10 * int_of_digits s + digit_value c"
  by (simp add: int_of_digits_def)

lemma str_nat_not_Nil [simp]: "str_nat n \<noteq> []"
  by (subst str_nat.simps) simp

lemma int_of_digits_str_nat [simp]: "int_of_digits (str_nat n) = int n"
proof (induction n rule: str_nat.induct)
  case (1 n)
  show ?case
  proof (cases "n < 10")
    case True
    then show ?thesis using digit_value_nth [of n] by (subst str_nat.simps) (simp add: int_of_digits_def)
  next
    case False
    then have "int_of_digits (str_nat n) = 10 * int (n div 10) + int (n mod 10)"
      using 1 digit_value_nth [of "n mod 10"] by (subst str_nat.simps) (simp add: int_of_digits_snoc)
    also have "\<dots> = int (10 * (n div 10) + n mod 10)" by (simp only: of_nat_add of_nat_mult of_nat_numeral)
    finally show ?thesis by (simp only: mult_div_mod_eq)
  qed
qed

lemma str_nat_is_digit: "list_all is_digit (str_nat n)"
  unfolding list_all_iff is_digit_def using str_nat_digits [of n] by blast

lemma literal_append [simp]: "literal p (p @ s) = Some s"
  by (simp add: literal_def startswith_def)

lemma split_char_nonempty [simp]: "split_char c s \<noteq> []"
  by (induction s) (auto split: list.splits)

lemma join_split_char: "py_join [c] (split_char c s) = s"
proof (induction s)
  case Nil
  then show ?case by simp
next
  case (Cons x xs)
  then show ?case
    by (cases "split_char c xs"; cases "tl (split_char c xs)") auto
qed

lemma split_char_no_sep: "p \<in> set (split_char c s) \<Longrightarrow> c \<notin> set p"
  by (induction s arbitrary: p) (auto split: list.splits if_splits)

lemma split_char_length: "length (split_char c s) = Suc (count_list s c)"
  by (induction s) (auto split: list.splits)

lemma split_once_join:
  "c \<in> set s \<Longrightarrow> split_once c s = [a, b] \<Longrightarrow> s = a @ [c] @ b"
proof -
  assume c: "c \<in> set s" and ab: "split_once c s = [a, b]"
  let ?d = "dropWhile (\<lambda>x. x \<noteq> c) s"
  from c have "?d \<noteq> []" by (simp add: dropWhile_eq_Nil_conv)
  then have "?d = c # tl ?d" using hd_dropWhile [of "\<lambda>x. x \<noteq> c" s] by (cases ?d) auto
  with c ab have "takeWhile (\<lambda>x. x \<noteq> c) s @ ?d = a @ [c] @ b"
    by (simp add: split_once_def)
  then show ?thesis by simp
qed

section \<open>Machines over a list of inputs\<close>

text \<open>
  A function that consumes its inputs one by one, may fail, and keeps an invariant of its
  state: the shape of the shell parser, the patch parser and the report reader.
\<close>

fun run_steps :: "('s \<Rightarrow> 'i \<Rightarrow> 'e + 's) \<Rightarrow> 's \<Rightarrow> 'i list \<Rightarrow> 'e + 's" where
  "run_steps f s [] = Inr s"
| "run_steps f s (i # is) = py_bind (f s i) (\<lambda>s'. run_steps f s' is)"

lemma run_steps_append:
  "run_steps f s (is @ js) = py_bind (run_steps f s is) (\<lambda>s'. run_steps f s' js)"
  by (induction "is" arbitrary: s) (simp_all add: py_bind_assoc)

locale guarded_run =
  fixes step :: "'s \<Rightarrow> 'i \<Rightarrow> 'e + 's"
    and inv :: "'s \<Rightarrow> bool"
    and err :: "'e \<Rightarrow> bool"
  assumes step_inv: "inv s \<Longrightarrow> step s i = Inr s' \<Longrightarrow> inv s'"
    and step_err: "inv s \<Longrightarrow> step s i = Inl e \<Longrightarrow> err e"
begin

lemma run_inv: "inv s \<Longrightarrow> run_steps step s is = Inr s' \<Longrightarrow> inv s'"
  by (induction "is" arbitrary: s) (auto intro: step_inv)

lemma run_err: "inv s \<Longrightarrow> run_steps step s is = Inl e \<Longrightarrow> err e"
  by (induction "is" arbitrary: s) (auto simp: py_bind_eq_Inl intro: step_inv step_err)

end

end
