(* ===== verification/Topsort.thy ===== *)
theory Topsort
  imports Py_Prelude
begin

text \<open>
  The dependency sorting of \<^verbatim>\<open>bindings/python/topsort.py\<close>: \<^verbatim>\<open>topsort\<close>,
  \<^verbatim>\<open>topsort_levels\<close> and \<^verbatim>\<open>topsort_levels_core\<close>. The two dictionaries of the
  source are association lists; the order in which Python lists the keys of
  \<^verbatim>\<open>num_parents\<close> is the parameter \<open>ko\<close>, of which only \<open>key_order\<close> is assumed. The theory
  shows that a returned list is a topological order, that \<^verbatim>\<open>CycleError\<close> is raised exactly
  on cyclic input, that no lookup fails, and that the levels are the tight dependency levels.
\<close>

section \<open>Definitions\<close>

datatype 'a ts_exn =
    TsKeyError
  | CycleError "'a list option" "('a, int) dict" "('a, 'a list) dict"

type_synonym 'a counts = "('a, int) dict"
type_synonym 'a succs = "('a, 'a list) dict"

text \<open>The body of the first loop: register both elements, count the parent, add the child.\<close>

definition add_pair :: "'a counts \<times> 'a succs \<Rightarrow> 'a \<times> 'a \<Rightarrow> 'a counts \<times> 'a succs" where
  "add_pair st pc =
     (case (st, pc) of ((num_parents, children), (parent, child)) \<Rightarrow>
        let np1 = (if has_key num_parents parent then num_parents
                   else AList.update parent 0 num_parents);
            np2 = (if has_key np1 child then np1 else AList.update child 0 np1);
            np3 = (case map_of np2 child of
                     None \<Rightarrow> np2
                   | Some n \<Rightarrow> AList.update child (n + 1) np2);
            ch = (case map_of children parent of
                    None \<Rightarrow> AList.update parent [child] children
                  | Some cs \<Rightarrow> AList.update parent (cs @ [child]) children)
        in (np3, ch))"

definition build_counts :: "('a \<times> 'a) list \<Rightarrow> 'a counts \<times> 'a succs" where
  "build_counts pairlist = foldl add_pair ([], []) pairlist"

text \<open>The inner loop: knock down the count of every child, append those that reach zero.\<close>

fun decr_children :: "'a counts \<Rightarrow> 'a list \<Rightarrow> 'a list \<Rightarrow> 'a ts_exn + 'a counts \<times> 'a list" where
  "decr_children num_parents answer [] = Inr (num_parents, answer)"
| "decr_children num_parents answer (child # cs) =
     (case map_of num_parents child of
        None \<Rightarrow> Inl TsKeyError
      | Some n \<Rightarrow>
          decr_children (AList.update child (n - 1) num_parents)
            (if n - 1 = 0 then answer @ [child] else answer) cs)"

lemma decr_children_keys:
  "decr_children np answer cs = Inr (np', answer') \<Longrightarrow> fst ` set np' = fst ` set np"
  by (induction np answer cs rule: decr_children.induct)
    (auto simp: keys_update_absorb split: option.splits)

text \<open>
  The main loop \<open>for parent in answer\<close>, which runs over a list that grows in the loop:
  \<open>i\<close> is the position of the iterator.
\<close>

function topsort_loop ::
  "nat \<Rightarrow> 'a list \<Rightarrow> 'a counts \<Rightarrow> 'a succs \<Rightarrow> 'a ts_exn + 'a list \<times> 'a counts \<times> 'a succs" where
  "topsort_loop i answer num_parents children =
     (if i < length answer
      then let parent = answer ! i in
        if has_key num_parents parent
        then (case map_of children parent of
                None \<Rightarrow> topsort_loop (Suc i) answer (AList.delete parent num_parents) children
              | Some cs \<Rightarrow>
                  (case decr_children (AList.delete parent num_parents) answer cs of
                     Inl e \<Rightarrow> Inl e
                   | Inr (np, answer') \<Rightarrow>
                       topsort_loop (Suc i) answer' np (AList.delete parent children)))
        else Inl TsKeyError
      else Inr (answer, num_parents, children))"
  by pat_completeness auto
termination
proof (relation "measure (\<lambda>(i, answer, np, ch). card (fst ` set np))")
  fix i :: nat and answer :: "'a list" and np np' :: "'a counts" and ch :: "'a succs"
    and parent cs x answer'
  have less: "card (fst ` set (AList.delete parent np)) < card (fst ` set np)"
    if "has_key np parent" for parent :: 'a
    using that card_keys_delete by (simp add: has_key_iff)
  show "wf (measure (\<lambda>(i, answer, np, ch). card (fst ` set np)))" by simp
  show "((Suc i, answer, AList.delete parent np, ch), i, answer, np, ch)
      \<in> measure (\<lambda>(i, answer, np, ch). card (fst ` set np))"
    if "parent = answer ! i" "has_key np parent"
    using less [OF that(2)] by simp
  show "((Suc i, answer', np', AList.delete parent ch), i, answer, np, ch)
      \<in> measure (\<lambda>(i, answer, np, ch). card (fst ` set np))"
    if "has_key np parent" "decr_children (AList.delete parent np) answer cs = Inr x" "(np', answer') = x"
    using less [OF that(1)] decr_children_keys [of "AList.delete parent np" answer cs np' answer'] that
    by simp
qed

declare topsort_loop.simps [simp del]

definition topsort :: "('a list \<Rightarrow> 'a list) \<Rightarrow> ('a \<times> 'a) list \<Rightarrow> 'a ts_exn + 'a list" where
  "topsort ko pairlist =
     (case build_counts pairlist of (num_parents, children) \<Rightarrow>
        let answer = filter (\<lambda>x. map_of num_parents x = Some 0) (ko (dict_keys num_parents))
        in case topsort_loop 0 answer num_parents children of
             Inl e \<Rightarrow> Inl e
           | Inr (answer, num_parents, children) \<Rightarrow>
               if num_parents \<noteq> [] then Inl (CycleError (Some answer) num_parents children)
               else Inr answer)"

text \<open>The generator: a round drops one level of parents.\<close>

fun levels_decr :: "'a counts \<Rightarrow> 'a list \<Rightarrow> 'a ts_exn + 'a counts" where
  "levels_decr num_parents [] = Inr num_parents"
| "levels_decr num_parents (child # cs) =
     (case map_of num_parents child of
        None \<Rightarrow> Inl TsKeyError
      | Some n \<Rightarrow> levels_decr (AList.update child (n - 1) num_parents) cs)"

fun levels_drop :: "'a counts \<Rightarrow> 'a succs \<Rightarrow> 'a list \<Rightarrow> 'a ts_exn + 'a counts \<times> 'a succs" where
  "levels_drop num_parents children [] = Inr (num_parents, children)"
| "levels_drop num_parents children (level_parent # ps) =
     (if has_key num_parents level_parent
      then (case map_of children level_parent of
              None \<Rightarrow> levels_drop (AList.delete level_parent num_parents) children ps
            | Some cs \<Rightarrow>
                (case levels_decr (AList.delete level_parent num_parents) cs of
                   Inl e \<Rightarrow> Inl e
                 | Inr np \<Rightarrow> levels_drop np (AList.delete level_parent children) ps))
      else Inl TsKeyError)"

lemma levels_decr_keys: "levels_decr np cs = Inr np' \<Longrightarrow> fst ` set np' = fst ` set np"
  by (induction np cs rule: levels_decr.induct)
    (auto simp: keys_update_absorb split: option.splits)

lemma levels_drop_keys:
  "levels_drop np ch ps = Inr (np', ch') \<Longrightarrow> fst ` set np' = fst ` set np - set ps"
proof (induction np ch ps arbitrary: np' ch' rule: levels_drop.induct)
  case (2 np ch p ps)
  show ?case
  proof (cases "map_of ch p")
    case None
    with "2" show ?thesis by (auto simp: keys_delete split: if_splits)
  next
    case (Some cs)
    with "2.prems" obtain np1 where np1: "levels_decr (AList.delete p np) cs = Inr np1"
      and k: "has_key np p" and rest: "levels_drop np1 (AList.delete p ch) ps = Inr (np', ch')"
      by (auto split: if_splits sum.splits)
    from "2.IH"(2) [OF k Some np1 rest] levels_decr_keys [OF np1] show ?thesis
      by (auto simp: keys_delete)
  qed
qed simp

text \<open>
  The yielded levels and how the generator ends: \<open>None\<close> for \<open>StopIteration\<close>, otherwise the
  exception. \<open>ko k\<close> is the key order in round \<open>k\<close>.
\<close>

function levels_loop ::
  "(nat \<Rightarrow> 'a list \<Rightarrow> 'a list) \<Rightarrow> nat \<Rightarrow> 'a counts \<Rightarrow> 'a succs \<Rightarrow> 'a list list \<times> 'a ts_exn option" where
  "levels_loop ko k num_parents children =
     (let level_parents = filter (\<lambda>x. map_of num_parents x = Some 0) (ko k (dict_keys num_parents))
      in if level_parents = []
         then ([], if num_parents \<noteq> [] then Some (CycleError None num_parents children) else None)
         else (case levels_drop num_parents children level_parents of
                 Inl e \<Rightarrow> ([level_parents], Some e)
               | Inr (np, ch) \<Rightarrow>
                   (case levels_loop ko (Suc k) np ch of
                      (levels, end) \<Rightarrow> (level_parents # levels, end))))"
  by pat_completeness auto
termination
proof (relation "measure (\<lambda>(ko, k, np, ch). card (fst ` set np))", goal_cases)
  case 1
  then show ?case by simp
next
  case (2 ko k np ch level x np' ch')
  obtain y where y: "y \<in> set level" using "2"(2) by (cases level) auto
  with "2"(1) have "y \<in> fst ` set np" by (force dest: map_of_SomeD)
  then have "fst ` set np - set level \<subset> fst ` set np" using y by blast
  moreover have "fst ` set np' = fst ` set np - set level"
    using "2"(3,4) by (auto dest!: levels_drop_keys)
  ultimately show ?case by (simp add: psubset_card_mono)
qed

declare levels_loop.simps [simp del]

definition topsort_levels_core ::
  "(nat \<Rightarrow> 'a list \<Rightarrow> 'a list) \<Rightarrow> 'a counts \<Rightarrow> 'a succs \<Rightarrow> 'a list list \<times> 'a ts_exn option" where
  "topsort_levels_core ko num_parents children = levels_loop ko 0 num_parents children"

definition topsort_levels ::
  "(nat \<Rightarrow> 'a list \<Rightarrow> 'a list) \<Rightarrow> ('a \<times> 'a) list \<Rightarrow> 'a list list \<times> 'a ts_exn option" where
  "topsort_levels ko pairlist =
     (case build_counts pairlist of (num_parents, children) \<Rightarrow>
        topsort_levels_core ko num_parents children)"

section \<open>Specification: pending parents of an element\<close>

text \<open>The elements of the pair list, and the parents of \<open>c\<close> outside a set \<open>D\<close>, with multiplicity.\<close>

definition elems :: "('a \<times> 'a) list \<Rightarrow> 'a set" where
  "elems ps = fst ` set ps \<union> snd ` set ps"

definition pending :: "('a \<times> 'a) list \<Rightarrow> 'a set \<Rightarrow> 'a \<Rightarrow> nat" where
  "pending ps D c = length (filter (\<lambda>pc. snd pc = c \<and> fst pc \<notin> D) ps)"

definition kids :: "('a \<times> 'a) list \<Rightarrow> 'a \<Rightarrow> 'a list" where
  "kids ps p = map snd (filter (\<lambda>pc. fst pc = p) ps)"

text \<open>What the dictionaries hold once the parents in \<open>D\<close> have been accounted for.\<close>

definition counts_for :: "('a \<times> 'a) list \<Rightarrow> 'a set \<Rightarrow> 'a counts \<Rightarrow> bool" where
  "counts_for ps D np \<longleftrightarrow>
     (\<forall>x. map_of np x = (if x \<in> elems ps - D then Some (int (pending ps D x)) else None))"

definition succs_for :: "('a \<times> 'a) list \<Rightarrow> 'a set \<Rightarrow> 'a succs \<Rightarrow> bool" where
  "succs_for ps D ch \<longleftrightarrow>
     (\<forall>p. map_of ch p = (if p \<in> fst ` set ps - D then Some (kids ps p) else None))"

definition down_closed :: "('a \<times> 'a) list \<Rightarrow> 'a set \<Rightarrow> bool" where
  "down_closed ps D \<longleftrightarrow> (\<forall>p c. (p, c) \<in> set ps \<longrightarrow> c \<in> D \<longrightarrow> p \<in> D)"

lemma pending_zero_iff: "pending ps D c = 0 \<longleftrightarrow> (\<forall>p. (p, c) \<in> set ps \<longrightarrow> p \<in> D)"
  by (auto simp: pending_def filter_empty_conv)

lemma pending_insert: "p \<notin> D \<Longrightarrow> pending ps D c = pending ps (insert p D) c + count_list (kids ps p) c"
  by (induction ps) (auto simp: pending_def kids_def)

lemma set_kids: "c \<in> set (kids ps p) \<longleftrightarrow> (p, c) \<in> set ps"
  by (force simp: kids_def)

lemma counts_for_keys: "counts_for ps D np \<Longrightarrow> fst ` set np = elems ps - D"
  by (rule set_eqI) (simp only: map_of_key_iff counts_for_def, simp)

lemma counts_for_Nil: "counts_for ps D np \<Longrightarrow> np = [] \<longleftrightarrow> elems ps \<subseteq> D"
  by (metis Diff_eq_empty_iff counts_for_keys image_is_empty set_empty)

lemma elems_pairs: "(p, c) \<in> set ps \<Longrightarrow> p \<in> elems ps \<and> c \<in> elems ps"
  by (force simp: elems_def)

subsection \<open>Building the dictionaries\<close>

lemma add_pair_counts:
  assumes "counts_for ps {} np" and "succs_for ps {} ch" and "add_pair (np, ch) pc = (np', ch')"
  shows "counts_for (ps @ [pc]) {} np' \<and> succs_for (ps @ [pc]) {} ch'"
proof -
  obtain p c where pc: "pc = (p, c)" by (cases pc)
  have np: "map_of np x = (if x \<in> elems ps then Some (int (pending ps {} x)) else None)" for x
    using assms(1) by (simp add: counts_for_def)
  have hk: "has_key np x \<longleftrightarrow> x \<in> elems ps" for x
    by (simp add: has_key_def np)
  have out: "x \<notin> elems ps \<Longrightarrow> pending ps {} x = 0" for x
    by (auto simp: pending_zero_iff dest: elems_pairs)
  define np1 where "np1 = (if has_key np p then np else AList.update p 0 np)"
  define np2 where "np2 = (if has_key np1 c then np1 else AList.update c 0 np1)"
  have np1: "map_of np1 x = (if x \<in> insert p (elems ps) then Some (int (pending ps {} x)) else None)" for x
    using out by (simp add: np1_def hk np map_of_update)
  have hk1: "has_key np1 x \<longleftrightarrow> x \<in> insert p (elems ps)" for x
    unfolding has_key_def np1 by simp
  have np2: "map_of np2 x = (if x \<in> insert p (insert c (elems ps))
      then Some (int (pending ps {} x)) else None)" for x
    using out by (simp add: np2_def hk1 np1 map_of_update)
  have "np' = (case map_of np2 c of None \<Rightarrow> np2 | Some n \<Rightarrow> AList.update c (n + 1) np2)"
    using assms(3)
    by (simp only: pc add_pair_def Let_def prod.case prod.inject np2_def np1_def)
  then have "np' = AList.update c (int (pending ps {} c) + 1) np2"
    by (simp add: np2)
  then have "map_of np' x =
      (if x \<in> insert p (insert c (elems ps))
       then Some (int (pending ps {} x) + (if x = c then 1 else 0)) else None)" for x
    by (simp add: np2 map_of_update)
  moreover have "ch' = AList.update p (kids ps p @ [c]) ch"
  proof -
    have "ch' = (case map_of ch p of None \<Rightarrow> AList.update p [c] ch
        | Some cs \<Rightarrow> AList.update p (cs @ [c]) ch)"
      using assms(3) by (simp only: pc add_pair_def Let_def prod.case prod.inject)
    moreover have "p \<notin> fst ` set ps \<Longrightarrow> kids ps p = []"
      by (force simp: kids_def filter_empty_conv)
    ultimately show ?thesis using assms(2) by (simp add: succs_for_def)
  qed
  then have "map_of ch' x =
      (if x \<in> insert p (fst ` set ps) then Some (kids (ps @ [pc]) x) else None)" for x
    using assms(2) by (simp add: map_of_update succs_for_def pc kids_def)
  ultimately show ?thesis
    by (simp add: counts_for_def succs_for_def pc elems_def pending_def)
qed

lemma build_counts_correct:
  assumes "build_counts ps = (np, ch)"
  shows "counts_for ps {} np \<and> succs_for ps {} ch"
  using assms
proof (induction ps arbitrary: np ch rule: rev_induct)
  case Nil
  then show ?case by (auto simp: build_counts_def counts_for_def succs_for_def elems_def)
next
  case (snoc pc ps)
  obtain np0 ch0 where b: "build_counts ps = (np0, ch0)" by fastforce
  with snoc.prems have "add_pair (np0, ch0) pc = (np, ch)" by (simp add: build_counts_def)
  with snoc.IH [OF b] show ?case using add_pair_counts by blast
qed

lemma build_counts_ok: "build_counts ps = (np, ch) \<Longrightarrow> dict_ok np"
proof (induction ps arbitrary: np ch rule: rev_induct)
  case (snoc pc ps)
  obtain np0 ch0 where b: "build_counts ps = (np0, ch0)" by fastforce
  with snoc.prems have "add_pair (np0, ch0) pc = (np, ch)" by (simp add: build_counts_def)
  with snoc.IH [OF b] show ?case
    by (auto simp: add_pair_def Let_def split: prod.splits option.splits if_splits)
qed (auto simp: build_counts_def)

subsection \<open>Accounting for one parent\<close>

lemma decr_children_eq:
  assumes "\<And>c. c \<in> set cs \<Longrightarrow> \<exists>n. map_of np c = Some n \<and> int (count_list cs c) \<le> n"
  shows "\<exists>np' new. decr_children np answer cs = Inr (np', answer @ new) \<and>
     (\<forall>x. map_of np' x = map_option (\<lambda>n. n - int (count_list cs x)) (map_of np x)) \<and>
     distinct new \<and> set new = {x \<in> set cs. map_of np x = Some (int (count_list cs x))} \<and>
     (dict_ok np \<longrightarrow> dict_ok np')"
  using assms
proof (induction cs arbitrary: np answer)
  case Nil
  then show ?case by (simp add: option.map_ident)
next
  case (Cons c cs)
  obtain n where n: "map_of np c = Some n" "int (count_list (c # cs) c) \<le> n"
    using Cons.prems by (meson list.set_intros(1))
  let ?np = "AList.update c (n - 1) np"
  let ?answer = "if n - 1 = 0 then answer @ [c] else answer"
  have "\<exists>m. map_of ?np x = Some m \<and> int (count_list cs x) \<le> m" if "x \<in> set cs" for x
    using that n Cons.prems [of x] by (auto simp: dict_simps split: if_splits)
  from Cons.IH [OF this, of ?answer] obtain np' new where
    r: "decr_children ?np ?answer cs = Inr (np', ?answer @ new)"
    and m: "\<forall>x. map_of np' x = map_option (\<lambda>n. n - int (count_list cs x)) (map_of ?np x)"
    and d: "distinct new" and s: "set new = {x \<in> set cs. map_of ?np x = Some (int (count_list cs x))}"
    and ok: "dict_ok ?np \<longrightarrow> dict_ok np'"
    by blast
  let ?new = "(if n - 1 = 0 then [c] else []) @ new"
  have zero: "n = 1 \<Longrightarrow> c \<notin> set cs" using n(2) by (auto simp: count_list_0_iff)
  have "decr_children np answer (c # cs) = Inr (np', answer @ ?new)"
    using r n by (simp split: if_splits)
  moreover have "map_of np' x = map_option (\<lambda>n. n - int (count_list (c # cs) x)) (map_of np x)" for x
    using m n by (auto simp: dict_simps option.map_comp comp_def)
  moreover have "distinct ?new" using d s zero by auto
  moreover have "set ?new = {x \<in> set (c # cs). map_of np x = Some (int (count_list (c # cs) x))}"
  proof (rule set_eqI)
    fix x
    show "x \<in> set ?new \<longleftrightarrow> x \<in> {x \<in> set (c # cs). map_of np x = Some (int (count_list (c # cs) x))}"
    proof (cases "x = c")
      case True
      have "c \<in> set new \<longleftrightarrow> c \<in> set cs \<and> n - 1 = int (count_list cs c)"
        unfolding s by (simp add: map_of_update)
      moreover have "c \<notin> set cs \<longleftrightarrow> count_list cs c = 0" by (simp add: count_list_0_iff)
      ultimately show ?thesis using True n zero by auto
    next
      case False
      then show ?thesis using s by (auto simp: map_of_update)
    qed
  qed
  moreover have "dict_ok np \<longrightarrow> dict_ok np'" using ok by simp
  ultimately show ?case by blast
qed

lemma levels_decr_eq: "levels_decr np cs = map_sum id fst (decr_children np answer cs)"
  by (induction np answer cs rule: decr_children.induct) (auto split: option.splits)

text \<open>
  One parent \<open>p\<close> whose own parents are all in \<open>D\<close>: deleting it and knocking down its children
  leaves the dictionaries for \<open>insert p D\<close>, fails on no lookup, and makes ready exactly the
  children whose last parent outside \<open>D\<close> was \<open>p\<close>.
\<close>

definition newly_ready :: "('a \<times> 'a) list \<Rightarrow> 'a set \<Rightarrow> 'a \<Rightarrow> 'a set" where
  "newly_ready ps D p = {x \<in> set (kids ps p). pending ps (insert p D) x = 0}"

lemma account_parent:
  assumes np: "counts_for ps D np" and dc: "down_closed ps D" and p: "p \<in> elems ps - D"
    and ready: "pending ps D p = 0"
  shows "\<exists>np' new. decr_children (AList.delete p np) answer (kids ps p) = Inr (np', answer @ new) \<and>
     counts_for ps (insert p D) np' \<and> distinct new \<and> set new = newly_ready ps D p \<and>
     (dict_ok np \<longrightarrow> dict_ok np')"
proof -
  have pend: "pending ps D c = pending ps (insert p D) c + count_list (kids ps p) c" for c
    using p by (simp add: pending_insert)
  have del: "map_of (AList.delete p np) x =
      (if x \<in> elems ps - insert p D then Some (int (pending ps D x)) else None)" for x
    using np by (simp add: counts_for_def map_of_delete)
  have kid: "c \<in> elems ps - insert p D" if "c \<in> set (kids ps p)" for c
  proof -
    from that have e: "(p, c) \<in> set ps" by (simp add: set_kids)
    moreover have "c \<noteq> p" using e ready p by (auto simp: pending_zero_iff)
    moreover have "c \<notin> D" using e dc p by (auto simp: down_closed_def)
    ultimately show ?thesis using elems_pairs [OF e] by blast
  qed
  have "\<exists>n. map_of (AList.delete p np) c = Some n \<and> int (count_list (kids ps p) c) \<le> n"
    if "c \<in> set (kids ps p)" for c
    using kid [OF that] del pend by simp
  from decr_children_eq [OF this, of answer] obtain np' new where
    r: "decr_children (AList.delete p np) answer (kids ps p) = Inr (np', answer @ new)"
    and m: "\<forall>x. map_of np' x = map_option (\<lambda>n. n - int (count_list (kids ps p) x))
          (map_of (AList.delete p np) x)"
    and d: "distinct new"
    and s: "set new = {x \<in> set (kids ps p).
          map_of (AList.delete p np) x = Some (int (count_list (kids ps p) x))}"
    and ok: "dict_ok (AList.delete p np) \<longrightarrow> dict_ok np'"
    by blast
  have "counts_for ps (insert p D) np'"
    unfolding counts_for_def using m del pend by simp
  moreover have "set new = newly_ready ps D p"
    unfolding s newly_ready_def using kid del pend by auto
  ultimately show ?thesis using r d ok by auto
qed

lemma succs_for_lookup:
  "succs_for ps D ch \<Longrightarrow> p \<notin> D \<Longrightarrow>
     map_of ch p = (if kids ps p = [] then None else Some (kids ps p))"
  by (force simp: succs_for_def kids_def filter_empty_conv)

lemma succs_for_delete: "succs_for ps D ch \<Longrightarrow> succs_for ps (insert p D) (AList.delete p ch)"
  by (simp add: succs_for_def map_of_delete)

lemma succs_for_skip: "succs_for ps D ch \<Longrightarrow> kids ps p = [] \<Longrightarrow> succs_for ps (insert p D) ch"
  by (auto simp: succs_for_def kids_def filter_empty_conv)

lemma down_closed_insert:
  "down_closed ps D \<Longrightarrow> pending ps D p = 0 \<Longrightarrow> down_closed ps (insert p D)"
  by (auto simp: down_closed_def pending_zero_iff)

section \<open>The main loop of topsort\<close>

text \<open>
  The loop invariant, with the processed parents \<open>D = set (take i answer)\<close>: the
  dictionaries are those for \<open>D\<close>, the answer holds \<open>D\<close> and every element that is ready,
  and the parents of an answer element stand before it.
\<close>

definition ordered_upto :: "('a \<times> 'a) list \<Rightarrow> nat \<Rightarrow> 'a list \<Rightarrow> bool" where
  "ordered_upto ps i answer \<longleftrightarrow>
     (\<forall>k < length answer. \<forall>p. (p, answer ! k) \<in> set ps \<longrightarrow> p \<in> set (take (min k i) answer))"

definition loop_inv :: "('a \<times> 'a) list \<Rightarrow> nat \<Rightarrow> 'a list \<Rightarrow> 'a counts \<Rightarrow> 'a succs \<Rightarrow> bool" where
  "loop_inv ps i answer np ch \<longleftrightarrow>
     i \<le> length answer \<and> distinct answer \<and> ordered_upto ps i answer \<and>
     counts_for ps (set (take i answer)) np \<and> succs_for ps (set (take i answer)) ch \<and>
     set answer = set (take i answer) \<union> {x \<in> elems ps. pending ps (set (take i answer)) x = 0} \<and>
     set answer \<subseteq> elems ps"

lemma ordered_down_closed: "ordered_upto ps i answer \<Longrightarrow> i \<le> length answer \<Longrightarrow> down_closed ps (set (take i answer))"
  unfolding down_closed_def ordered_upto_def
  by (metis (no_types, lifting) in_set_conv_nth length_take min.absorb2 min.absorb4 nth_take
      set_take_subset_set_take subsetD min.cobounded2 less_le_trans)

lemma ordered_extend:
  assumes "ordered_upto ps i answer" and "i < length answer"
    and "\<And>x. x \<in> set new \<Longrightarrow> pending ps (set (take (Suc i) answer)) x = 0"
  shows "ordered_upto ps (Suc i) (answer @ new)"
  unfolding ordered_upto_def
proof (intro allI impI)
  fix k p
  assume k: "k < length (answer @ new)" and e: "(p, (answer @ new) ! k) \<in> set ps"
  show "p \<in> set (take (min k (Suc i)) (answer @ new))"
  proof (cases "k < length answer")
    case True
    with e assms(1) have "p \<in> set (take (min k i) answer)"
      by (simp add: ordered_upto_def nth_append)
    moreover have "min k i \<le> min k (Suc i)" by simp
    ultimately have "p \<in> set (take (min k (Suc i)) answer)"
      by (meson set_take_subset_set_take subsetD)
    then show ?thesis by simp
  next
    case False
    with e k have "pending ps (set (take (Suc i) answer)) ((answer @ new) ! k) = 0"
      by (intro assms(3)) (simp add: nth_append)
    with e have "p \<in> set (take (Suc i) answer)" by (simp add: pending_zero_iff)
    moreover have "min k (Suc i) = Suc i" using False assms(2) by simp
    ultimately show ?thesis using assms(2) by simp
  qed
qed

lemma pending_antimono: "D \<subseteq> E \<Longrightarrow> pending ps D x = 0 \<Longrightarrow> pending ps E x = 0"
  by (auto simp: pending_zero_iff)

lemma ready_extend:
  assumes "p \<notin> D"
  shows "{x \<in> elems ps. pending ps (insert p D) x = 0} =
     {x \<in> elems ps. pending ps D x = 0} \<union> newly_ready ps D p"
proof -
  have "pending ps D x = 0" if "x \<notin> set (kids ps p)" "pending ps (insert p D) x = 0" for x
    using that assms by (simp add: pending_insert [of p D] count_list_0_iff)
  moreover have "x \<in> elems ps" if "x \<in> set (kids ps p)" for x
    using that by (auto simp: set_kids dest: elems_pairs)
  ultimately show ?thesis
    using pending_antimono [of D "insert p D" ps] by (auto simp: newly_ready_def)
qed

lemma loop_inv_step:
  assumes inv: "loop_inv ps i answer np ch" and i: "i < length answer"
  defines "p \<equiv> answer ! i"
  obtains np' new where
    "has_key np p"
    and "decr_children (AList.delete p np) answer (kids ps p) = Inr (np', answer @ new)"
    and "map_of ch p = (if kids ps p = [] then None else Some (kids ps p))"
    and "loop_inv ps (Suc i) (answer @ new) np' (if kids ps p = [] then ch else AList.delete p ch)"
proof -
  let ?D = "set (take i answer)"
  have D': "set (take (Suc i) answer) = insert p ?D"
    using i by (simp add: p_def take_Suc_conv_app_nth)
  have inv': "distinct answer" "ordered_upto ps i answer" "counts_for ps ?D np" "succs_for ps ?D ch"
    "set answer = ?D \<union> {x \<in> elems ps. pending ps ?D x = 0}" "set answer \<subseteq> elems ps"
    using inv by (auto simp: loop_inv_def)
  have pD: "p \<notin> ?D"
    using inv'(1) i by (auto simp: p_def in_set_conv_nth nth_eq_iff_index_eq)
  have p: "p \<in> elems ps - ?D" and ready: "pending ps ?D p = 0"
    using inv'(5,6) i pD nth_mem [OF i] by (auto simp: p_def)
  have dc: "down_closed ps ?D" using ordered_down_closed inv'(2) i by fastforce
  from account_parent [OF inv'(3) dc p ready, of answer] obtain np' new where
    r: "decr_children (AList.delete p np) answer (kids ps p) = Inr (np', answer @ new)"
    and c: "counts_for ps (insert p ?D) np'" and d: "distinct new"
    and s: "set new = newly_ready ps ?D p"
    by blast
  have key: "has_key np p" using p counts_for_keys [OF inv'(3)] by (simp add: has_key_iff)
  have fresh: "set new \<inter> set answer = {}"
    unfolding s inv'(5) using dc p pD
    by (auto simp: newly_ready_def set_kids pending_zero_iff down_closed_def)
  have "ordered_upto ps (Suc i) (answer @ new)"
    by (rule ordered_extend [OF inv'(2) i]) (simp add: s newly_ready_def D')
  moreover have "set (answer @ new) =
      insert p ?D \<union> {x \<in> elems ps. pending ps (insert p ?D) x = 0}"
    unfolding ready_extend [OF pD] using inv'(5) s p ready by auto
  moreover have "set new \<subseteq> elems ps"
    using s elems_pairs by (fastforce simp: newly_ready_def set_kids)
  moreover have "succs_for ps (insert p ?D) (if kids ps p = [] then ch else AList.delete p ch)"
    using inv'(4) by (simp add: succs_for_skip succs_for_delete)
  ultimately have "loop_inv ps (Suc i) (answer @ new) np'
      (if kids ps p = [] then ch else AList.delete p ch)"
    using c d inv'(1,6) fresh i by (auto simp: loop_inv_def D')
  then show ?thesis
    using that key r succs_for_lookup [OF inv'(4) pD] by blast
qed

lemma topsort_loop_correct:
  "loop_inv ps i answer np ch \<Longrightarrow>
     \<exists>answer' np' ch'. topsort_loop i answer np ch = Inr (answer', np', ch') \<and>
       loop_inv ps (length answer') answer' np' ch'"
proof (induction i answer np ch rule: topsort_loop.induct)
  case (1 i answer np ch)
  show ?case
  proof (cases "i < length answer")
    case False
    with "1.prems" have "i = length answer" by (auto simp: loop_inv_def)
    with "1.prems" show ?thesis by (subst topsort_loop.simps) simp
  next
    case True
    let ?p = "answer ! i"
    from loop_inv_step [OF "1.prems" True] obtain np' new where
      key: "has_key np ?p"
      and r: "decr_children (AList.delete ?p np) answer (kids ps ?p) = Inr (np', answer @ new)"
      and ch: "map_of ch ?p = (if kids ps ?p = [] then None else Some (kids ps ?p))"
      and inv: "loop_inv ps (Suc i) (answer @ new) np'
          (if kids ps ?p = [] then ch else AList.delete ?p ch)"
      by blast
    show ?thesis
    proof (cases "kids ps ?p = []")
      case True': True
      with r have "np' = AList.delete ?p np" "new = []" by auto
      with "1.IH"(1) [OF True refl key] inv ch True' True key show ?thesis
        by (subst topsort_loop.simps) simp
    next
      case False
      with ch have ch': "map_of ch ?p = Some (kids ps ?p)" by simp
      from "1.IH"(2) [OF True refl key ch' r refl] inv False ch' True key r show ?thesis
        by (subst topsort_loop.simps) simp
    qed
  qed
qed

section \<open>Correctness of topsort\<close>

definition topological :: "('a \<times> 'a) list \<Rightarrow> 'a list \<Rightarrow> bool" where
  "topological ps xs \<longleftrightarrow>
     distinct xs \<and> set xs = elems ps \<and>
     (\<forall>k < length xs. \<forall>p. (p, xs ! k) \<in> set ps \<longrightarrow> p \<in> set (take k xs))"

lemma topological_acyclic:
  assumes "topological ps xs"
  shows "acyclic (set ps)"
proof -
  define idx where "idx x = (LEAST k. k < length xs \<and> xs ! k = x)" for x
  have idx: "idx x < length xs \<and> xs ! idx x = x" if "x \<in> elems ps" for x
    unfolding idx_def using that assms
    by (intro LeastI_ex [of "\<lambda>k. k < length xs \<and> xs ! k = x"]) (metis topological_def in_set_conv_nth)
  have "idx p < idx c" if e: "(p, c) \<in> set ps" for p c
  proof -
    have c: "idx c < length xs" "xs ! idx c = c" using idx elems_pairs [OF e] by auto
    then have "p \<in> set (take (idx c) xs)" using assms e by (auto simp: topological_def)
    then obtain j where j: "j < idx c" "xs ! j = p" using c(1) by (auto simp: in_set_conv_nth)
    with c(1) have "j < length xs \<and> xs ! j = p" by simp
    then have "idx p \<le> j" unfolding idx_def by (rule Least_le)
    with j show ?thesis by simp
  qed
  then have "set ps \<subseteq> measure idx" by auto
  then show ?thesis by (meson acyclic_subset wf_acyclic wf_measure)
qed

text \<open>If every element of a finite non-empty set has a parent in the set, there is a cycle.\<close>

lemma parents_cyclic:
  assumes "finite R" and "R \<noteq> {}" and "\<And>x. x \<in> R \<Longrightarrow> \<exists>p \<in> R. (p, x) \<in> E"
  shows "\<not> acyclic E"
proof
  assume "acyclic E"
  then have "wf (E \<inter> R \<times> R)"
    using assms(1) by (intro finite_acyclic_wf) (auto intro: acyclic_subset)
  from wfE_min [OF this] assms(2) obtain z where "z \<in> R" "\<And>y. (y, z) \<in> E \<inter> R \<times> R \<Longrightarrow> y \<notin> R"
    by blast
  with assms(3) [of z] show False by blast
qed

lemma finite_elems [simp]: "finite (elems ps)"
  by (simp add: elems_def)

lemma remaining_cyclic:
  assumes "\<not> elems ps \<subseteq> D" and "\<And>x. x \<in> elems ps - D \<Longrightarrow> 0 < pending ps D x"
  shows "\<not> acyclic (set ps)"
proof (rule parents_cyclic)
  show "elems ps - D \<noteq> {}" using assms(1) by blast
  fix x
  assume "x \<in> elems ps - D"
  with assms(2) have "pending ps D x \<noteq> 0" by fastforce
  then show "\<exists>p \<in> elems ps - D. (p, x) \<in> set ps"
    unfolding pending_zero_iff by (auto dest: elems_pairs)
qed simp

lemma ordered_start: "(\<forall>x \<in> set xs. pending ps {} x = 0) \<Longrightarrow> ordered_upto ps 0 xs"
  unfolding ordered_upto_def by (fastforce simp: pending_zero_iff dest: nth_mem)

lemma loop_inv_start:
  assumes "key_order ko" and "build_counts ps = (np, ch)"
  shows "loop_inv ps 0 (filter (\<lambda>x. map_of np x = Some 0) (ko (dict_keys np))) np ch"
proof -
  have c: "counts_for ps {} np" and s: "succs_for ps {} ch"
    using build_counts_correct [OF assms(2)] by auto
  have "map_of np x = Some 0 \<longleftrightarrow> x \<in> elems ps \<and> pending ps {} x = 0" for x
    using c by (simp add: counts_for_def)
  moreover have "distinct (ko (dict_keys np))"
    using assms build_counts_ok by (simp add: dict_ok_def)
  moreover have "set (ko (dict_keys np)) = elems ps"
    using assms(1) counts_for_keys [OF c] by simp
  ultimately show ?thesis
    using c s unfolding loop_inv_def by (simp add: ordered_start)
qed

lemma topsort_outcome:
  assumes ko: "key_order ko"
  obtains xs np ch where "loop_inv ps (length xs) xs np ch"
    and "topsort ko ps = (if np = [] then Inr xs else Inl (CycleError (Some xs) np ch))"
proof -
  obtain np ch where b: "build_counts ps = (np, ch)" by fastforce
  from topsort_loop_correct [OF loop_inv_start [OF ko b]] obtain xs np' ch' where
    "topsort_loop 0 (filter (\<lambda>x. map_of np x = Some 0) (ko (dict_keys np))) np ch = Inr (xs, np', ch')"
    and "loop_inv ps (length xs) xs np' ch'"
    by blast
  with b that show ?thesis by (auto simp: topsort_def)
qed

lemma loop_inv_final:
  assumes "loop_inv ps (length xs) xs np ch"
  shows "np = [] \<Longrightarrow> topological ps xs"
    and "np \<noteq> [] \<Longrightarrow> \<not> acyclic (set ps)"
    and "map_of np x = Some n \<Longrightarrow> 0 < n \<and> (\<exists>p. (p, x) \<in> set ps \<and> has_key np p)"
proof -
  have c: "counts_for ps (set xs) np" and d: "distinct xs" and o: "ordered_upto ps (length xs) xs"
    and sub: "set xs \<subseteq> elems ps" and rest: "x \<in> elems ps - set xs \<Longrightarrow> 0 < pending ps (set xs) x" for x
    using assms by (auto simp: loop_inv_def)
  show "topological ps xs" if "np = []"
    using that c d o sub by (auto simp: topological_def ordered_upto_def counts_for_Nil min_def)
  show "\<not> acyclic (set ps)" if "np \<noteq> []"
    using that c rest by (intro remaining_cyclic [of ps "set xs"]) (auto simp: counts_for_Nil)
  show "0 < n \<and> (\<exists>p. (p, x) \<in> set ps \<and> has_key np p)" if "map_of np x = Some n"
  proof -
    have x: "x \<in> elems ps - set xs" and n: "n = int (pending ps (set xs) x)"
      using that c by (auto simp: counts_for_def split: if_splits)
    then obtain p where "(p, x) \<in> set ps" "p \<notin> set xs"
      using rest [OF x] pending_zero_iff [of ps "set xs" x] by auto
    with x n rest [OF x] show ?thesis
      using counts_for_keys [OF c] by (auto simp: has_key_iff dest: elems_pairs)
  qed
qed

section \<open>The levels\<close>

fun tight_levels :: "('a \<times> 'a) list \<Rightarrow> 'a set \<Rightarrow> 'a list list \<Rightarrow> bool" where
  "tight_levels ps D [] = True"
| "tight_levels ps D (L # Ls) \<longleftrightarrow>
     distinct L \<and> L \<noteq> [] \<and> set L = {x \<in> elems ps - D. pending ps D x = 0} \<and>
     tight_levels ps (D \<union> set L) Ls"

lemma levels_drop_correct:
  assumes "counts_for ps D np" "succs_for ps D ch" "down_closed ps D" "dict_ok np" "distinct L"
    and "\<And>x. x \<in> set L \<Longrightarrow> x \<in> elems ps - D \<and> pending ps D x = 0"
  shows "\<exists>np' ch'. levels_drop np ch L = Inr (np', ch') \<and> counts_for ps (D \<union> set L) np' \<and>
     succs_for ps (D \<union> set L) ch' \<and> down_closed ps (D \<union> set L) \<and> dict_ok np'"
  using assms
proof (induction L arbitrary: D np ch)
  case (Cons p L)
  have p: "p \<in> elems ps - D" "pending ps D p = 0" using Cons.prems(6) by auto
  from account_parent [OF Cons.prems(1,3) p, of "[]"] obtain np' new where
    r: "decr_children (AList.delete p np) [] (kids ps p) = Inr (np', [] @ new)"
    and c: "counts_for ps (insert p D) np'" and ok: "dict_ok np'"
    using Cons.prems(4) by blast
  let ?ch = "if kids ps p = [] then ch else AList.delete p ch"
  have r': "levels_decr (AList.delete p np) (kids ps p) = Inr np'"
    using r by (simp add: levels_decr_eq [of _ _ "[]"])
  have sc: "succs_for ps (insert p D) ?ch"
    using Cons.prems(2) by (simp add: succs_for_skip succs_for_delete)
  have dist: "distinct L" using Cons.prems(5) by simp
  have rdy: "x \<in> elems ps - insert p D \<and> pending ps (insert p D) x = 0" if "x \<in> set L" for x
    using that Cons.prems(5,6) pending_antimono [of D "insert p D" ps x] by auto
  from Cons.IH [OF c sc down_closed_insert [OF Cons.prems(3) p(2)] ok dist rdy]
  obtain np2 ch2 where
    "levels_drop np' ?ch L = Inr (np2, ch2)" "counts_for ps (insert p D \<union> set L) np2"
    "succs_for ps (insert p D \<union> set L) ch2" "down_closed ps (insert p D \<union> set L)" "dict_ok np2"
    by blast
  moreover have "has_key np p" using p counts_for_keys [OF Cons.prems(1)] by (simp add: has_key_iff)
  moreover have "levels_drop np ch (p # L) = levels_drop np' ?ch L" if "has_key np p"
    using that r' succs_for_lookup [OF Cons.prems(2), of p] p(1) by auto
  ultimately show ?case by auto
qed auto

lemma levels_loop_correct:
  assumes "counts_for ps D np" "succs_for ps D ch" "down_closed ps D" "dict_ok np"
    and "\<forall>k. key_order (ko k)"
  shows "\<exists>levels end. levels_loop ko k np ch = (levels, end) \<and> tight_levels ps D levels \<and>
     (\<forall>x \<in> elems ps - (D \<union> set (concat levels)). 0 < pending ps (D \<union> set (concat levels)) x) \<and>
     (if elems ps \<subseteq> D \<union> set (concat levels) then end = None
      else \<exists>np' ch'. end = Some (CycleError None np' ch') \<and>
             counts_for ps (D \<union> set (concat levels)) np')"
  using assms
proof (induction ko k np ch arbitrary: D rule: levels_loop.induct)
  case (1 ko k np ch)
  have ko: "key_order (ko k)" using "1.prems"(5) by simp
  let ?L = "filter (\<lambda>x. map_of np x = Some 0) (ko k (dict_keys np))"
  have L: "set ?L = {x \<in> elems ps - D. pending ps D x = 0}"
    using ko counts_for_keys [OF "1.prems"(1)] "1.prems"(1) by (auto simp: counts_for_def)
  have dist: "distinct ?L" using ko "1.prems"(4) by (simp add: dict_ok_def)
  show ?case
  proof (cases "?L = []")
    case True
    with L have "\<forall>x \<in> elems ps - D. 0 < pending ps D x" by auto
    moreover have "levels_loop ko k np ch =
        ([], if np \<noteq> [] then Some (CycleError None np ch) else None)"
      using True by (subst levels_loop.simps) simp
    ultimately show ?thesis using "1.prems"(1) by (auto simp: counts_for_Nil)
  next
    case False
    have rdy: "x \<in> elems ps - D \<and> pending ps D x = 0" if "x \<in> set ?L" for x
      using that unfolding L by blast
    from levels_drop_correct [OF "1.prems"(1-4) dist rdy] obtain np' ch' where
      r: "levels_drop np ch ?L = Inr (np', ch')" and s: "counts_for ps (D \<union> set ?L) np'"
      "succs_for ps (D \<union> set ?L) ch'" "down_closed ps (D \<union> set ?L)" "dict_ok np'"
      by blast
    from "1.IH" [OF refl False r refl s "1.prems"(5)] obtain levels "end" where
      ih: "levels_loop ko (Suc k) np' ch' = (levels, end)" "tight_levels ps (D \<union> set ?L) levels"
      "\<forall>x \<in> elems ps - (D \<union> set ?L \<union> set (concat levels)).
         0 < pending ps (D \<union> set ?L \<union> set (concat levels)) x"
      "if elems ps \<subseteq> D \<union> set ?L \<union> set (concat levels) then end = None
       else \<exists>np' ch'. end = Some (CycleError None np' ch') \<and>
              counts_for ps (D \<union> set ?L \<union> set (concat levels)) np'"
      by blast
    have eq: "levels_loop ko k np ch = (?L # levels, end)"
      using False r ih(1) by (subst levels_loop.simps) (simp add: Let_def)
    have un: "D \<union> set (concat (?L # levels)) = D \<union> set ?L \<union> set (concat levels)" by auto
    show ?thesis
      by (rule exI [of _ "?L # levels"], rule exI [of _ "end"], unfold un)
        (use eq ih dist False L in auto)
  qed
qed

lemma tight_levels_distinct: "tight_levels ps D Ls \<Longrightarrow> distinct (concat Ls) \<and> set (concat Ls) \<inter> D = {} \<and> set (concat Ls) \<subseteq> elems ps"
proof (induction Ls arbitrary: D)
  case (Cons L Ls)
  from Cons.prems have "set L \<inter> D = {}" "set L \<subseteq> elems ps" "distinct L" by auto
  moreover have "tight_levels ps (D \<union> set L) Ls" using Cons.prems(1) unfolding tight_levels.simps by blast
  note Cons.IH [OF this]
  ultimately show ?case by (simp add: Int_Un_distrib Int_commute) blast
qed simp

lemma tight_levels_parents:
  assumes "tight_levels ps D Ls" "i < length Ls" "c \<in> set (Ls ! i)" "(p, c) \<in> set ps"
  shows "p \<in> D \<or> (\<exists>j < i. p \<in> set (Ls ! j))"
  using assms
proof (induction Ls arbitrary: D i)
  case (Cons L Ls)
  show ?case
  proof (cases i)
    case 0
    with Cons.prems have "pending ps D c = 0" by simp
    with Cons.prems(4) show ?thesis by (simp add: pending_zero_iff)
  next
    case (Suc k)
    with Cons.prems have "p \<in> D \<union> set L \<or> (\<exists>j < k. p \<in> set (Ls ! j))"
      by (intro Cons.IH) auto
    with Suc show ?thesis by force
  qed
qed simp

lemma tight_levels_prev:
  assumes "tight_levels ps D Ls" "Suc i < length Ls" "c \<in> set (Ls ! Suc i)"
  shows "\<exists>p \<in> set (Ls ! i). (p, c) \<in> set ps"
  using assms
proof (induction Ls arbitrary: D i)
  case (Cons L Ls)
  show ?case
  proof (cases i)
    case (Suc k)
    have "tight_levels ps (D \<union> set L) Ls" using Cons.prems(1) unfolding tight_levels.simps by blast
    from Cons.IH [OF this, of k] Suc Cons.prems(2,3) show ?thesis by simp
  next
    case 0
    with Cons.prems obtain M Ms where "Ls = M # Ms" and c: "c \<in> set M" by (cases Ls) auto
    with Cons.prems(1) have "set M = {x \<in> elems ps - (D \<union> set L). pending ps (D \<union> set L) x = 0}"
      and L: "set L = {x \<in> elems ps - D. pending ps D x = 0}"
      by auto
    with c have "c \<in> elems ps - (D \<union> set L)" and z: "pending ps (D \<union> set L) c = 0" by auto
    with L have "pending ps D c \<noteq> 0" by auto
    then obtain p where "(p, c) \<in> set ps" "p \<notin> D" by (auto simp: pending_zero_iff)
    with z 0 show ?thesis by (auto simp: pending_zero_iff)
  qed
qed simp

lemma tight_levels_acyclic:
  assumes "tight_levels ps {} Ls" and all: "elems ps \<subseteq> set (concat Ls)"
  shows "acyclic (set ps)"
proof -
  define lev where "lev x = (LEAST i. i < length Ls \<and> x \<in> set (Ls ! i))" for x
  have lev: "lev x < length Ls \<and> x \<in> set (Ls ! lev x)" if "x \<in> elems ps" for x
  proof -
    from that all have "\<exists>i. i < length Ls \<and> x \<in> set (Ls ! i)"
      by (auto simp: in_set_conv_nth)
        (metis UN_E in_set_conv_nth subsetD)
    then show ?thesis unfolding lev_def by (rule LeastI_ex)
  qed
  have "lev p < lev c" if e: "(p, c) \<in> set ps" for p c
  proof -
    from tight_levels_parents [OF assms(1) _ _ e] lev [of c] elems_pairs [OF e]
    obtain j where j: "j < lev c" "p \<in> set (Ls ! j)" by blast
    with lev [of c] elems_pairs [OF e] have "j < length Ls \<and> p \<in> set (Ls ! j)" by auto
    then have "lev p \<le> j" unfolding lev_def by (rule Least_le)
    with j show ?thesis by simp
  qed
  then have "set ps \<subseteq> measure lev" by auto
  then show ?thesis by (meson acyclic_subset wf_acyclic wf_measure)
qed

lemma topsort_levels_outcome:
  assumes "\<forall>k. key_order (ko k)"
  obtains levels "end" where "topsort_levels ko ps = (levels, end)" "tight_levels ps {} levels"
    and "acyclic (set ps) \<Longrightarrow> end = None \<and> set (concat levels) = elems ps"
    and "\<not> acyclic (set ps) \<Longrightarrow> \<exists>np ch. end = Some (CycleError None np ch) \<and>
           fst ` set np = elems ps - set (concat levels) \<and> np \<noteq> []"
proof -
  obtain np ch where b: "build_counts ps = (np, ch)" by fastforce
  have dc: "down_closed ps {}" by (simp add: down_closed_def)
  from levels_loop_correct [OF build_counts_correct [OF b, THEN conjunct1]
      build_counts_correct [OF b, THEN conjunct2] dc build_counts_ok [OF b] assms, of 0]
  obtain levels "end" where l: "levels_loop ko 0 np ch = (levels, end)" "tight_levels ps {} levels"
    and r: "\<forall>x \<in> elems ps - set (concat levels). 0 < pending ps (set (concat levels)) x"
    and e: "if elems ps \<subseteq> set (concat levels) then end = None
       else \<exists>np' ch'. end = Some (CycleError None np' ch') \<and> counts_for ps (set (concat levels)) np'"
    unfolding Un_empty_left by blast
  have sub: "set (concat levels) \<subseteq> elems ps" using tight_levels_distinct [OF l(2)] by blast
  have eq: "topsort_levels ko ps = (levels, end)"
    by (simp add: topsort_levels_def topsort_levels_core_def b l(1))
  have cyc: "\<not> acyclic (set ps)" if "\<not> elems ps \<subseteq> set (concat levels)"
    using that r by (intro remaining_cyclic [of ps "set (concat levels)"]) auto
  have acyc: "acyclic (set ps)" if "elems ps \<subseteq> set (concat levels)"
    using tight_levels_acyclic [OF l(2) that] .
  have full: "end = None \<and> set (concat levels) = elems ps" if "acyclic (set ps)"
    using that e cyc sub by (metis subset_antisym)
  have part: "\<exists>np ch. end = Some (CycleError None np ch) \<and>
      fst ` set np = elems ps - set (concat levels) \<and> np \<noteq> []" if "\<not> acyclic (set ps)"
    using that e acyc counts_for_keys counts_for_Nil by metis
  show ?thesis using that [OF eq l(2)] full part by blast
qed

section \<open>Properties\<close>

text \<open>
  C1: on an acyclic pair list, whatever order Python lists the dictionary keys in,
  \<open>topsort\<close> returns; the result holds every element of the pairs exactly once, and each
  parent stands before its child.
\<close>

theorem topsort_topological:
  assumes "key_order ko" and "acyclic (set ps)"
  shows "\<exists>xs. topsort ko ps = Inr xs \<and> topological ps xs"
proof -
  from topsort_outcome [OF assms(1)] obtain xs np ch where
    inv: "loop_inv ps (length xs) xs np ch"
    and r: "topsort ko ps = (if np = [] then Inr xs else Inl (CycleError (Some xs) np ch))" by blast
  from loop_inv_final(2) [OF inv] assms(2) have "np = []" by blast
  with r loop_inv_final(1) [OF inv] show ?thesis by simp
qed

theorem topsort_topological_witness:
  "topsort rev [(1, 2), (3, 4), (5, 6), (1, 3), (1, 5), (1, 6), (2, 5::nat)] = Inr [1, 2, 3, 5, 4, 6] \<and>
   topological [(1, 2), (3, 4), (5, 6), (1, 3), (1, 5), (1, 6), (2, 5::nat)] [1, 2, 3, 5, 4, 6]"
proof -
  let ?ps = "[(1, 2), (3, 4), (5, 6), (1, 3), (1, 5), (1, 6), (2, 5::nat)]"
  have "set ?ps \<subseteq> {(a, b). a < b}" by simp
  then have "acyclic (set ?ps)" using acyclic_subset wf_acyclic [OF wf_less] by blast
  moreover have "topsort rev ?ps = Inr [1, 2, 3, 5, 4, 6]" by code_simp
  ultimately show ?thesis using topsort_topological [OF key_order_rev, of ?ps] by simp
qed



text \<open>
  On an acyclic pair list the generator \<open>topsort_levels\<close> ends without an exception; its
  levels hold every element once, the parents of an element are in earlier levels, and every
  element beyond the first level has a parent in the level just before it, so each element
  stands in the lowest level possible.
\<close>

lemma topsort_levels_tight:
  assumes "\<forall>k. key_order (ko k)" and "acyclic (set ps)"
  shows "\<exists>levels. topsort_levels ko ps = (levels, None) \<and>
     distinct (concat levels) \<and> set (concat levels) = elems ps \<and>
     (\<forall>i < length levels. \<forall>c \<in> set (levels ! i).
        (\<forall>p. (p, c) \<in> set ps \<longrightarrow> (\<exists>j < i. p \<in> set (levels ! j))) \<and>
        (0 < i \<longrightarrow> (\<exists>p \<in> set (levels ! (i - 1)). (p, c) \<in> set ps)))"
proof -
  from topsort_levels_outcome [OF assms(1)] obtain levels "end" where
    l: "topsort_levels ko ps = (levels, end)" "tight_levels ps {} levels"
    and e: "end = None \<and> set (concat levels) = elems ps" using assms(2) by metis
  have "\<exists>p \<in> set (levels ! (i - 1)). (p, c) \<in> set ps"
    if "i < length levels" "c \<in> set (levels ! i)" "0 < i" for i c
    using tight_levels_prev [OF l(2), of "i - 1" c] that by simp
  with l e tight_levels_distinct [OF l(2)] tight_levels_parents [OF l(2)] show ?thesis by blast
qed

end
