(* ===== verification/Rad_Sequences.thy ===== *)
theory Rad_Sequences
  imports Py_Prelude
begin

text \<open>
  The sequence and dictionary functions of \<^verbatim>\<open>bindings/python/rad_util.py\<close>:
  \<^verbatim>\<open>reverse\<close>, \<^verbatim>\<open>transpose\<close>, \<^verbatim>\<open>permutations\<close>, \<^verbatim>\<open>uniquify\<close>, \<^verbatim>\<open>reverse_dict\<close>,
  \<^verbatim>\<open>find_common_fixes\<close>, \<^verbatim>\<open>is_rotated\<close> and \<^verbatim>\<open>get_args\<close>. The locale
  \<open>rotation_test\<close> is the contract of \<^verbatim>\<open>is_rotated\<close> on which the cycle finder of
  \<^verbatim>\<open>topsort.py\<close> relies.
\<close>

section \<open>Definitions\<close>

definition reverse :: "string \<Rightarrow> string" where
  "reverse input_string = rev input_string"

text \<open>\<open>zip(*matrix)\<close> stops at the shortest row; \<open>zip()\<close> of no rows is the empty list.\<close>

definition transpose_py :: "'a list list \<Rightarrow> 'a list list" where
  "transpose_py matrix =
     (if matrix = [] then []
      else map (\<lambda>j. map (\<lambda>row. row ! j) matrix) [0..<Min (set (map length matrix))])"

text \<open>\<open>l.insert(i, x)\<close>.\<close>

definition insert_at :: "nat \<Rightarrow> 'a \<Rightarrow> 'a list \<Rightarrow> 'a list" where
  "insert_at i x xs = take i xs @ x # drop i xs"

fun permutations :: "'a list \<Rightarrow> 'a list list" where
  "permutations [] = [[]]"
| "permutations [x] = [[x]]"
| "permutations (item # y # ys) =
     concat (map (\<lambda>sub_list. map (\<lambda>i. insert_at i item sub_list) [0..<length (item # y # ys)])
               (permutations (y # ys)))"

text \<open>The order-preserving comprehension of \<open>uniquify\<close>; \<open>d\<close> holds the keys stored so far.\<close>

fun uniq_ordered :: "('a, int) dict \<Rightarrow> 'a list \<Rightarrow> 'a list" where
  "uniq_ordered d [] = []"
| "uniq_ordered d (x # xs) =
     (if has_key d x then uniq_ordered d xs else x # uniq_ordered (AList.update x 0 d) xs)"

fun uniq_slow :: "'a list \<Rightarrow> 'a list \<Rightarrow> 'a list" where
  "uniq_slow result [] = result"
| "uniq_slow result (x # xs) =
     uniq_slow (if x \<in> set result then result else result @ [x]) xs"

text \<open>
  \<open>ko\<close> is the order in which \<open>d.keys()\<close> lists the keys and \<open>hashable\<close> says which items can
  be dictionary keys: the first unhashable item raises \<open>TypeError\<close> and sends the whole
  sequence to the slow algorithm.
\<close>

definition uniquify :: "('a list \<Rightarrow> 'a list) \<Rightarrow> ('a \<Rightarrow> bool) \<Rightarrow> 'a list \<Rightarrow> bool \<Rightarrow> 'a list" where
  "uniquify ko hashable seq preserve_order =
     (if list_all hashable seq
      then if preserve_order then uniq_ordered [] seq
           else ko (dict_keys (foldl (\<lambda>d x. AList.update x (0::int) d) [] seq))
      else uniq_slow [] seq)"

definition reverse_dict :: "('k, 'v) dict \<Rightarrow> ('v, 'k) dict" where
  "reverse_dict d = foldl (\<lambda>result kv. AList.update (snd kv) (fst kv) result) [] d"

function common_prefix_loop :: "'a list \<Rightarrow> 'a list \<Rightarrow> nat \<Rightarrow> nat \<Rightarrow> 'a list \<Rightarrow> 'a list" where
  "common_prefix_loop s1 s2 common_len i acc =
     (if i < common_len
      then if s1 ! i \<noteq> s2 ! i then acc
           else common_prefix_loop s1 s2 common_len (Suc i) (acc @ [s1 ! i])
      else acc)"
  by pat_completeness auto
termination
  by (relation "measure (\<lambda>(s1, s2, n, i, acc). n - i)") auto

text \<open>\<open>s[-i]\<close> for \<open>1 \<le> i \<le> len(s)\<close> is the element at \<open>len(s) - i\<close>.\<close>

function common_suffix_loop :: "'a list \<Rightarrow> 'a list \<Rightarrow> nat \<Rightarrow> nat \<Rightarrow> 'a list \<Rightarrow> 'a list" where
  "common_suffix_loop s1 s2 common_len i acc =
     (if i < common_len + 1
      then if s1 ! (length s1 - i) \<noteq> s2 ! (length s2 - i) then acc
           else common_suffix_loop s1 s2 common_len (Suc i) (acc @ [s1 ! (length s1 - i)])
      else acc)"
  by pat_completeness auto
termination
  by (relation "measure (\<lambda>(s1, s2, n, i, acc). n + 1 - i)") auto

declare common_prefix_loop.simps [simp del] common_suffix_loop.simps [simp del]

definition find_common_fixes :: "'a list \<Rightarrow> 'a list \<Rightarrow> 'a list \<times> 'a list" where
  "find_common_fixes s1 s2 =
     (let common_len = min (length s1) (length s2)
      in (common_prefix_loop s1 s2 common_len 0 [],
          rev (common_suffix_loop s1 s2 common_len 1 [])))"

definition is_rotated :: "'a list \<Rightarrow> 'a list \<Rightarrow> bool py" where
  "is_rotated seq1 seq2 =
     (if length seq1 \<noteq> length seq2 then Inr False
      else case seq2 of
        [] \<Rightarrow> Inl IndexError
      | head_item # _ \<Rightarrow>
          (let start_indexes = filter (\<lambda>index1. seq1 ! index1 = head_item) [0..<length seq1];
               double_seq1 = seq1 @ seq1
           in Inr (list_ex (\<lambda>index1. take (length seq1) (drop index1 double_seq1) = seq2)
                     start_indexes)))"

datatype arg_value = OptNone | OptVal string | ArgList "string list"

definition get_args_step ::
  "(string, arg_value) dict \<times> string list \<Rightarrow> string \<Rightarrow> (string, arg_value) dict \<times> string list" where
  "get_args_step st arg =
     (case st of (d, args) \<Rightarrow>
       if startswith arg ''-''
       then let parts = split_char (CHR ''='') (dropWhile (\<lambda>c. c = CHR ''-'') arg)
            in if length parts = 2
               then (AList.update (parts ! 0) (OptVal (parts ! 1)) d, args)
               else (AList.update (parts ! 0) OptNone d, args)
       else (d, args @ [arg]))"

definition get_args :: "string list \<Rightarrow> (string, arg_value) dict" where
  "get_args argv =
     (case foldl get_args_step ([], []) argv of
        (d, args) \<Rightarrow> AList.update ''args'' (ArgList args) d)"

section \<open>Transposition\<close>

lemma transpose_py_rect:
  assumes "matrix \<noteq> []" and "\<And>row. row \<in> set matrix \<Longrightarrow> length row = n"
  shows "transpose_py matrix = map (\<lambda>j. map (\<lambda>row. row ! j) matrix) [0..<n]"
proof -
  have "set (map length matrix) = {n}" using assms by (cases matrix) auto
  then have "Min (set (map length matrix)) = n" by simp
  then show ?thesis using assms(1) by (simp add: transpose_py_def del: set_map)
qed

lemma transpose_py_involutive:
  assumes ne: "matrix \<noteq> []" and n: "0 < n"
    and rect: "\<And>row. row \<in> set matrix \<Longrightarrow> length row = n"
  shows "transpose_py (transpose_py matrix) = matrix"
proof -
  let ?t = "map (\<lambda>j. map (\<lambda>row. row ! j) matrix) [0..<n]"
  have t: "transpose_py matrix = ?t" by (rule transpose_py_rect [OF ne rect])
  have "transpose_py ?t = map (\<lambda>i. map (\<lambda>row. row ! i) ?t) [0..<length matrix]"
    by (rule transpose_py_rect) (use n in auto)
  also have "\<dots> = map (\<lambda>i. map (\<lambda>j. matrix ! i ! j) [0..<n]) [0..<length matrix]"
    by simp
  also have "\<dots> = matrix"
    by (rule nth_equalityI) (auto simp: rect map_nth intro!: nth_equalityI)
  finally show ?thesis by (simp add: t)
qed

section \<open>Permutations\<close>

lemma mset_insert_at [simp]: "mset (insert_at i x xs) = add_mset x (mset xs)"
proof -
  have "mset (take i xs) + mset (drop i xs) = mset xs"
    by (metis append_take_drop_id mset_append)
  then show ?thesis by (simp add: insert_at_def)
qed

lemma length_insert_at [simp]: "length (insert_at i x xs) = Suc (length xs)"
  by (simp add: insert_at_def)

lemma in_permutations_Cons:
  "p \<in> set (permutations (x # y # ys)) \<longleftrightarrow>
     (\<exists>sub \<in> set (permutations (y # ys)). \<exists>i < Suc (length (y # ys)). p = insert_at i x sub)"
proof -
  have "set (permutations (x # y # ys)) =
      (\<Union>sub \<in> set (permutations (y # ys)). (\<lambda>i. insert_at i x sub) ` {0..<Suc (length (y # ys))})"
    by (simp del: upt_Suc)
  then show ?thesis by fastforce
qed

lemma length_permutation: "p \<in> set (permutations xs) \<Longrightarrow> length p = length xs"
  by (induction xs arbitrary: p rule: permutations.induct) auto

lemma mset_permutation: "p \<in> set (permutations xs) \<Longrightarrow> mset p = mset xs"
  by (induction xs arbitrary: p rule: permutations.induct) auto

lemma insert_at_split: "insert_at (length as) x (as @ bs) = as @ x # bs"
  by (simp add: insert_at_def)

lemma permutations_complete: "mset p = mset xs \<Longrightarrow> p \<in> set (permutations xs)"
proof (induction xs arbitrary: p rule: permutations.induct)
  case (3 item y ys)
  from "3.prems" have "item \<in> set p" by (metis list.set_intros(1) set_mset_mset)
  then obtain as bs where p: "p = as @ item # bs" by (meson split_list)
  with "3.prems" have "mset (as @ bs) = mset (y # ys)" by simp
  with "3.IH" have sub: "as @ bs \<in> set (permutations (y # ys))" by blast
  have "length as < length (item # y # ys)"
    using p mset_eq_length [OF "3.prems"] by simp
  with sub show ?case
    unfolding in_permutations_Cons p by (intro bexI exI [of _ "length as"]) (auto simp: insert_at_split)
qed simp_all

lemma permutations_length: "length (permutations xs) = fact (length xs)"
  by (induction xs rule: permutations.induct)
    (simp_all add: length_concat comp_def sum_list_triv flip: of_nat_add)

lemma insert_at_index:
  "x \<notin> set xs \<Longrightarrow> i \<le> length xs \<Longrightarrow> length (takeWhile (\<lambda>y. y \<noteq> x) (insert_at i x xs)) = i"
  by (auto simp: insert_at_def takeWhile_append dest: in_set_takeD)

lemma insert_at_remove1: "x \<notin> set xs \<Longrightarrow> remove1 x (insert_at i x xs) = xs"
  by (auto simp: insert_at_def remove1_append dest: in_set_takeD)

lemma insert_at_inj:
  assumes "x \<notin> set xs" "x \<notin> set ys" "i \<le> length xs" "j \<le> length ys"
    and "insert_at i x xs = insert_at j x ys"
  shows "i = j \<and> xs = ys"
  using assms insert_at_index insert_at_remove1 by metis

lemma permutations_distinct: "distinct xs \<Longrightarrow> distinct (permutations xs)"
proof (induction xs rule: permutations.induct)
  case (3 item y ys)
  let ?ps = "permutations (y # ys)"
  let ?ins = "\<lambda>sub. map (\<lambda>i. insert_at i item sub) [0..<length (item # y # ys)]"
  have notin: "item \<notin> set p" and len: "length p = length (y # ys)" if "p \<in> set ?ps" for p
    using that "3.prems" mset_permutation length_permutation
    by (metis distinct.simps(2) set_mset_mset) (rule length_permutation [OF that])
  have inj: "i = j \<and> p = q"
    if "p \<in> set ?ps" "q \<in> set ?ps" "i < length (item # y # ys)" "j < length (item # y # ys)"
      "insert_at i item p = insert_at j item q" for p q i j
    using that by (intro insert_at_inj [of item p q i j]) (auto simp: notin len)
  have "distinct (?ins p)" if "p \<in> set ?ps" for p
    unfolding distinct_map using inj [OF that that] by (auto simp: inj_on_def simp del: upt_Suc)
  moreover have "set (?ins p) \<inter> set (?ins q) = {}" if "p \<in> set ?ps" "q \<in> set ?ps" "p \<noteq> q" for p q
    using inj [OF that(1,2)] that(3) by (auto simp del: upt_Suc)
  moreover have "inj_on ?ins (set ?ps)"
  proof (rule inj_onI)
    fix p q
    assume pq: "p \<in> set ?ps" "q \<in> set ?ps" "?ins p = ?ins q"
    then have "?ins p ! 0 = ?ins q ! 0" by (simp only:)
    then have "insert_at 0 item p = insert_at 0 item q" by (simp del: upt_Suc)
    then show "p = q" by (simp add: insert_at_def)
  qed
  moreover have "distinct (map ?ins ?ps)"
    using "3.IH" "3.prems" calculation(3) by (subst distinct_map) simp
  ultimately have "distinct (concat (map ?ins ?ps))"
    by (intro distinct_concat) (auto simp only: set_map image_iff, blast)
  then show ?case by (simp only: permutations.simps)
qed simp_all

section \<open>Removing duplicates\<close>

text \<open>Dropping all but the first occurrence of each item, as a reference definition.\<close>

abbreviation first_occurrences :: "'a list \<Rightarrow> 'a list" where
  "first_occurrences xs \<equiv> rev (remdups (rev xs))"

lemma remdups_snoc: "remdups (xs @ [x]) = filter (\<lambda>y. y \<noteq> x) (remdups xs) @ [x]"
  by (induction xs) auto

lemma uniq_ordered_filter:
  "uniq_ordered d xs = filter (\<lambda>x. \<not> has_key d x) (first_occurrences xs)"
proof (induction d xs rule: uniq_ordered.induct)
  case (2 d x xs)
  then show ?case
    by (auto simp: remdups_snoc dict_simps rev_filter intro!: filter_cong)
qed simp

lemma uniq_slow_filter:
  "uniq_slow result xs = result @ filter (\<lambda>x. x \<notin> set result) (first_occurrences xs)"
proof (induction result xs rule: uniq_slow.induct)
  case (2 result x xs)
  then show ?case
    by (auto simp: remdups_snoc rev_filter intro!: filter_cong)
qed simp

lemma keys_store_all: "dict_keys (foldl (\<lambda>d x. AList.update x v d) d xs) = uniq_slow (dict_keys d) xs"
  by (induction xs arbitrary: d) (simp_all add: update_keys del: uniq_slow.simps(2), simp)

lemma uniquify_ordered:
  "preserve_order \<or> \<not> list_all hashable seq \<Longrightarrow>
     uniquify ko hashable seq preserve_order = first_occurrences seq"
  by (auto simp: uniquify_def uniq_ordered_filter uniq_slow_filter has_key_def)

lemma uniquify_unordered:
  "list_all hashable seq \<Longrightarrow> uniquify ko hashable seq False = ko (first_occurrences seq)"
  by (simp add: uniquify_def keys_store_all uniq_slow_filter)

section \<open>Reversing a dictionary\<close>

lemma reverse_dict_append:
  "reverse_dict (d @ [(k, v)]) = AList.update v k (reverse_dict d)"
  by (simp add: reverse_dict_def)

lemma keys_reverse_dict: "fst ` set (reverse_dict d) = snd ` set d"
  by (induction d rule: rev_induct) (auto simp: reverse_dict_append dict_simps reverse_dict_def)

lemma reverse_dict_ok: "dict_ok (reverse_dict d)"
  unfolding reverse_dict_def by (rule alist_dict.invar_store_all) simp

lemma reverse_dict_swap: "distinct (map snd d) \<Longrightarrow> reverse_dict d = map prod.swap d"
proof (induction d rule: rev_induct)
  case Nil
  then show ?case by (simp add: reverse_dict_def)
next
  case (snoc x d)
  obtain k v where x: "x = (k, v)" by (cases x)
  with snoc show ?case by (auto simp: reverse_dict_append update_new image_iff)
qed

lemma map_of_reverse_dict:
  "map_of (reverse_dict d) v = Some k \<Longrightarrow> (k, v) \<in> set d"
  by (induction d rule: rev_induct)
    (auto simp: reverse_dict_append dict_simps split: if_splits, auto simp: reverse_dict_def)

section \<open>Common prefix and suffix\<close>

lemma common_prefix_loop_eq:
  "i \<le> n \<Longrightarrow> n \<le> length s1 \<Longrightarrow> n \<le> length s2 \<Longrightarrow> n = length s1 \<or> n = length s2 \<Longrightarrow>
     common_prefix_loop s1 s2 n i acc = acc @ longest_common_prefix (drop i s1) (drop i s2)"
proof (induction s1 s2 n i acc rule: common_prefix_loop.induct)
  case (1 s1 s2 n i acc)
  show ?case
  proof (cases "i < n")
    case True
    with "1.prems" have "drop i s1 = s1 ! i # drop (Suc i) s1" "drop i s2 = s2 ! i # drop (Suc i) s2"
      by (simp_all add: Cons_nth_drop_Suc)
    with True "1" show ?thesis by (simp add: common_prefix_loop.simps [of s1 s2 n i acc])
  next
    case False
    with "1.prems" have "drop i s1 = [] \<or> drop i s2 = []" by auto
    with False show ?thesis by (auto simp: common_prefix_loop.simps [of s1 s2 n i acc])
  qed
qed

text \<open>The suffix loop is the prefix loop on the reversed sequences, one index later.\<close>

lemma common_suffix_loop_eq:
  "n \<le> length s1 \<Longrightarrow> n \<le> length s2 \<Longrightarrow>
     common_suffix_loop s1 s2 n (Suc i) acc = common_prefix_loop (rev s1) (rev s2) n i acc"
proof (induction "rev s1" "rev s2" n i acc rule: common_prefix_loop.induct)
  case (1 n i acc)
  then show ?case
    by (auto simp: common_prefix_loop.simps [of "rev s1" "rev s2" n i acc] rev_nth
        common_suffix_loop.simps [of s1 s2 n "Suc i" acc])
qed

lemma find_common_fixes_eq:
  "find_common_fixes s1 s2 =
     (longest_common_prefix s1 s2, rev (longest_common_prefix (rev s1) (rev s2)))"
  unfolding find_common_fixes_def Let_def One_nat_def
  by (simp add: common_prefix_loop_eq common_suffix_loop_eq min_def)

section \<open>Rotations\<close>

lemma take_drop_double: "i \<le> length xs \<Longrightarrow> take (length xs) (drop i (xs @ xs)) = drop i xs @ take i xs"
  by simp

lemma rotate_nonempty: "xs \<noteq> [] \<Longrightarrow> \<exists>i < length xs. rotate n xs = drop i xs @ take i xs"
  by (intro exI [of _ "n mod length xs"]) (simp add: rotate_drop_take)

lemma is_rotated_correct:
  assumes "seq2 \<noteq> []"
  shows "is_rotated seq1 seq2 = Inr (\<exists>n. rotate n seq1 = seq2)"
proof (cases "length seq1 = length seq2")
  case False
  then show ?thesis by (auto simp: is_rotated_def)
next
  case True
  with assms have ne: "seq1 \<noteq> []" by auto
  obtain h t where seq2: "seq2 = h # t" using assms by (cases seq2) auto
  have "(\<exists>n. rotate n seq1 = seq2) \<longleftrightarrow> (\<exists>i < length seq1. drop i seq1 @ take i seq1 = seq2)"
  proof
    assume "\<exists>n. rotate n seq1 = seq2"
    with rotate_nonempty [OF ne] show "\<exists>i < length seq1. drop i seq1 @ take i seq1 = seq2" by metis
  next
    assume "\<exists>i < length seq1. drop i seq1 @ take i seq1 = seq2"
    then obtain i where "i < length seq1" "drop i seq1 @ take i seq1 = seq2" by blast
    then have "rotate i seq1 = seq2" by (simp add: rotate_drop_take)
    then show "\<exists>n. rotate n seq1 = seq2" ..
  qed
  also have "\<dots> \<longleftrightarrow> (\<exists>i < length seq1. seq1 ! i = h \<and> drop i seq1 @ take i seq1 = seq2)"
    unfolding seq2 by (metis drop_eq_Nil hd_append2 hd_drop_conv_nth list.sel(1) not_le)
  also have "\<dots> \<longleftrightarrow> list_ex (\<lambda>i. take (length seq1) (drop i (seq1 @ seq1)) = seq2)
      (filter (\<lambda>i. seq1 ! i = h) [0..<length seq1])"
    by (auto simp: list_ex_iff)
  finally show ?thesis using True by (simp add: is_rotated_def seq2)
qed

text \<open>
  What the cycle finder needs of the rotation test: on a non-empty second argument it
  raises nothing, and it decides an equivalence relation on sequences of the same length.
\<close>

locale rotation_test =
  fixes test :: "'a list \<Rightarrow> 'a list \<Rightarrow> bool py"
    and rotated :: "'a list \<Rightarrow> 'a list \<Rightarrow> bool"
  assumes test_total: "ys \<noteq> [] \<Longrightarrow> test xs ys = Inr (rotated xs ys)"
    and rotated_refl: "rotated xs xs"
    and rotated_sym: "rotated xs ys \<Longrightarrow> rotated ys xs"
    and rotated_trans: "rotated xs ys \<Longrightarrow> rotated ys zs \<Longrightarrow> rotated xs zs"
begin

text \<open>The duplicate check: does any recorded cycle rotate into the new one?\<close>

lemma py_map_test:
  "ys \<noteq> [] \<Longrightarrow> py_map (\<lambda>xs. test xs ys) xss = Inr (map (\<lambda>xs. rotated xs ys) xss)"
  by (rule py_map_Inr) (rule test_total)

lemma dup_class: "rotated xs ys \<Longrightarrow> rotated zs ys \<longleftrightarrow> rotated zs xs"
  using rotated_sym rotated_trans by blast

end

definition rotation_of :: "'a list \<Rightarrow> 'a list \<Rightarrow> bool" where
  "rotation_of xs ys \<longleftrightarrow> (\<exists>n. rotate n xs = ys)"

lemma rotation_of_sym: "rotation_of xs ys \<Longrightarrow> rotation_of ys xs"
proof -
  assume "rotation_of xs ys"
  then obtain n where ys: "ys = rotate n xs" by (auto simp: rotation_of_def)
  have "rotate (length xs - n mod length xs) ys = rotate (length xs - n mod length xs + n) xs"
    by (simp add: ys rotate_rotate)
  also have "\<dots> = xs"
  proof (cases "xs = []")
    case False
    then have "(length xs - n mod length xs + n) mod length xs = 0"
      by (metis add.commute le_add_diff_inverse mod_add_self2 mod_less_divisor mod_mod_trivial
          length_greater_0_conv less_imp_le mod_add_right_eq mod_self)
    then show ?thesis by (metis rotate_conv_mod rotate0 id_apply)
  qed simp
  finally show ?thesis by (auto simp: rotation_of_def)
qed

interpretation rot: rotation_test is_rotated rotation_of
proof unfold_locales
  fix xs ys zs :: "'a list"
  show "ys \<noteq> [] \<Longrightarrow> is_rotated xs ys = Inr (rotation_of xs ys)"
    by (simp add: is_rotated_correct rotation_of_def)
  show "rotation_of xs xs" by (auto simp: rotation_of_def intro: exI [of _ 0])
  show "rotation_of xs ys \<Longrightarrow> rotation_of ys xs" by (rule rotation_of_sym)
  show "rotation_of xs ys \<Longrightarrow> rotation_of ys zs \<Longrightarrow> rotation_of xs zs"
    by (auto simp: rotation_of_def rotate_rotate)
qed

section \<open>Command-line arguments\<close>

lemma get_args_positional:
  "snd (foldl get_args_step (d, args) argv) = args @ filter (\<lambda>a. \<not> startswith a ''-'') argv"
  by (induction argv arbitrary: d args) (auto simp: get_args_step_def Let_def)

lemma get_args_args:
  "map_of (get_args argv) ''args'' = Some (ArgList (filter (\<lambda>a. \<not> startswith a ''-'') argv))"
  using get_args_positional [of "[]" "[]" argv]
  by (auto simp: get_args_def dict_simps split: prod.splits)

section \<open>Properties\<close>

text \<open>
  For a non-empty second sequence \<open>is_rotated\<close> raises nothing and returns \<open>True\<close> exactly
  when the second sequence is the first one rotated by some number of places.
\<close>

lemma is_rotated_iff_rotation:
  assumes "seq2 \<noteq> []"
  shows "is_rotated seq1 seq2 = Inr (\<exists>n. rotate n seq1 = seq2)"
  using rot.test_total [OF assms] by (simp add: rotation_of_def)

text \<open>
  C20: \<open>permutations\<close> lists exactly the rearrangements of its argument, \<open>n!\<close> of them, and
  lists none twice when the items are distinct.
\<close>

lemma permutations_correct:
  "set (permutations xs) = {ys. mset ys = mset xs} \<and>
   length (permutations xs) = fact (length xs) \<and>
   (distinct xs \<longrightarrow> distinct (permutations xs))"
  using mset_permutation permutations_complete permutations_length permutations_distinct by blast

text \<open>
  C21: \<open>uniquify\<close> returns every item of the sequence exactly once, for hashable and
  unhashable items and whatever the key order; when order is to be preserved, or when an
  item is unhashable, the result is the sequence of first occurrences.
\<close>

lemma uniquify_correct:
  assumes "key_order ko"
  shows "distinct (uniquify ko hashable seq preserve_order) \<and>
     set (uniquify ko hashable seq preserve_order) = set seq \<and>
     (preserve_order \<or> \<not> list_all hashable seq \<longrightarrow>
        uniquify ko hashable seq preserve_order = rev (remdups (rev seq)))"
proof (cases "preserve_order \<or> \<not> list_all hashable seq")
  case True
  then show ?thesis by (simp add: uniquify_ordered)
next
  case False
  with assms show ?thesis by (simp add: uniquify_unordered)
qed

text \<open>
  \<open>find_common_fixes\<close> returns the longest common prefix and the longest common suffix of
  its arguments. The two are computed independently, so they may overlap.
\<close>

lemma find_common_fixes_longest:
  "find_common_fixes s1 s2 = (p, q) \<longleftrightarrow>
     p = longest_common_prefix s1 s2 \<and> rev q = longest_common_prefix (rev s1) (rev s2)"
  unfolding find_common_fixes_eq by (auto simp: rev_swap)

end
