(* ===== verification/Find_Cycles.thy ===== *)
theory Find_Cycles
  imports Rad_Sequences
begin

text \<open>
  The cycle finder \<^verbatim>\<open>find_cycles\<close> of \<^verbatim>\<open>bindings/python/topsort.py\<close>: a search over all
  simple paths with an explicit stack, a set of visited nodes that saves starting points, and
  a duplicate check by \<^verbatim>\<open>rad_util.is_rotated\<close>. The dictionary is an arbitrary association
  list, so the results hold for every order in which Python iterates over it. The generator is
  modelled by the list of what it yields. The theory shows that the search ends and raises
  nothing, that everything yielded is a simple cycle, that no cycle is yielded twice up to
  rotation, and that every simple cycle of the graph is yielded.
\<close>

section \<open>Definitions\<close>

fun dup_check :: "'a list list \<Rightarrow> 'a list \<Rightarrow> bool py" where
  "dup_check [] cycle = Inr False"
| "dup_check (other_cycle # others) cycle =
     py_bind (is_rotated other_cycle cycle)
       (\<lambda>is_dup. if is_dup then Inr True else dup_check others cycle)"

text \<open>
  The body of \<open>for child in children\<close>, on the stack (top first), the cycles and the visited
  nodes. \<open>path[path.index(child):]\<close> is the part of the path from the child on.
\<close>

type_synonym 'a search = "'a list list \<times> 'a list list \<times> 'a set"

definition visit_child :: "'a list \<Rightarrow> 'a search \<Rightarrow> 'a \<Rightarrow> 'a search py" where
  "visit_child path st child =
     (case st of (paths, cycles, visited_nodes) \<Rightarrow>
        if child \<in> set path
        then let cycle = dropWhile (\<lambda>x. x \<noteq> child) path
             in py_bind (dup_check cycles cycle)
                  (\<lambda>is_dup. Inr (paths, if is_dup then cycles else cycles @ [cycle], visited_nodes))
        else Inr ((path @ [child]) # paths, cycles, insert child visited_nodes))"

lemma visit_child_simps:
  "c \<in> set path \<Longrightarrow> visit_child path (paths, cycles, visited) c =
     py_bind (dup_check cycles (dropWhile (\<lambda>x. x \<noteq> c) path))
       (\<lambda>is_dup. Inr (paths, if is_dup then cycles else cycles @ [dropWhile (\<lambda>x. x \<noteq> c) path], visited))"
  "c \<notin> set path \<Longrightarrow> visit_child path (paths, cycles, visited) c =
     Inr ((path @ [c]) # paths, cycles, insert c visited)"
  by (simp_all add: visit_child_def Let_def)

lemma visit_children_pushes:
  "run_steps (visit_child path) (paths, cycles, visited) cs = Inr (paths', cycles', visited') \<Longrightarrow>
     \<exists>new. paths' = new @ paths \<and> (\<forall>q \<in> set new. \<exists>c \<in> set cs - set path. q = path @ [c]) \<and>
       (\<forall>c \<in> set cs - set path. path @ [c] \<in> set new) \<and> visited' = visited \<union> (set cs - set path)"
proof (induction cs arbitrary: paths cycles visited)
  case (Cons c cs)
  show ?case
  proof (cases "c \<in> set path")
    case True
    with Cons.prems obtain cycles1 where "run_steps (visit_child path) (paths, cycles1, visited) cs
        = Inr (paths', cycles', visited')"
      by (auto simp: visit_child_simps)
    from Cons.IH [OF this] True show ?thesis by auto
  next
    case False
    with Cons.prems have "run_steps (visit_child path) ((path @ [c]) # paths, cycles, insert c visited) cs
        = Inr (paths', cycles', visited')"
      by (simp add: visit_child_simps)
    from Cons.IH [OF this] obtain new where "paths' = new @ (path @ [c]) # paths"
      "\<forall>q \<in> set new. \<exists>c \<in> set cs - set path. q = path @ [c]"
      "\<forall>c \<in> set cs - set path. path @ [c] \<in> set new" "visited' = insert c visited \<union> (set cs - set path)"
      by blast
    with False show ?thesis by (intro exI [of _ "new @ [path @ [c]]"]) auto
  qed
qed simp

definition children_of :: "('a, 'a list) dict \<Rightarrow> 'a set" where
  "children_of g = (\<Union>kv \<in> set g. set (snd kv))"

text \<open>
  The \<open>while paths\<close> loop. Every path on the stack is \<open>[parent]\<close> or \<open>path + [child]\<close>, so
  \<open>path[-1]\<close> is \<open>last path\<close>. A path is replaced by longer simple paths over the same finite
  set of children, so the loop ends.
\<close>

function explore ::
  "('a, 'a list) dict \<Rightarrow> 'a list list \<Rightarrow> 'a list list \<Rightarrow> 'a set \<Rightarrow> ('a list list \<times> 'a set) py" where
  "explore parent_children [] cycles visited_nodes = Inr (cycles, visited_nodes)"
| "explore parent_children (path # paths) cycles visited_nodes =
     (case map_of parent_children (last path) of
        None \<Rightarrow> explore parent_children paths cycles visited_nodes
      | Some children \<Rightarrow>
          (case run_steps (visit_child path) (paths, cycles, visited_nodes) children of
             Inl e \<Rightarrow> Inl e
           | Inr (paths', cycles', visited') \<Rightarrow> explore parent_children paths' cycles' visited'))"
  by pat_completeness auto
termination
proof (relation "inv_image (mult less_than)
    (\<lambda>(g, paths, cycles, visited). mset (map (\<lambda>p. card (children_of g - set p)) paths))", goal_cases)
  case 1
  show ?case by (simp add: wf_mult)
next
  case (2 g path paths cycles visited)
  let ?w = "\<lambda>p. card (children_of g - set p)"
  have "(mset (map ?w paths) + {#}, mset (map ?w paths) + {#?w path#}) \<in> mult less_than"
    by (rule one_step_implies_mult) auto
  then show ?case by simp
next
  case (3 g path paths cycles visited cs x paths' y cycles' visited')
  let ?w = "\<lambda>p. card (children_of g - set p)"
  from "3" have "run_steps (visit_child path) (paths, cycles, visited) cs = Inr (paths', cycles', visited')"
    by simp
  from visit_children_pushes [OF this] obtain new where new: "paths' = new @ paths"
    "\<forall>q \<in> set new. \<exists>c \<in> set cs - set path. q = path @ [c]" by blast
  have fin: "finite (children_of g)" by (simp add: children_of_def)
  have "set cs \<subseteq> children_of g" using "3"(1) by (auto simp: children_of_def dest!: map_of_SomeD)
  have "?w q < ?w path" if q: "q \<in> set new" for q
  proof -
    from new(2) q obtain c where c: "c \<in> set cs - set path" "q = path @ [c]" by blast
    with \<open>set cs \<subseteq> children_of g\<close> have "children_of g - set q \<subset> children_of g - set path" by auto
    then show ?thesis using fin by (simp add: psubset_card_mono)
  qed
  then have "(mset (map ?w paths) + mset (map ?w new), mset (map ?w paths) + {#?w path#}) \<in> mult less_than"
    by (intro one_step_implies_mult) auto
  then show ?case by (simp add: new(1) union_commute)
qed

fun find_loop ::
  "('a, 'a list) dict \<Rightarrow> 'a list \<Rightarrow> 'a list list \<Rightarrow> 'a set \<Rightarrow> 'a list list py" where
  "find_loop parent_children [] cycles visited_nodes = Inr cycles"
| "find_loop parent_children (parent # parents) cycles visited_nodes =
     (if parent \<in> visited_nodes then find_loop parent_children parents cycles visited_nodes
      else py_bind (explore parent_children [[parent]] cycles visited_nodes)
             (\<lambda>(cycles', visited'). find_loop parent_children parents cycles' visited'))"

definition find_cycles :: "('a, 'a list) dict \<Rightarrow> 'a list list py" where
  "find_cycles parent_children =
     find_loop parent_children (dict_keys parent_children) [] {}"

section \<open>Graph notions\<close>

definition edge :: "('a, 'a list) dict \<Rightarrow> 'a \<Rightarrow> 'a \<Rightarrow> bool" where
  "edge g a b \<longleftrightarrow> (\<exists>cs. map_of g a = Some cs \<and> b \<in> set cs)"

definition simple_path :: "('a, 'a list) dict \<Rightarrow> 'a list \<Rightarrow> bool" where
  "simple_path g p \<longleftrightarrow> p \<noteq> [] \<and> distinct p \<and> successively (edge g) p"

definition simple_cycle :: "('a, 'a list) dict \<Rightarrow> 'a list \<Rightarrow> bool" where
  "simple_cycle g c \<longleftrightarrow> simple_path g c \<and> edge g (last c) (hd c)"

definition recorded :: "'a list list \<Rightarrow> 'a list \<Rightarrow> bool" where
  "recorded cycles c \<longleftrightarrow> (\<exists>other \<in> set cycles. rotation_of other c)"

text \<open>No recorded cycle is a rotation of an earlier one.\<close>

definition no_dups :: "'a list list \<Rightarrow> bool" where
  "no_dups cycles \<longleftrightarrow> sorted_wrt (\<lambda>a b. \<not> rotation_of a b) cycles"

lemma simple_path_snoc:
  "simple_path g p \<Longrightarrow> edge g (last p) c \<Longrightarrow> c \<notin> set p \<Longrightarrow> simple_path g (p @ [c])"
  by (auto simp: simple_path_def successively_append_iff)

lemma simple_path_closing:
  assumes "simple_path g p" "edge g (last p) c" "c \<in> set p"
  shows "simple_cycle g (dropWhile (\<lambda>x. x \<noteq> c) p)"
proof -
  let ?d = "dropWhile (\<lambda>x. x \<noteq> c) p"
  have ne: "?d \<noteq> []" using assms(3) by (simp add: dropWhile_eq_Nil_conv)
  have "hd ?d = c" using hd_dropWhile [OF ne] by simp
  moreover have "last ?d = last p" using ne by (metis dropWhile_eq_drop last_drop dropWhile_eq_Nil_conv drop_eq_Nil not_le)
  moreover have "successively (edge g) ?d"
    using assms(1) by (metis simple_path_def successively_append_iff takeWhile_dropWhile_id)
  ultimately show ?thesis
    using ne assms by (simp add: simple_cycle_def simple_path_def distinct_dropWhile)
qed

lemma simple_cycle_rotate:
  assumes "simple_cycle g (as @ c # bs)"
  shows "simple_cycle g (c # bs @ as)" and "rotation_of (c # bs @ as) (as @ c # bs)"
proof -
  from assms show "simple_cycle g (c # bs @ as)"
    by (cases as) (auto simp: simple_cycle_def simple_path_def successively_append_iff successively_Cons
        split: if_splits)
  have "rotate (length as) (as @ c # bs) = c # bs @ as" by (simp add: rotate_append)
  then have "rotation_of (as @ c # bs) (c # bs @ as)" by (auto simp: rotation_of_def)
  then show "rotation_of (c # bs @ as) (as @ c # bs)" by (rule rotation_of_sym)
qed

lemma recorded_rotation: "recorded cycles c \<Longrightarrow> rotation_of c c' \<Longrightarrow> recorded cycles c'"
  using rot.rotated_trans by (auto simp: recorded_def)

lemma dup_check_correct: "cycle \<noteq> [] \<Longrightarrow> dup_check cycles cycle = Inr (recorded cycles cycle)"
  by (induction cycles) (auto simp: recorded_def rot.test_total)

lemma no_dups_snoc: "no_dups cycles \<Longrightarrow> \<not> recorded cycles c \<Longrightarrow> no_dups (cycles @ [c])"
  by (auto simp: no_dups_def recorded_def sorted_wrt_append)

section \<open>Soundness\<close>

definition search_ok :: "('a, 'a list) dict \<Rightarrow> 'a list list \<Rightarrow> bool" where
  "search_ok g cycles \<longleftrightarrow> (\<forall>c \<in> set cycles. simple_cycle g c) \<and> no_dups cycles"

lemma visit_children_ok:
  assumes "simple_path g path" "search_ok g cycles" "\<And>c. c \<in> set cs \<Longrightarrow> edge g (last path) c"
  shows "\<exists>paths' cycles' visited'.
     run_steps (visit_child path) (paths, cycles, visited) cs = Inr (paths', cycles', visited') \<and>
     search_ok g cycles' \<and> set cycles \<subseteq> set cycles' \<and>
     (\<forall>c \<in> set cs \<inter> set path. recorded cycles' (dropWhile (\<lambda>x. x \<noteq> c) path))"
  using assms(2,3)
proof (induction cs arbitrary: paths cycles visited)
  case (Cons c cs)
  show ?case
  proof (cases "c \<in> set path")
    case False
    with Cons.IH [of cycles "(path @ [c]) # paths" "insert c visited"] Cons.prems show ?thesis
      by (auto simp: visit_child_simps)
  next
    case True
    let ?c = "dropWhile (\<lambda>x. x \<noteq> c) path"
    let ?cycles = "if recorded cycles ?c then cycles else cycles @ [?c]"
    have sc: "simple_cycle g ?c" using simple_path_closing [OF assms(1) _ True] Cons.prems(2) by simp
    then have ne: "?c \<noteq> []" by (auto simp: simple_cycle_def simple_path_def)
    have "search_ok g ?cycles"
      using Cons.prems(1) sc no_dups_snoc by (auto simp: search_ok_def)
    from Cons.IH [OF this, of paths visited] Cons.prems(2) obtain paths' cycles' visited' where
      r: "run_steps (visit_child path) (paths, ?cycles, visited) cs = Inr (paths', cycles', visited')"
      "search_ok g cycles'" "set ?cycles \<subseteq> set cycles'"
      "\<forall>c \<in> set cs \<inter> set path. recorded cycles' (dropWhile (\<lambda>x. x \<noteq> c) path)"
      by (metis list.set_intros(2))
    have "recorded ?cycles ?c" by (auto simp: recorded_def rot.rotated_refl)
    with r(3) have "recorded cycles' ?c" by (auto simp: recorded_def)
    moreover have "visit_child path (paths, cycles, visited) c = Inr (paths, ?cycles, visited)"
      using True by (simp add: visit_child_simps dup_check_correct ne)
    moreover have "set cycles \<subseteq> set cycles'" using r(3) by (auto split: if_splits)
    ultimately show ?thesis using r by auto
  qed
qed (auto simp: recorded_def)

text \<open>
  Everything below a path on the stack has been searched: each way to close a simple
  extension of the path into a cycle is recorded.
\<close>

definition covered :: "('a, 'a list) dict \<Rightarrow> 'a list list \<Rightarrow> 'a list \<Rightarrow> bool" where
  "covered g cycles p \<longleftrightarrow>
     (\<forall>ext c. simple_path g (p @ ext) \<and> edge g (last (p @ ext)) c \<and> c \<in> set (p @ ext) \<longrightarrow>
        recorded cycles (dropWhile (\<lambda>x. x \<noteq> c) (p @ ext)))"

text \<open>The nodes that lie on a simple extension of a path.\<close>

definition below :: "('a, 'a list) dict \<Rightarrow> 'a list \<Rightarrow> 'a set" where
  "below g p = {d. \<exists>ext. simple_path g (p @ ext) \<and> d \<in> set ext}"

lemma recorded_mono: "set cycles \<subseteq> set cycles' \<Longrightarrow> recorded cycles c \<Longrightarrow> recorded cycles' c"
  by (auto simp: recorded_def)

lemma edge_path_append: "simple_path g (p @ c # ext) \<Longrightarrow> p \<noteq> [] \<Longrightarrow> edge g (last p) c"
  by (auto simp: simple_path_def successively_append_iff)

lemma covered_children:
  assumes "map_of g (last path) = Some cs" "path \<noteq> []"
    and "\<And>c. c \<in> set cs - set path \<Longrightarrow> covered g cycles (path @ [c])"
    and "\<And>c. c \<in> set cs \<inter> set path \<Longrightarrow> recorded cycles (dropWhile (\<lambda>x. x \<noteq> c) path)"
  shows "covered g cycles path"
  unfolding covered_def
proof (intro allI impI, elim conjE)
  fix ext c
  assume s: "simple_path g (path @ ext)" and e: "edge g (last (path @ ext)) c" and c: "c \<in> set (path @ ext)"
  show "recorded cycles (dropWhile (\<lambda>x. x \<noteq> c) (path @ ext))"
  proof (cases ext)
    case Nil
    with e c assms(1,4) show ?thesis by (simp add: edge_def)
  next
    case (Cons d ds)
    have "edge g (last path) d" by (rule edge_path_append [of g path d ds]) (use s Cons assms(2) in auto)
    with assms(1) have "d \<in> set cs" by (simp add: edge_def)
    moreover have "d \<notin> set path" using s Cons by (auto simp: simple_path_def)
    ultimately have "covered g cycles (path @ [d])" by (simp add: assms(3))
    from this [unfolded covered_def, rule_format, of ds c] s e c Cons show ?thesis by simp
  qed
qed

lemma below_child:
  assumes "simple_path g (path @ [c])"
  shows "insert c (below g (path @ [c])) \<subseteq> below g path"
proof -
  have "c \<in> below g path" using assms unfolding below_def by (intro CollectI exI [of _ "[c]"]) simp
  moreover have "d \<in> below g path" if d: "d \<in> below g (path @ [c])" for d
  proof -
    from d obtain ext where "simple_path g ((path @ [c]) @ ext)" "d \<in> set ext"
      by (auto simp: below_def)
    then have "simple_path g (path @ c # ext)" "d \<in> set (c # ext)" by auto
    then show ?thesis unfolding below_def by blast
  qed
  ultimately show ?thesis by blast
qed

lemma explore_correct:
  assumes "\<And>p. p \<in> set paths \<Longrightarrow> simple_path g p" "search_ok g cycles"
  shows "\<exists>cycles' visited'. explore g paths cycles visited = Inr (cycles', visited') \<and>
     search_ok g cycles' \<and> set cycles \<subseteq> set cycles' \<and> (\<forall>p \<in> set paths. covered g cycles' p) \<and>
     visited' \<subseteq> visited \<union> (\<Union>p \<in> set paths. below g p)"
  using assms
proof (induction g paths cycles visited rule: explore.induct)
  case (2 g path paths cycles visited)
  have sp: "simple_path g path" using "2.prems"(1) by simp
  show ?case
  proof (cases "map_of g (last path)")
    case None
    have "\<not> edge g (last path) c" for c using None by (simp add: edge_def)
    then have "covered g cycles' path" for cycles'
      unfolding covered_def using edge_path_append sp
      by (metis append_Nil2 neq_Nil_conv simple_path_def)
    with "2.IH"(1) [OF None] "2.prems" None show ?thesis by fastforce
  next
    case (Some cs)
    have e: "edge g (last path) c" if "c \<in> set cs" for c using that Some by (auto simp: edge_def)
    from visit_children_ok [OF sp "2.prems"(2) e, of cs paths visited] obtain paths1 cycles1 visited1
      where r: "run_steps (visit_child path) (paths, cycles, visited) cs = Inr (paths1, cycles1, visited1)"
      and ok: "search_ok g cycles1" "set cycles \<subseteq> set cycles1"
      and rec: "\<forall>c \<in> set cs \<inter> set path. recorded cycles1 (dropWhile (\<lambda>x. x \<noteq> c) path)" by auto
    from visit_children_pushes [OF r] obtain new where new: "paths1 = new @ paths"
      "\<forall>q \<in> set new. \<exists>c \<in> set cs - set path. q = path @ [c]"
      "\<forall>c \<in> set cs - set path. path @ [c] \<in> set new" "visited1 = visited \<union> (set cs - set path)" by blast
    have spc: "simple_path g (path @ [c])" if "c \<in> set cs - set path" for c
      using that simple_path_snoc [OF sp] e by blast
    have "simple_path g p" if "p \<in> set paths1" for p
      using that new(1,2) "2.prems"(1) spc by auto
    from "2.IH"(2) [OF Some r refl refl this ok(1)] obtain cycles' visited' where
      ih: "explore g paths1 cycles1 visited1 = Inr (cycles', visited')" "search_ok g cycles'"
      "set cycles1 \<subseteq> set cycles'" "\<forall>p \<in> set paths1. covered g cycles' p"
      "visited' \<subseteq> visited1 \<union> (\<Union>p \<in> set paths1. below g p)" by blast
    have "recorded cycles' (dropWhile (\<lambda>x. x \<noteq> c) path)" if "c \<in> set cs \<inter> set path" for c
      using that rec recorded_mono [OF ih(3)] by blast
    moreover have "path \<noteq> []" using sp by (simp add: simple_path_def)
    ultimately have "covered g cycles' path"
      by (rule covered_children [OF Some, rotated 2]) (use ih(4) new in auto)
    moreover have "visited' \<subseteq> visited \<union> (\<Union>p \<in> set (path # paths). below g p)"
    proof -
      have "below g p \<subseteq> below g path" if "p \<in> set new" for p
      proof -
        from that new(2) obtain c where "c \<in> set cs - set path" "p = path @ [c]" by blast
        with below_child [OF spc] show ?thesis by blast
      qed
      moreover have "set cs - set path \<subseteq> below g path" using below_child [OF spc] by blast
      ultimately have "visited1 \<union> (\<Union>p \<in> set paths1. below g p)
          \<subseteq> visited \<union> (\<Union>p \<in> set (path # paths). below g p)"
        unfolding new(1,4) by auto
      with ih(5) show ?thesis by (rule subset_trans)
    qed
    ultimately show ?thesis using r ih Some ok(2) new(1) by auto
  qed
qed simp

section \<open>Completeness\<close>

text \<open>
  A cycle that meets a simple path from \<open>s\<close> is recorded once everything below \<open>[s]\<close> is
  covered: follow the path to its first node on the cycle, then go round.
\<close>

lemma covered_cycle:
  assumes cov: "covered g cycles [s]" and p: "simple_path g p" "hd p = s" "d \<in> set p"
    and C: "simple_cycle g C" "d \<in> set C"
  shows "recorded cycles C"
proof -
  from p(3) C(2) obtain pre c post where split: "p = pre @ c # post" "c \<in> set C"
    "\<forall>x \<in> set pre. x \<notin> set C"
    using split_list_first_prop [of p "\<lambda>x. x \<in> set C"] by metis
  then obtain as bs where Cs: "C = as @ c # bs" by (meson split_list)
  let ?C = "c # bs @ as"
  have rot: "simple_cycle g ?C" "rotation_of ?C C"
    using simple_cycle_rotate [of g as c bs] C(1) by (simp_all add: Cs)
  have pC: "simple_path g (pre @ ?C)"
  proof -
    have "successively (edge g) (pre @ [c])" "distinct (pre @ [c])"
      using p(1) by (auto simp: split(1) simple_path_def successively_append_iff)
    moreover have "set pre \<inter> set ?C = {}" using split(3) Cs by auto
    ultimately show ?thesis
      using rot(1) by (auto simp: simple_cycle_def simple_path_def successively_append_iff)
  qed
  have last: "edge g (last (pre @ ?C)) c" using rot(1) by (auto simp: simple_cycle_def)
  have "hd (pre @ ?C) = s" using p(2) split(1) by (cases pre) auto
  then have eq: "pre @ ?C = [s] @ tl (pre @ ?C)" by (metis append_Cons append_Nil append_is_Nil_conv list.collapse list.distinct(1))
  have "recorded cycles (dropWhile (\<lambda>x. x \<noteq> c) (pre @ ?C))"
    using cov [unfolded covered_def, rule_format, of "tl (pre @ ?C)" c] pC last
    unfolding eq [symmetric] by simp
  moreover have "dropWhile (\<lambda>x. x \<noteq> c) (pre @ ?C) = ?C"
  proof -
    have "x \<noteq> c" if "x \<in> set pre" for x using that pC by (auto simp: simple_path_def)
    then show ?thesis by (subst dropWhile_append2) auto
  qed
  ultimately show ?thesis using recorded_rotation rot(2) by metis
qed

text \<open>All cycles through a node are recorded.\<close>

definition settled :: "('a, 'a list) dict \<Rightarrow> 'a list list \<Rightarrow> 'a \<Rightarrow> bool" where
  "settled g cycles v \<longleftrightarrow> (\<forall>C. simple_cycle g C \<and> v \<in> set C \<longrightarrow> recorded cycles C)"

lemma settled_mono: "set cycles \<subseteq> set cycles' \<Longrightarrow> settled g cycles v \<Longrightarrow> settled g cycles' v"
  unfolding settled_def using recorded_mono by blast

lemma explore_settles:
  assumes "search_ok g cycles" "\<And>v. v \<in> visited \<Longrightarrow> settled g cycles v"
  obtains cycles' visited' where "explore g [[s]] cycles visited = Inr (cycles', visited')"
    "search_ok g cycles'" "set cycles \<subseteq> set cycles'" "settled g cycles' s"
    "\<And>v. v \<in> visited' \<Longrightarrow> settled g cycles' v"
proof -
  have s: "simple_path g [s]" by (simp add: simple_path_def)
  from explore_correct [of "[[s]]" g cycles visited] s assms(1) obtain cycles' visited' where
    e: "explore g [[s]] cycles visited = Inr (cycles', visited')" "search_ok g cycles'"
    "set cycles \<subseteq> set cycles'" "covered g cycles' [s]" "visited' \<subseteq> visited \<union> below g [s]"
    by auto
  have on_path: "settled g cycles' d" if "simple_path g p" "hd p = s" "d \<in> set p" for p d
    unfolding settled_def using covered_cycle [OF e(4) that] by blast
  have "settled g cycles' v" if "v \<in> visited'" for v
  proof (cases "v \<in> visited")
    case True
    then show ?thesis using assms(2) settled_mono [OF e(3)] by blast
  next
    case False
    with that e(5) obtain ext where "simple_path g ([s] @ ext)" "v \<in> set ext" by (auto simp: below_def)
    then show ?thesis using on_path [of "[s] @ ext" v] by simp
  qed
  with e on_path [OF s] that show ?thesis by auto
qed

lemma find_loop_correct:
  assumes "search_ok g cycles" "\<And>v. v \<in> visited \<Longrightarrow> settled g cycles v"
  shows "\<exists>cycles'. find_loop g parents cycles visited = Inr cycles' \<and> search_ok g cycles' \<and>
     set cycles \<subseteq> set cycles' \<and> (\<forall>v \<in> set parents. settled g cycles' v)"
  using assms
proof (induction parents arbitrary: cycles visited)
  case (Cons p ps)
  show ?case
  proof (cases "p \<in> visited")
    case True
    from Cons.IH [OF Cons.prems] obtain cycles' where
      f: "find_loop g ps cycles visited = Inr cycles'" "search_ok g cycles'"
      "set cycles \<subseteq> set cycles'" "\<forall>v \<in> set ps. settled g cycles' v" by blast
    have "settled g cycles' p" by (rule settled_mono [OF f(3) Cons.prems(2) [OF True]])
    with f True show ?thesis by simp
  next
    case False
    from explore_settles [OF Cons.prems, where s = p] obtain cycles1 visited1 where
      e: "explore g [[p]] cycles visited = Inr (cycles1, visited1)" "search_ok g cycles1"
      "set cycles \<subseteq> set cycles1" "settled g cycles1 p" "\<And>v. v \<in> visited1 \<Longrightarrow> settled g cycles1 v"
      by blast
    from Cons.IH [OF e(2,5)] obtain cycles' where
      f: "find_loop g ps cycles1 visited1 = Inr cycles'" "search_ok g cycles'"
      "set cycles1 \<subseteq> set cycles'" "\<forall>v \<in> set ps. settled g cycles' v" by blast
    have "settled g cycles' p" by (rule settled_mono [OF f(3) e(4)])
    moreover have "find_loop g (p # ps) cycles visited = Inr cycles'" using e(1) f(1) False by simp
    moreover have "set cycles \<subseteq> set cycles'" using e(3) f(3) by (rule subset_trans)
    ultimately show ?thesis using f(2,4) by simp
  qed
qed simp

lemma cycle_node_is_key: "simple_cycle g C \<Longrightarrow> last C \<in> set (dict_keys g)"
  by (auto simp: simple_cycle_def edge_def dest!: map_of_key)

section \<open>Properties\<close>

text \<open>
  C2: \<open>find_cycles\<close> ends and raises nothing, on every dictionary. What it yields are simple
  cycles of the graph (distinct nodes, each with an edge to the next, the last with an edge to
  the first), no two of them rotations of each other, and every simple cycle of the graph is
  a rotation of one that is yielded.
\<close>

theorem find_cycles_correct:
  "\<exists>cycles. find_cycles g = Inr cycles \<and>
     (\<forall>c \<in> set cycles. simple_cycle g c) \<and>
     sorted_wrt (\<lambda>a b. \<not> rotation_of a b) cycles \<and>
     (\<forall>C. simple_cycle g C \<longrightarrow> (\<exists>c \<in> set cycles. rotation_of c C))"
proof -
  from find_loop_correct [of g "[]" "{}" "dict_keys g"] obtain cycles where
    c: "find_cycles g = Inr cycles" "search_ok g cycles" "\<forall>v \<in> set (dict_keys g). settled g cycles v"
    by (auto simp: find_cycles_def search_ok_def no_dups_def)
  have "recorded cycles C" if C: "simple_cycle g C" for C
  proof -
    have "last C \<in> set C" using C by (auto simp: simple_cycle_def simple_path_def)
    with C c(3) cycle_node_is_key [OF C] show ?thesis unfolding settled_def by blast
  qed
  with c show ?thesis by (auto simp: search_ok_def no_dups_def recorded_def)
qed

theorem find_cycles_correct_witness:
  "find_cycles [(0, [1]), (1, [2]), (2, [1, 3]), (3, [0::nat])] = Inr [[1, 2], [0, 1, 2, 3]] \<and>
   simple_cycle [(0, [1]), (1, [2]), (2, [1, 3]), (3, [0::nat])] [0, 1, 2, 3]"
proof -
  let ?g = "[(0, [1]), (1, [2]), (2, [1, 3]), (3, [0::nat])]"
  have r: "find_cycles ?g = Inr [[1, 2], [0, 1, 2, 3]]" by code_simp
  with find_cycles_correct [of ?g] show ?thesis by simp
qed

end
