(* ===== verification/Rad_Numeric.thy ===== *)
theory Rad_Numeric
  imports Py_Prelude
begin

text \<open>
  The integer functions of \<open>bindings/python/rad_util.py\<close>: conversions between integers
  and binary strings, Euclid's algorithm with its clients, bit tricks, the ripple counter
  of \<open>binary_range\<close>, grid rounding and the shoelace formula. Python's unbounded integers
  are \<open>int\<close>; Python 2's \<open>/\<close> and \<open>%\<close> on integers round towards minus infinity, as \<open>div\<close>
  and \<open>mod\<close> do here. The branches of these functions that take floats are not modelled.
\<close>

unbundle bit_operations_syntax

section \<open>Operations\<close>

subsection \<open>Binary strings\<close>

definition hex_digit :: "nat \<Rightarrow> char" where
  "hex_digit d = ''0123456789abcdef'' ! d"

fun hex_digits :: "nat \<Rightarrow> string" where
  "hex_digits i = (if i < 16 then [hex_digit i] else hex_digits (i div 16) @ [hex_digit (i mod 16)])"

declare hex_digits.simps [simp del]

text \<open>The builtin \<open>hex\<close>; Python 2 appends an \<open>L\<close> to the digits of a long.\<close>

definition py_hex :: "bool \<Rightarrow> int \<Rightarrow> string" where
  "py_hex is_long i =
     (if i < 0 then ''-0x'' @ hex_digits (nat (- i)) else ''0x'' @ hex_digits (nat i)) @
     (if is_long then ''L'' else [])"

definition lower_char :: "char \<Rightarrow> char" where
  "lower_char c = (if c \<in> set ''ABCDEFGHIJKLMNOPQRSTUVWXYZ'' then char_of (of_char c + 32 :: nat) else c)"

definition hex2bin :: "(char, string) dict" where
  "hex2bin =
    [(CHR ''0'', ''0000''), (CHR ''1'', ''0001''), (CHR ''2'', ''0010''), (CHR ''3'', ''0011''),
     (CHR ''4'', ''0100''), (CHR ''5'', ''0101''), (CHR ''6'', ''0110''), (CHR ''7'', ''0111''),
     (CHR ''8'', ''1000''), (CHR ''9'', ''1001''), (CHR ''a'', ''1010''), (CHR ''b'', ''1011''),
     (CHR ''c'', ''1100''), (CHR ''d'', ''1101''), (CHR ''e'', ''1110''), (CHR ''f'', ''1111'')]"

definition int2bin :: "bool \<Rightarrow> int \<Rightarrow> int \<Rightarrow> string py" where
  "int2bin is_long i n =
     py_bind (py_map (dict_get hex2bin)
                (slice_from (filter (\<lambda>c. c \<noteq> CHR ''l'') (map lower_char (py_hex is_long i))) 2))
       (\<lambda>parts.
          let result = concat parts
          in if CHR ''1'' \<in> set (slice_to result (- n)) then Inl ValueError
             else let result = slice_from result (- n)
                  in Inr (replicate (nat (n - int (length result))) (CHR ''0'') @ result))"

text \<open>
  \<open>int(s, 2)\<close>: surrounding blanks, a sign that blanks may follow, an optional \<open>0b\<close>, and
  at least one binary digit.
\<close>

definition drop_0b :: "string \<Rightarrow> string" where
  "drop_0b s = (if take 2 s = ''0b'' \<or> take 2 s = ''0B'' then drop 2 s else s)"

definition bin_value :: "string \<Rightarrow> int" where
  "bin_value s = foldl (\<lambda>a c. 2 * a + (if c = CHR ''1'' then 1 else 0)) 0 s"

definition unsigned_bin :: "string \<Rightarrow> int py" where
  "unsigned_bin s =
     (let d = drop_0b (dropWhile is_space s)
      in if d \<noteq> [] \<and> list_all (\<lambda>c. c = CHR ''0'' \<or> c = CHR ''1'') d then Inr (bin_value d)
         else Inl ValueError)"

definition bin2int :: "string \<Rightarrow> int py" where
  "bin2int bin_string =
     (case strip bin_string of
        [] \<Rightarrow> Inl ValueError
      | c # s \<Rightarrow>
          if c = CHR ''-'' then py_bind (unsigned_bin s) (\<lambda>v. Inr (- v))
          else if c = CHR ''+'' then unsigned_bin s
          else unsigned_bin (c # s))"

text \<open>
  \<open>random_vec\<close>: \<open>draws k\<close> is the \<open>k\<close>-th value of \<open>int((2**10) * random.random())\<close>. The
  \<open>max_value\<close> of \<open>None\<close> and of 0 are both false.
\<close>

fun random_chunks :: "(nat \<Rightarrow> int) \<Rightarrow> nat \<Rightarrow> nat \<Rightarrow> string \<Rightarrow> string py" where
  "random_chunks draws k 0 vector = Inr vector"
| "random_chunks draws k (Suc m) vector =
     py_bind (int2bin False (draws k) 10) (\<lambda>s. random_chunks draws (Suc k) m (vector @ s))"

definition random_vec :: "(nat \<Rightarrow> int) \<Rightarrow> nat \<Rightarrow> int option \<Rightarrow> string py" where
  "random_vec draws bits max_value =
     py_bind (random_chunks draws 0 (bits div 10 + 1) [])
       (\<lambda>vector.
          py_bind
            (case max_value of
               None \<Rightarrow> Inr vector
             | Some m \<Rightarrow>
                 if m \<noteq> 0 \<and> m < 2 ^ bits - 1
                 then py_bind (bin2int vector)
                   (\<lambda>v. if (2::int) ^ bits - 1 = 0 then Inl ZeroDivisionError
                        else int2bin False (v div (2 ^ bits - 1) * m) (int bits))
                 else Inr vector)
            (\<lambda>vector. Inr (slice vector 0 (int bits))))"

subsection \<open>Greatest common factor\<close>

text \<open>
  On integers the test \<open>abs(remainder) > epsilon\<close> with the default \<open>epsilon\<close> of
  \<open>1e-16\<close> is true for every non-zero remainder.
\<close>

function gcf_loop :: "int \<Rightarrow> int \<Rightarrow> int" where
  "gcf_loop result remainder =
     (if remainder = 0 then result else gcf_loop remainder (result mod remainder))"
  by pat_completeness auto
termination
  by (relation "measure (\<lambda>(_, r). nat \<bar>r\<bar>)") (auto simp: abs_mod_less)

declare gcf_loop.simps [simp del]

definition gcf :: "int \<Rightarrow> int \<Rightarrow> int" where
  "gcf a b = \<bar>gcf_loop (max a b) (min a b)\<bar>"

definition lcm_py :: "int \<Rightarrow> int \<Rightarrow> int" where
  "lcm_py a b = (let denom = gcf a b in if denom = 0 then 0 else a * (b div denom))"

definition reduce_fraction :: "int \<times> int \<Rightarrow> (int \<times> int) py" where
  "reduce_fraction fraction =
     (let (numerator, denominator) = fraction;
          common_factor = \<bar>gcf numerator denominator\<bar>
      in if common_factor = 0 then Inl ZeroDivisionError
         else Inr (numerator div common_factor, denominator div common_factor))"

subsection \<open>Bits\<close>

text \<open>For a negative \<open>n\<close> the power is a float and \<open>&\<close> raises a \<open>TypeError\<close>.\<close>

definition lsb :: "int \<Rightarrow> int \<Rightarrow> int py" where
  "lsb x n = (if n < 0 then Inl TypeError else Inr (x AND (2 ^ nat n - 1)))"

definition gray_encode :: "int \<Rightarrow> int" where
  "gray_encode i = i XOR drop_bit 1 i"

text \<open>
  \<open>binary_range\<close>: \<open>v\<close> holds the digits with the least significant one first, \<open>toggle\<close> the
  carries. The outer loop is a partial function: \<open>None\<close> would mean that it never ends.
\<close>

function ripple :: "nat \<Rightarrow> string \<Rightarrow> nat list \<Rightarrow> nat \<Rightarrow> string \<times> nat list" where
  "ripple bits v toggle i =
     (if i < bits \<and> toggle ! i = 1
      then (if v ! i = CHR ''0''
            then ripple bits (v[i := CHR ''1'']) (toggle[i + 1 := 0]) (i + 1)
            else ripple bits (v[i := CHR ''0'']) (toggle[i + 1 := 1]) (i + 1))
      else (v, toggle))"
  by pat_completeness auto
termination
  by (relation "measure (\<lambda>(bits, v, t, i). bits - i)") auto

declare ripple.simps [simp del]

partial_function (option) range_loop ::
  "nat \<Rightarrow> string \<Rightarrow> nat list \<Rightarrow> string list \<Rightarrow> string list option" where
  "range_loop bits v toggle l =
     (if toggle ! bits = 1 then Some l
      else (case ripple bits v (1 # replicate bits 0) 0 of
              (v', toggle') \<Rightarrow> range_loop bits v' toggle' (l @ [rev v])))"

declare range_loop.simps [code]

text \<open>A negative \<open>bits\<close> indexes the one-element list \<open>toggle\<close> from its end.\<close>

definition binary_range :: "int \<Rightarrow> string list py option" where
  "binary_range bits =
     (if bits < 0
      then Some (if bits = - 1 then Inr [] else Inl IndexError)
      else map_option Inr
        (range_loop (nat bits) (replicate (nat bits) (CHR ''0'')) (1 # replicate (nat bits) 0) []))"

subsection \<open>Grids and polygons\<close>

text \<open>
  \<open>round_grid\<close> on integers. \<open>add_one\<close> is \<open>None\<close> while the local variable is unbound; the
  comparison with \<open>grid / 2.0\<close> is exact for the grids a float can hold.
\<close>

definition round_grid :: "int \<Rightarrow> int \<Rightarrow> int \<Rightarrow> int py" where
  "round_grid value grid mode =
     (if grid = 0 then Inl ZeroDivisionError
      else let off_grid = value mod grid;
               add_one =
                 (if mode = 0 then Some (if 2 * off_grid \<ge> grid then 1 else 0)
                  else if mode = 1 \<and> off_grid \<noteq> 0 then Some 1
                  else if mode = - 1 \<and> off_grid \<noteq> 0 then Some 0
                  else None)
           in case add_one of
                None \<Rightarrow> Inl UnboundLocalError
              | Some a \<Rightarrow> Inr ((value div grid + a) * grid))"

text \<open>
  \<open>polygon_area\<close> on integer co-ordinates: the list it leaves in its argument, and the two
  operands of the final float division.
\<close>

fun shoelace :: "(int \<times> int) list \<Rightarrow> int \<Rightarrow> int" where
  "shoelace ((x, y) # (x', y') # ps) area = shoelace ((x', y') # ps) (area + x' * y - y' * x)"
| "shoelace _ area = area"

definition polygon_area ::
  "(int \<times> int) list \<Rightarrow> int \<Rightarrow> ((int \<times> int) list \<times> int \<times> int) py" where
  "polygon_area points_list precision =
     (let scaled = map (\<lambda>(x, y). (x * precision, y * precision)) points_list
      in if scaled = [] then Inl IndexError
         else let closed = (if last scaled \<noteq> hd scaled then scaled @ [hd scaled] else scaled);
                  area = \<bar>shoelace closed 0 div 2\<bar>
              in if precision = 0 then Inl ZeroDivisionError
                 else Inr (closed, area, precision ^ 2))"

section \<open>Binary strings\<close>

text \<open>The \<open>n\<close> lowest binary digits of \<open>i\<close>, most significant first.\<close>

definition bin_str :: "nat \<Rightarrow> int \<Rightarrow> string" where
  "bin_str n i = map (\<lambda>k. if bit i k then CHR ''1'' else CHR ''0'') (rev [0..<n])"

lemma bin_str_eq_Nil [simp]: "bin_str n i = [] \<longleftrightarrow> n = 0"
  by (simp add: bin_str_def)

lemma length_bin_str [simp]: "length (bin_str n i) = n"
  by (simp add: bin_str_def)

lemma bin_str_0 [simp]: "bin_str 0 i = []"
  by (simp add: bin_str_def)

lemma bin_str_append: "bin_str (m + k) i = bin_str m (i div 2 ^ k) @ bin_str k i"
proof -
  have "[0..<m + k] = [0..<k] @ map (\<lambda>j. j + k) [0..<m]"
    by (induction m) simp_all
  then show ?thesis
    by (simp add: bin_str_def rev_map drop_bit_eq_div [symmetric] bit_drop_bit_eq add.commute)
qed

lemma bin_str_Suc: "bin_str (Suc n) i = bin_str n (i div 2) @ [if odd i then CHR ''1'' else CHR ''0'']"
  using bin_str_append [of n 1 i] by (simp add: bin_str_def bit_0)

lemma bin_str_digits: "list_all (\<lambda>c. c = CHR ''0'' \<or> c = CHR ''1'') (bin_str n i)"
  by (auto simp: bin_str_def list_all_iff)

lemma bin_value_snoc: "bin_value (s @ [c]) = 2 * bin_value s + (if c = CHR ''1'' then 1 else 0)"
  by (simp add: bin_value_def)

lemma bin_value_bin_str: "bin_value (bin_str n i) = i mod 2 ^ n"
proof (induction n arbitrary: i)
  case 0
  then show ?case by (simp add: bin_value_def)
next
  case (Suc n)
  have "i mod (2 * 2 ^ n) = 2 * (i div 2 mod 2 ^ n) + i mod 2"
    by (rule zmod_zmult2_eq) simp
  with Suc show ?case by (simp add: bin_str_Suc bin_value_snoc mod2_eq_if)
qed

lemma one_in_bin_str: "0 \<le> i \<Longrightarrow> i < 2 ^ n \<Longrightarrow> CHR ''1'' \<in> set (bin_str n i) \<longleftrightarrow> i \<noteq> 0"
proof (induction n arbitrary: i)
  case 0
  then show ?case by simp
next
  case (Suc n)
  then have "i div 2 < 2 ^ n" by auto
  with Suc show ?case by (auto simp: bin_str_Suc elim: oddE)
qed

lemma bin_str_mod: "bin_str k (i mod 2 ^ k) = bin_str k i"
  by (simp add: bin_str_def take_bit_eq_mod [symmetric] bit_take_bit_iff)

lemma bin_str_zero: "bin_str n 0 = replicate n (CHR ''0'')"
  by (simp add: bin_str_def map_replicate_const)

lemma bin_str_pad:
  "0 \<le> i \<Longrightarrow> i < 2 ^ k \<Longrightarrow> bin_str (m + k) i = replicate m (CHR ''0'') @ bin_str k i"
  by (simp add: bin_str_append bin_str_zero)

lemma less_16_cases: "i < (16::nat) \<Longrightarrow>
  i = 0 \<or> i = 1 \<or> i = 2 \<or> i = 3 \<or> i = 4 \<or> i = 5 \<or> i = 6 \<or> i = 7 \<or>
  i = 8 \<or> i = 9 \<or> i = 10 \<or> i = 11 \<or> i = 12 \<or> i = 13 \<or> i = 14 \<or> i = 15"
  by presburger

lemma hex2bin_digit: "i < 16 \<Longrightarrow> map_of hex2bin (hex_digit i) = Some (bin_str 4 (int i))"
  by (drule less_16_cases, elim disjE)
    (simp_all add: hex2bin_def hex_digit_def bin_str_Suc numeral_eq_Suc)

lemma hex_digit_char: "i < 16 \<Longrightarrow> lower_char (hex_digit i) = hex_digit i \<and> hex_digit i \<noteq> CHR ''l''"
  by (drule less_16_cases, elim disjE) (simp_all add: lower_char_def hex_digit_def)

lemma hex_digits_set: "c \<in> set (hex_digits i) \<Longrightarrow> \<exists>d < 16. c = hex_digit d"
proof (induction i rule: hex_digits.induct)
  case (1 i)
  from "1.prems" consider "c = hex_digit i" "i < 16" | "c \<in> set (hex_digits (i div 16))" "\<not> i < 16"
    | "c = hex_digit (i mod 16)"
    by (auto simp: hex_digits.simps [of i] split: if_splits)
  then show ?case
    by cases (use "1.IH" in \<open>auto intro: exI [of _ "i mod 16"]\<close>)
qed

lemma hex_digits_lower:
  "map lower_char (hex_digits i) = hex_digits i" "filter (\<lambda>c. c \<noteq> CHR ''l'') (hex_digits i) = hex_digits i"
  by (auto intro!: map_idI simp: filter_id_conv dest!: hex_digits_set simp: hex_digit_char)

lemma hex_digits_less: "i < 16 ^ length (hex_digits i)"
proof (induction i rule: hex_digits.induct)
  case (1 i)
  show ?case
  proof (cases "i < 16")
    case True
    then show ?thesis by (simp add: hex_digits.simps [of i])
  next
    case False
    with 1 have "i div 16 < 16 ^ length (hex_digits (i div 16))" by simp
    with False show ?thesis by (simp add: hex_digits.simps [of i] div_less_iff_less_mult)
  qed
qed

lemma hex_digits_bin:
  "py_map (dict_get hex2bin) (hex_digits i) =
     Inr (map (\<lambda>c. the (map_of hex2bin c)) (hex_digits i))"
  by (rule py_map_Inr) (auto dest!: hex_digits_set simp: hex2bin_digit dict_get_def)

lemma concat_hex_digits:
  "concat (map (\<lambda>c. the (map_of hex2bin c)) (hex_digits i)) = bin_str (4 * length (hex_digits i)) (int i)"
proof (induction i rule: hex_digits.induct)
  case (1 i)
  show ?case
  proof (cases "i < 16")
    case True
    then show ?thesis by (simp add: hex_digits.simps [of i] hex2bin_digit)
  next
    case False
    have "bin_str 4 (int (i mod 16)) = bin_str 4 (int i)"
      using bin_str_mod [of 4 "int i"] by (simp add: of_nat_mod)
    with False 1 show ?thesis
      using bin_str_append [of "4 * length (hex_digits (i div 16))" 4 "int i"]
      by (simp add: hex_digits.simps [of i] hex2bin_digit add.commute zdiv_int)
  qed
qed

lemma slice_minus:
  "0 < n \<Longrightarrow> slice_to xs (- n) = take (length xs - nat n) xs"
  "0 < n \<Longrightarrow> slice_from xs (- n) = drop (length xs - nat n) xs"
  using slice_bound_minus [of "nat n" "length xs"] by (simp_all add: slice_to_def slice_from_def)

lemma int_div_less: "0 < b \<Longrightarrow> i < c * b \<Longrightarrow> i div b < (c::int)"
  by (metis div_mult_mod_eq le_add_same_cancel1 linorder_not_less mult_right_mono order.strict_implies_order order.trans pos_mod_sign)

lemma lower_L: "lower_char (CHR ''L'') = CHR ''l''" "lower_char (CHR ''x'') = CHR ''x''"
  "lower_char (CHR ''0'') = CHR ''0''"
  by code_simp+

lemma int2bin_unfold:
  assumes "0 \<le> i"
  shows "int2bin is_long i n =
    (let result = bin_str (4 * length (hex_digits (nat i))) i
     in if CHR ''1'' \<in> set (slice_to result (- n)) then Inl ValueError
        else let result = slice_from result (- n)
             in Inr (replicate (nat (n - int (length result))) (CHR ''0'') @ result))"
proof -
  have "slice_from (filter (\<lambda>c. c \<noteq> CHR ''l'') (map lower_char (py_hex is_long i))) 2 = hex_digits (nat i)"
    using assms by (simp add: py_hex_def hex_digits_lower lower_L slice_defs)
  then show ?thesis
    using assms by (simp add: int2bin_def hex_digits_bin concat_hex_digits)
qed

lemma int2bin_nonneg:
  assumes i: "0 \<le> i" and n: "0 < n"
  shows "int2bin is_long i n = (if i < 2 ^ nat n then Inr (bin_str (nat n) i) else Inl ValueError)"
proof -
  define L where "L = 4 * length (hex_digits (nat i))"
  have "nat i < 2 ^ L"
    using hex_digits_less [of "nat i"] by (simp add: L_def power_mult)
  with i have iL: "i < 2 ^ L" by (simp add: nat_less_iff)
  note unf = int2bin_unfold [OF i, of is_long n, folded L_def]
  show ?thesis
  proof (cases "nat n \<le> L")
    case True
    then obtain m where m: "L = m + nat n" by (metis add.commute le_Suc_ex)
    have "i div 2 ^ nat n < 2 ^ m"
      using iL by (intro int_div_less) (simp_all add: m power_add)
    then have "CHR ''1'' \<in> set (bin_str m (i div 2 ^ nat n)) \<longleftrightarrow> i div 2 ^ nat n \<noteq> 0"
      using i by (intro one_in_bin_str) (simp_all add: pos_imp_zdiv_nonneg_iff)
    then show ?thesis
      using i n by (simp add: unf slice_minus m bin_str_append [of m] zdiv_eq_0_iff)
  next
    case False
    then obtain m where m: "nat n = m + L" by (metis nat_le_linear add.commute le_Suc_ex)
    have "i < 2 ^ nat n"
      using iL by (rule less_le_trans) (simp add: m)
    then show ?thesis
      using i n False iL by (simp add: unf slice_minus bin_str_pad m)
        (metis add_diff_cancel_right' int_nat_eq m nat_int nat_minus_as_int of_nat_0_less_iff order_less_imp_le zero_less_nat_eq)
  qed
qed

lemma bin_value_bounds:
  "0 \<le> bin_value s \<and> bin_value s < 2 ^ length s"
  by (induction s rule: rev_induct) (auto simp: bin_value_snoc bin_value_def [of "[]"])

lemma bin_str_bin_value:
  "list_all (\<lambda>c. c = CHR ''0'' \<or> c = CHR ''1'') s \<Longrightarrow> bin_str (length s) (bin_value s) = s"
  by (induction s rule: rev_induct) (auto simp: bin_value_snoc bin_str_Suc)

lemma dropWhile_id: "s \<noteq> [] \<Longrightarrow> \<not> P (hd s) \<Longrightarrow> dropWhile P s = s"
  by (cases s) simp_all

lemma strip_id: "s \<noteq> [] \<Longrightarrow> \<not> is_space (hd s) \<Longrightarrow> \<not> is_space (last s) \<Longrightarrow> strip s = s"
  by (simp add: strip_def dropWhile_id hd_rev)

lemma bin2int_digits:
  assumes s: "list_all (\<lambda>c. c = CHR ''0'' \<or> c = CHR ''1'') s" "s \<noteq> []"
  shows "bin2int s = Inr (bin_value s)"
proof -
  have ends: "hd s \<in> {CHR ''0'', CHR ''1''}" "last s \<in> {CHR ''0'', CHR ''1''}"
    using s by (auto simp: list_all_iff)
  have "\<not> is_space (hd s)" "\<not> is_space (last s)"
    using ends by (auto simp: is_space_def)
  then have "strip s = s" "dropWhile is_space s = s"
    using s(2) by (simp_all add: strip_id dropWhile_id)
  moreover have "drop_0b s = s"
    using s by (cases s; cases "tl s") (auto simp: drop_0b_def)
  ultimately show ?thesis
    using s ends by (cases s) (auto simp: bin2int_def unsigned_bin_def)
qed

section \<open>Euclid\<close>

lemma gcf_loop_gcd: "\<bar>gcf_loop a b\<bar> = gcd a b"
proof (induction a b rule: gcf_loop.induct)
  case (1 a b)
  then show ?case by (simp add: gcf_loop.simps [of a b] gcd_red_int [of a b])
qed

lemma gcf_gcd: "gcf a b = gcd a b"
  by (simp add: gcf_def gcf_loop_gcd max_def min_def gcd.commute)

lemma pos_mult_neg_iff: "0 < (g::int) \<Longrightarrow> g * x < 0 \<longleftrightarrow> x < 0"
  by (simp add: mult_less_0_iff)

lemma lcm_py_abs: "\<bar>lcm_py a b\<bar> = lcm a b"
proof (cases "gcd a b = 0")
  case False
  have "gcd a b * \<bar>a * (b div gcd a b)\<bar> = \<bar>a\<bar> * \<bar>gcd a b * (b div gcd a b)\<bar>"
    by (simp only: abs_mult abs_gcd_int mult.left_commute)
  also have "\<dots> = gcd a b * lcm a b"
    using prod_gcd_lcm_int [of a b] by simp
  finally show ?thesis
    using False by (simp only: lcm_py_def gcf_gcd Let_def if_False mult_cancel_left HOL.simp_thms)
qed (simp add: lcm_py_def gcf_gcd)

section \<open>Gray codes\<close>

lemma xor_succ_mask:
  fixes i :: int
  assumes "0 \<le> i"
  shows "\<exists>k. i XOR (i + 1) = mask (Suc k)"
  using assms
proof (induction "nat i" arbitrary: i rule: less_induct)
  case less
  show ?case
  proof (cases "even i")
    case True
    then obtain j where "i = 2 * j" by (rule evenE)
    then have "i XOR (i + 1) = mask (Suc 0)" by (simp add: xor_int_rec [of "2 * j"])
    then show ?thesis by blast
  next
    case False
    then obtain j where j: "i = 2 * j + 1" by (rule oddE)
    with less.prems have "nat j < nat i" "0 \<le> j" by auto
    with less.hyps obtain k where "j XOR (j + 1) = mask (Suc k)" by blast
    moreover have "i XOR (i + 1) = 1 + 2 * (j XOR (j + 1))"
      using j by (subst xor_int_rec) (simp add: add.commute)
    ultimately have "i XOR (i + 1) = mask (Suc (Suc k))"
      by (simp add: mask_Suc_double or_int_rec [of 1])
    then show ?thesis by blast
  qed
qed

lemma gray_xor: "gray_encode a XOR gray_encode b = gray_encode (a XOR b)"
  by (rule bit_eqI) (auto simp: gray_encode_def bit_simps)

lemma gray_mask: "gray_encode (mask (Suc k)) = 2 ^ k"
  by (rule bit_eqI) (auto simp: gray_encode_def bit_simps less_Suc_eq)

lemma gray_eq_0: "0 \<le> x \<Longrightarrow> gray_encode x = 0 \<Longrightarrow> x = 0"
proof -
  assume x: "0 \<le> x" and "gray_encode x = 0"
  then have "x = drop_bit 1 x" by (metis gray_encode_def xor_self_eq xor.assoc xor.right_neutral xor.left_neutral)
  with x show "x = 0" by (simp add: drop_bit_eq_div)
qed

lemma gray_inj: "inj_on gray_encode {0..}"
proof (rule inj_onI)
  fix a b :: int
  assume ab: "a \<in> {0..}" "b \<in> {0..}" "gray_encode a = gray_encode b"
  then have "gray_encode (a XOR b) = 0" by (simp add: gray_xor [symmetric])
  moreover have "0 \<le> a XOR b" using ab by simp
  ultimately have "a XOR b = 0" by (rule gray_eq_0 [rotated])
  then have "a XOR (a XOR b) = a" by simp
  then show "a = b" by (simp add: bit.xor_left_self)
qed

lemma gray_range: "0 \<le> i \<Longrightarrow> i < 2 ^ n \<Longrightarrow> 0 \<le> gray_encode i \<and> gray_encode i < 2 ^ n"
  using XOR_upper [of i n "drop_bit 1 i"] by (simp add: gray_encode_def drop_bit_eq_div)

section \<open>The ripple counter\<close>

fun incr :: "string \<Rightarrow> string" where
  "incr [] = []"
| "incr (c # cs) = (if c = CHR ''0'' then CHR ''1'' # cs else CHR ''0'' # incr cs)"

lemma ripple_stop: "i = bits \<or> toggle ! i \<noteq> 1 \<Longrightarrow> ripple bits v toggle i = (v, toggle)"
  by (subst ripple.simps) (simp only: if_False HOL.simp_thms less_irrefl split: if_split, blast)

lemma ripple_spec:
  assumes "length v = bits" "length toggle = Suc bits" "i \<le> bits" "toggle ! i = 1"
    "\<And>j. i < j \<Longrightarrow> j \<le> bits \<Longrightarrow> toggle ! j = 0"
  shows "fst (ripple bits v toggle i) = take i v @ incr (drop i v) \<and>
    snd (ripple bits v toggle i) ! bits = (if CHR ''0'' \<in> set (drop i v) then 0 else 1)"
  using assms
proof (induction bits v toggle i rule: ripple.induct)
  case (1 bits v toggle i)
  show ?case
  proof (cases "i < bits")
    case False
    with "1.prems" show ?thesis by (simp add: ripple_stop)
  next
    case i: True
    then have d: "drop i v = v ! i # drop (Suc i) v"
      using "1.prems"(1) by (simp add: Cons_nth_drop_Suc)
    show ?thesis
    proof (cases "v ! i = CHR ''0''")
      case True
      have "ripple bits v toggle i = (v[i := CHR ''1''], toggle[i + 1 := 0])"
        using i True "1.prems" by (subst ripple.simps) (simp add: ripple_stop)
      moreover have "toggle[i + 1 := 0] ! bits = 0"
        using i "1.prems" by (simp add: nth_list_update)
      ultimately show ?thesis
        using i True "1.prems"(1) d by (simp add: upd_conv_take_nth_drop)
    next
      case False
      have "take (Suc i) (v[i := CHR ''0'']) = take i v @ [CHR ''0'']"
        using i "1.prems"(1) by (simp add: take_Suc_conv_app_nth)
      moreover have "ripple bits v toggle i = ripple bits (v[i := CHR ''0'']) (toggle[i + 1 := 1]) (i + 1)"
        using i False "1.prems"(4) by (subst ripple.simps) simp
      ultimately show ?thesis
        using "1.IH"(2) [of] i False "1.prems" d by (simp add: nth_list_update)
    qed
  qed
qed

lemma rev_bin_str_Suc:
  "rev (bin_str (Suc n) c) = (if odd c then CHR ''1'' else CHR ''0'') # rev (bin_str n (c div 2))"
  by (simp add: bin_str_Suc)

lemma incr_bin_str: "incr (rev (bin_str n c)) = rev (bin_str n (c + 1))"
proof (induction n arbitrary: c)
  case 0
  then show ?case by simp
next
  case (Suc n)
  have "odd c \<Longrightarrow> (c + 1) div 2 = c div 2 + 1" "even c \<Longrightarrow> (c + 1) div 2 = c div 2"
    by presburger+
  with Suc show ?case by (cases "odd c") (simp_all add: rev_bin_str_Suc)
qed

lemma zero_in_bin_str:
  "0 \<le> c \<Longrightarrow> c < 2 ^ n \<Longrightarrow> CHR ''0'' \<in> set (bin_str n c) \<longleftrightarrow> c \<noteq> 2 ^ n - 1"
proof (induction n arbitrary: c)
  case 0
  then show ?case by simp
next
  case (Suc n)
  then have "c div 2 < 2 ^ n" by auto
  with Suc have IH: "CHR ''0'' \<in> set (bin_str n (c div 2)) \<longleftrightarrow> c div 2 \<noteq> 2 ^ n - 1" by simp
  show ?case
  proof (cases "even c")
    case True
    then have "c \<noteq> 2 ^ Suc n - 1" by auto
    with True show ?thesis by (simp add: bin_str_Suc)
  next
    case False
    then show ?thesis by (auto simp: bin_str_Suc IH elim!: oddE)
  qed
qed

lemma ripple_bin_str:
  assumes "0 \<le> c" "c < 2 ^ n"
  shows "fst (ripple n (rev (bin_str n c)) (1 # replicate n 0) 0) = rev (bin_str n (c + 1))"
    "snd (ripple n (rev (bin_str n c)) (1 # replicate n 0) 0) ! n = (if c = 2 ^ n - 1 then 1 else 0)"
  using ripple_spec [of "rev (bin_str n c)" n "1 # replicate n 0" 0] assms
  by (auto simp: incr_bin_str zero_in_bin_str nth_Cons')

lemma range_loop_from:
  assumes "0 \<le> c" "c < 2 ^ n" "toggle ! n \<noteq> 1"
  shows "range_loop n (rev (bin_str n c)) toggle l = Some (l @ map (bin_str n) [c..2 ^ n - 1])"
  using assms
proof (induction "nat (2 ^ n - c)" arbitrary: c toggle l)
  case 0
  then show ?case by simp
next
  case (Suc m)
  obtain v' t' where vt: "ripple n (rev (bin_str n c)) (1 # replicate n 0) 0 = (v', t')" by fastforce
  with ripple_bin_str [OF Suc.prems(1, 2)]
  have v': "v' = rev (bin_str n (c + 1))" and t': "t' ! n = (if c = 2 ^ n - 1 then 1 else 0)"
    by simp_all
  have step: "range_loop n (rev (bin_str n c)) toggle l = range_loop n v' t' (l @ [bin_str n c])"
    using Suc.prems(3) vt by (subst range_loop.simps) simp
  have up: "[c..2 ^ n - 1] = c # [c + 1..2 ^ n - 1]"
    using Suc.prems(2) by (simp add: upto_rec1)
  show ?case
  proof (cases "c = 2 ^ n - 1")
    case True
    then have "range_loop n v' t' (l @ [bin_str n c]) = Some (l @ [bin_str n c])"
      using t' by (subst range_loop.simps) simp
    moreover have "[c..2 ^ n - 1] = [c]" using True by simp
    ultimately show ?thesis by (simp only: step list.map)
  next
    case False
    then have "range_loop n v' t' (l @ [bin_str n c]) =
        Some ((l @ [bin_str n c]) @ map (bin_str n) [c + 1..2 ^ n - 1])"
      unfolding v' using Suc.prems t' Suc.hyps(2) by (intro Suc.hyps(1)) auto
    then show ?thesis by (simp add: step up)
  qed
qed

lemma binary_range_bin_str:
  assumes "0 < bits"
  shows "binary_range bits = Some (Inr (map (bin_str (nat bits)) [0..2 ^ nat bits - 1]))"
  using range_loop_from [of 0 "nat bits" "1 # replicate (nat bits) 0" "[]"] assms
  by (simp add: binary_range_def bin_str_zero nth_Cons')

section \<open>Polygons\<close>

lemma shoelace_scale:
  "shoelace (map (\<lambda>(x, y). (x * p, y * p)) ps) (p ^ 2 * a) = p ^ 2 * shoelace ps a"
proof (induction ps a rule: shoelace.induct)
  case (1 x y x' y' ps a)
  then show ?case by (simp add: algebra_simps power2_eq_square)
qed simp_all

text \<open>The polygon with its first corner repeated at the end, as \<open>polygon_area\<close> closes it.\<close>

definition closed_polygon :: "(int \<times> int) list \<Rightarrow> (int \<times> int) list" where
  "closed_polygon ps = (if last ps \<noteq> hd ps then ps @ [hd ps] else ps)"

lemma scale_inj: "p \<noteq> 0 \<Longrightarrow> inj (\<lambda>(x, y). (x * p :: int, y * p :: int))"
  by (auto simp: inj_def)

lemma closed_scale:
  assumes "p \<noteq> 0" "ps \<noteq> []"
  shows "closed_polygon (map (\<lambda>(x, y). (x * p, y * p)) ps) = map (\<lambda>(x, y). (x * p, y * p)) (closed_polygon ps)"
  using assms scale_inj [OF assms(1)] by (simp add: closed_polygon_def last_map hd_map inj_eq)

lemma polygon_area_eq:
  assumes "p \<noteq> 0" "ps \<noteq> []"
  shows "polygon_area ps p =
    Inr (map (\<lambda>(x, y). (x * p, y * p)) (closed_polygon ps),
         \<bar>p ^ 2 * shoelace (closed_polygon ps) 0 div 2\<bar>, p ^ 2)"
  using closed_scale [OF assms] shoelace_scale [of p "closed_polygon ps" 0] assms
  by (simp add: polygon_area_def closed_polygon_def Let_def)

section \<open>Random vectors\<close>

lemma random_chunks_eq:
  assumes "\<And>j. 0 \<le> draws j \<and> draws j < 1024"
  shows "random_chunks draws k m vector = Inr (vector @ concat (map (\<lambda>j. bin_str 10 (draws j)) [k..<k + m]))"
proof (induction m arbitrary: k vector)
  case 0
  then show ?case by simp
next
  case (Suc m)
  have "int2bin False (draws k) 10 = Inr (bin_str 10 (draws k))"
    using assms [of k] by (simp add: int2bin_nonneg)
  then show ?case by (simp add: Suc upt_rec [of k] del: upt_Suc)
qed

lemma length_chunks: "length (concat (map (\<lambda>j. bin_str 10 (draws j)) [k..<k + m])) = 10 * m"
  by (induction m) simp_all

lemma nearest_multiple:
  "(v::int) = m + r \<Longrightarrow> 0 \<le> r \<Longrightarrow> r < g \<Longrightarrow> 2 * \<bar>m + (if g \<le> 2 * r then g else 0) - v\<bar> \<le> g"
  by auto

section \<open>Properties\<close>

text \<open>
  C21: \<open>int2bin\<close> and \<open>bin2int\<close> are inverse to each other. For a positive width \<open>n\<close> a
  non-negative integer that fits is written as a string of exactly \<open>n\<close> characters that
  \<open>bin2int\<close> reads back, one that does not fit raises \<open>ValueError\<close>, and every non-empty
  string of binary digits is rewritten by \<open>int2bin\<close> from its value and its length. The
  width 0 is not honoured: the result is then the full string of hexadecimal groups.
\<close>

lemma int2bin_roundtrip:
  assumes "0 \<le> i" "0 < n" "s \<noteq> []" "list_all (\<lambda>c. c = CHR ''0'' \<or> c = CHR ''1'') s"
  shows "(i < 2 ^ nat n \<longrightarrow>
            (\<exists>t. int2bin is_long i n = Inr t \<and> length t = nat n \<and> bin2int t = Inr i)) \<and>
         (2 ^ nat n \<le> i \<longrightarrow> int2bin is_long i n = Inl ValueError) \<and>
         py_bind (bin2int s) (\<lambda>v. int2bin is_long v (int (length s))) = Inr s \<and>
         (\<exists>t. int2bin is_long i 0 = Inr t \<and> 4 \<le> length t)"
proof (intro conjI impI)
  assume "i < 2 ^ nat n"
  then have "int2bin is_long i n = Inr (bin_str (nat n) i) \<and> length (bin_str (nat n) i) = nat n \<and>
      bin2int (bin_str (nat n) i) = Inr i"
    using assms(1,2) by (simp add: int2bin_nonneg bin_value_bin_str bin2int_digits [OF bin_str_digits])
  then show "\<exists>t. int2bin is_long i n = Inr t \<and> length t = nat n \<and> bin2int t = Inr i" by blast
next
  assume "2 ^ nat n \<le> i"
  then show "int2bin is_long i n = Inl ValueError" using assms by (simp add: int2bin_nonneg)
next
  show "py_bind (bin2int s) (\<lambda>v. int2bin is_long v (int (length s))) = Inr s"
    using assms(3,4) bin_value_bounds [of s]
    by (simp add: bin2int_digits int2bin_nonneg bin_str_bin_value)
next
  have "hex_digits (nat i) \<noteq> []" by (simp add: hex_digits.simps [of "nat i"])
  then show "\<exists>t. int2bin is_long i 0 = Inr t \<and> 4 \<le> length t"
    using assms(1) by (cases "hex_digits (nat i)") (auto simp: int2bin_unfold slice_defs)
qed

text \<open>
  C22: \<open>gcf\<close> is the greatest common divisor and \<open>lcm\<close> is, up to its sign, the least
  common multiple, for all integers; \<open>lcm\<close> is negative when exactly one argument is.
\<close>

lemma gcf_lcm_correct:
  "gcf a b = gcd a b \<and> \<bar>lcm_py a b\<bar> = lcm a b \<and> (lcm_py a b < 0 \<longleftrightarrow> a * b < 0)"
proof -
  have "a * (b div gcd a b) < 0 \<longleftrightarrow> a * b < 0" if "gcd a b \<noteq> 0"
  proof -
    obtain c where c: "b = gcd a b * c" by (metis gcd_dvd2 dvd_def)
    have "0 < gcd a b" using that by (simp add: order_less_le)
    moreover from this have "b div gcd a b = c" by (metis c nonzero_mult_div_cancel_left that)
    moreover have "a * b = gcd a b * (a * c)" by (subst c) (simp only: mult.left_commute)
    ultimately show ?thesis using pos_mult_neg_iff [of "gcd a b" "a * c"] by (simp only:)
  qed
  then have "lcm_py a b < 0 \<longleftrightarrow> a * b < 0" by (auto simp: gcf_gcd lcm_py_def)
  then show ?thesis by (simp add: gcf_gcd lcm_py_abs)
qed

text \<open>
  \<open>reduce_fraction\<close> returns the fraction in lowest terms: a coprime pair that the common
  factor scales back to the argument; only \<open>(0, 0)\<close> raises an exception.
\<close>

lemma reduce_fraction_lowest:
  "(reduce_fraction (0, 0) = Inl ZeroDivisionError) \<and>
   ((n, d) \<noteq> (0, 0) \<longrightarrow>
      (\<exists>n' d'. reduce_fraction (n, d) = Inr (n', d') \<and> coprime n' d' \<and>
         n = n' * gcd n d \<and> d = d' * gcd n d))"
  by (auto simp: reduce_fraction_def gcf_gcd div_gcd_coprime Let_def)

text \<open>
  C24: \<open>gray_encode\<close> is a Gray code of every width: it permutes the integers below \<open>2^n\<close>,
  and the codes of two successive integers differ in exactly one bit.
\<close>

lemma gray_encode_gray:
  assumes "0 \<le> i"
  shows "bij_betw gray_encode {0..<2 ^ n} {0..<2 ^ n} \<and>
     (\<exists>k. gray_encode i XOR gray_encode (i + 1) = 2 ^ k)"
proof
  have "inj_on gray_encode {0..<2 ^ n}"
    by (rule inj_on_subset [OF gray_inj]) auto
  moreover have "gray_encode ` {0..<2 ^ n} \<subseteq> {0..<2 ^ n}"
    using gray_range by auto
  ultimately show "bij_betw gray_encode {0..<2 ^ n} {0..<2 ^ n}"
    by (simp add: bij_betw_def endo_inj_surj)
  show "\<exists>k. gray_encode i XOR gray_encode (i + 1) = 2 ^ k"
    using xor_succ_mask [OF assms] by (auto simp: gray_xor gray_mask)
qed

text \<open>
  For a positive width \<open>binary_range\<close> terminates and returns the \<open>2^bits\<close> binary
  numbers in order: the \<open>i\<close>-th string is what \<open>int2bin\<close> makes of \<open>i\<close>.
\<close>

lemma binary_range_complete:
  assumes "0 < bits"
  shows "\<exists>l. binary_range bits = Some (Inr l) \<and> length l = 2 ^ nat bits \<and>
    (\<forall>i < length l. int2bin False (int i) bits = Inr (l ! i))"
  using assms by (intro exI [of _ "map (bin_str (nat bits)) [0..2 ^ nat bits - 1]"])
    (auto simp: binary_range_bin_str int2bin_nonneg nat_power_eq nat_diff_distrib)

text \<open>
  C26: \<open>round_grid\<close> on a positive grid: mode 0 returns a multiple of the grid at distance at
  most half a grid, and off the grid mode 1 returns the next multiple above and mode -1
  the next below. For a value that is already on the grid modes 1 and -1 raise an
  \<open>UnboundLocalError\<close> instead of returning the value.
\<close>

lemma round_grid_modes:
  assumes "0 < grid"
  shows "(\<exists>r. round_grid value grid 0 = Inr r \<and> grid dvd r \<and> 2 * \<bar>r - value\<bar> \<le> grid) \<and>
    (if grid dvd value
     then round_grid value grid 1 = Inl UnboundLocalError \<and>
          round_grid value grid (- 1) = Inl UnboundLocalError
     else (\<exists>up down. round_grid value grid 1 = Inr up \<and> round_grid value grid (- 1) = Inr down \<and>
             grid dvd up \<and> grid dvd down \<and> down < value \<and> value < up \<and> up = down + grid))"
proof -
  let ?q = "value div grid" and ?r = "value mod grid"
  have v: "value = ?q * grid + ?r" and r: "0 \<le> ?r" "?r < grid"
    using assms by simp_all
  have "round_grid value grid 0 = Inr (?q * grid + (if grid \<le> 2 * ?r then grid else 0))"
    using assms by (simp add: round_grid_def ring_distribs)
  moreover have "2 * \<bar>?q * grid + (if grid \<le> 2 * ?r then grid else 0) - value\<bar> \<le> grid"
    by (rule nearest_multiple [OF v r])
  ultimately have "\<exists>r. round_grid value grid 0 = Inr r \<and> grid dvd r \<and> 2 * \<bar>r - value\<bar> \<le> grid"
    by simp
  moreover have "round_grid value grid 1 = Inr (?q * grid + grid) \<and> round_grid value grid (- 1) = Inr (?q * grid) \<and>
      ?q * grid < value \<and> value < ?q * grid + grid" if "\<not> grid dvd value"
  proof -
    have nz: "?r \<noteq> 0" using that by (simp add: dvd_eq_mod_eq_0)
    then have "?q * grid < value \<and> value < ?q * grid + grid" using v r by linarith
    with nz assms show ?thesis by (simp add: round_grid_def ring_distribs)
  qed
  moreover have "grid dvd value \<Longrightarrow> round_grid value grid 1 = Inl UnboundLocalError \<and>
      round_grid value grid (- 1) = Inl UnboundLocalError"
    using assms by (simp add: round_grid_def dvd_eq_mod_eq_0)
  ultimately show ?thesis by auto
qed

text \<open>
  For an even precision \<open>polygon_area\<close> loses nothing to its integer halving: twice its
  numerator is the absolute shoelace sum of the closed polygon scaled by the square of the
  precision, which is the denominator. The argument list is left scaled and closed.
\<close>

lemma polygon_area_exact:
  assumes "ps \<noteq> []" "p \<noteq> 0" "even p"
  shows "\<exists>area. polygon_area ps p =
       Inr (map (\<lambda>(x, y). (x * p, y * p)) (closed_polygon ps), area, p ^ 2) \<and>
     2 * area = p ^ 2 * \<bar>shoelace (closed_polygon ps) 0\<bar>"
proof -
  have "even (p ^ 2 * shoelace (closed_polygon ps) 0)" using assms(3) by simp
  then have "2 * \<bar>p ^ 2 * shoelace (closed_polygon ps) 0 div 2\<bar> = \<bar>p ^ 2 * shoelace (closed_polygon ps) 0\<bar>"
    by (auto elim!: evenE simp: abs_mult)
  with assms show ?thesis by (simp add: polygon_area_eq abs_mult)
qed

text \<open>
  Without a bound \<open>random_vec\<close> returns a string of exactly \<open>bits\<close> binary digits for
  every sequence of draws between 0 and 1023. With a bound it can raise a \<open>ValueError\<close>:
  the scaling divides a number of up to nine digits more than \<open>bits\<close> by \<open>2^bits - 1\<close>, and
  draws of 1023 with eight bits and the bound 200 give a number that does not fit.
\<close>

lemma random_vec_length:
  assumes "\<And>j. 0 \<le> draws j \<and> draws j < 1024"
  shows "(\<exists>s. random_vec draws bits None = Inr s \<and> length s = bits) \<and>
    random_vec (\<lambda>_. 1023) 8 (Some 200) = Inl ValueError"
proof
  have "bits \<le> 10 * (bits div 10 + 1)"
    by presburger
  then show "\<exists>s. random_vec draws bits None = Inr s \<and> length s = bits"
    using length_chunks [of draws 0 "bits div 10 + 1"]
    by (simp add: random_vec_def random_chunks_eq [OF assms] slice_nat [of _ 0, simplified] del: upt_Suc)
  show "random_vec (\<lambda>_. 1023) 8 (Some 200) = Inl ValueError" by code_simp
qed

end
