(* ===== verification/Shell_Cmd.thy ===== *)
theory Shell_Cmd
  imports Py_Prelude
begin

text \<open>
  The command-line interpreter of \<open>waf-tools/shellcmd.py\<close>: the tokeniser it takes from the
  standard library (\<open>shlex.split\<close>), the parser \<open>Pipeline.parse\<close> as a state machine over
  the tokens, and \<open>Pipeline.run\<close>, which spawns and waits for the processes. The operating
  system is a parameter of \<open>run\<close>; what \<open>run\<close> does to it is recorded as a list of events.
\<close>

section \<open>Tokens\<close>

text \<open>\<open>shlex.split\<close> in its POSIX mode: the states of \<open>shlex.read_token\<close>.\<close>

datatype lex_state = LSpace | LWord | LQuote char | LEscape "char option"

definition lex_white :: "char \<Rightarrow> bool" where
  "lex_white c \<longleftrightarrow> c \<in> set [CHR '' '', CHR 0x09, CHR 0x0A, CHR 0x0D]"

definition lex_quote :: "char \<Rightarrow> bool" where
  "lex_quote c \<longleftrightarrow> c = CHR 0x27 \<or> c = CHR 0x22"

abbreviation backslash :: char where
  "backslash \<equiv> CHR 0x5C"

fun shlex_go :: "lex_state \<Rightarrow> string \<Rightarrow> bool \<Rightarrow> string \<Rightarrow> string list py" where
  "shlex_go LSpace token quoted [] = Inr (if token \<noteq> [] \<or> quoted then [token] else [])"
| "shlex_go LWord token quoted [] = Inr (if token \<noteq> [] \<or> quoted then [token] else [])"
| "shlex_go (LQuote q) token quoted [] = Inl ValueError"
| "shlex_go (LEscape back) token quoted [] = Inl ValueError"
| "shlex_go LSpace token quoted (c # cs) =
     (if lex_white c then
        (if token \<noteq> [] \<or> quoted
         then py_bind (shlex_go LSpace [] False cs) (\<lambda>ts. Inr (token # ts))
         else shlex_go LSpace token quoted cs)
      else if c = backslash then shlex_go (LEscape None) token quoted cs
      else if lex_quote c then shlex_go (LQuote c) token quoted cs
      else shlex_go LWord [c] quoted cs)"
| "shlex_go LWord token quoted (c # cs) =
     (if lex_white c then
        (if token \<noteq> [] \<or> quoted
         then py_bind (shlex_go LSpace [] False cs) (\<lambda>ts. Inr (token # ts))
         else shlex_go LSpace token quoted cs)
      else if lex_quote c then shlex_go (LQuote c) token quoted cs
      else if c = backslash then shlex_go (LEscape None) token quoted cs
      else shlex_go LWord (token @ [c]) quoted cs)"
| "shlex_go (LQuote q) token quoted (c # cs) =
     (if c = q then shlex_go LWord token True cs
      else if c = backslash \<and> q = CHR 0x22 then shlex_go (LEscape (Some q)) token True cs
      else shlex_go (LQuote q) (token @ [c]) True cs)"
| "shlex_go (LEscape back) token quoted (c # cs) =
     (let token' = (case back of
                      Some q \<Rightarrow> if c \<noteq> backslash \<and> c \<noteq> q then token @ [backslash] else token
                    | None \<Rightarrow> token)
      in shlex_go (case back of Some q \<Rightarrow> LQuote q | None \<Rightarrow> LWord) (token' @ [c]) quoted cs)"

definition shlex_split :: "string \<Rightarrow> string list py" where
  "shlex_split s = shlex_go LSpace [] False s"

text \<open>
  \<open>env_var_rx\<close>, that is \<open>^([a-zA-Z0-9_]+)=(\S+)$\<close>. The dollar also matches before a
  newline at the end of the token.
\<close>

definition word_char :: "char \<Rightarrow> bool" where
  "word_char c \<longleftrightarrow> c \<in> set ''abcdefghijklmnopqrstuvwxyzABCDEFGHIJKLMNOPQRSTUVWXYZ0123456789_''"

definition env_var_rx :: "string \<Rightarrow> (string \<times> string) option" where
  "env_var_rx token =
     (let key = takeWhile (\<lambda>c. c \<noteq> CHR ''='') token;
          rest = drop (length key + 1) token;
          val = (if rest \<noteq> [] \<and> last rest = CHR 0x0A then butlast rest else rest)
      in if CHR ''='' \<in> set token \<and> key \<noteq> [] \<and> list_all word_char key \<and>
            val \<noteq> [] \<and> list_all (\<lambda>c. \<not> is_space c) val
         then Some (key, val) else None)"

section \<open>Nodes\<close>

text \<open>\<open>None\<close>, the constants \<open>PIPE\<close> and \<open>STDOUT\<close>, or a file name.\<close>

datatype redirect = NoRedirect | ToPIPE | ToSTDOUT | ToFile string

record command =
  cmd_name :: string
  cmd_argv :: "string list"
  cmd_stdin :: "string option"
  cmd_stdout :: redirect
  cmd_stderr :: redirect
  cmd_env_vars :: "(string, string) dict"

datatype node = Command command | Chdir "string option" | Pipe | And | Or

definition new_command :: "string \<Rightarrow> command" where
  "new_command name = \<lparr>cmd_name = name, cmd_argv = [name], cmd_stdin = None,
     cmd_stdout = NoRedirect, cmd_stderr = NoRedirect, cmd_env_vars = []\<rparr>"

section \<open>The parser\<close>

datatype parse_state = BEGIN | COMMAND | CHDIR | STDERR | STDOUT | STDIN

record parser =
  state :: parse_state
  current_command :: "node option"
  pipeline :: "node list"
  env_vars :: "(string, string) dict"

definition py_assert :: "bool \<Rightarrow> 'a py \<Rightarrow> 'a py" where
  "py_assert b k = (if b then k else Inl AssertionError)"

definition commit_command :: "parser \<Rightarrow> parser py" where
  "commit_command p =
     (case current_command p of
        None \<Rightarrow> Inl AssertionError
      | Some n \<Rightarrow> Inr (p\<lparr>pipeline := pipeline p @ [n], current_command := None\<rparr>))"

text \<open>Reading or writing an attribute of \<open>self.current_command\<close> that only a command has.\<close>

definition the_command :: "parser \<Rightarrow> command py" where
  "the_command p =
     (case current_command p of Some (Command c) \<Rightarrow> Inr c | _ \<Rightarrow> Inl AttributeError)"

definition set_command :: "command \<Rightarrow> parse_state \<Rightarrow> parser \<Rightarrow> parser py" where
  "set_command c st p = Inr (p\<lparr>current_command := Some (Command c), state := st\<rparr>)"

definition append_op :: "node \<Rightarrow> parser \<Rightarrow> parser py" where
  "append_op op p =
     py_bind (commit_command p) (\<lambda>p. Inr (p\<lparr>pipeline := pipeline p @ [op], state := BEGIN\<rparr>))"

definition step_begin :: "parser \<Rightarrow> string \<Rightarrow> parser py" where
  "step_begin p token =
     (case env_var_rx token of
        Some (k, v) \<Rightarrow> Inr (p\<lparr>env_vars := AList.update k v (env_vars p)\<rparr>)
      | None \<Rightarrow>
          py_assert (current_command p = None)
            (if token = ''cd''
             then py_assert (env_vars p = [])
                    (Inr (p\<lparr>current_command := Some (Chdir None), state := CHDIR\<rparr>))
             else let c = new_command token
                  in if env_vars p \<noteq> []
                     then Inr (p\<lparr>current_command := Some (Command (c\<lparr>cmd_env_vars := env_vars p\<rparr>)),
                                 env_vars := [], state := COMMAND\<rparr>)
                     else set_command c COMMAND p))"

definition step_command :: "parser \<Rightarrow> string \<Rightarrow> parser py" where
  "step_command p token =
     (if token = ''>'' then Inr (p\<lparr>state := STDOUT\<rparr>)
      else if token = ''2>'' then Inr (p\<lparr>state := STDERR\<rparr>)
      else if token = ''2>&1'' then
        py_bind (the_command p) (\<lambda>c.
          py_assert (cmd_stderr c = NoRedirect) (set_command (c\<lparr>cmd_stderr := ToSTDOUT\<rparr>) COMMAND p))
      else if token = ''<'' then Inr (p\<lparr>state := STDIN\<rparr>)
      else if token = ''|'' then
        py_bind (the_command p) (\<lambda>c.
          py_assert (cmd_stdout c = NoRedirect)
            (py_bind (set_command (c\<lparr>cmd_stdout := ToPIPE\<rparr>) COMMAND p) (append_op Pipe)))
      else if token = ''&&'' then append_op And p
      else if token = ''||'' then append_op Or p
      else py_bind (the_command p) (\<lambda>c. set_command (c\<lparr>cmd_argv := cmd_argv c @ [token]\<rparr>) COMMAND p))"

definition step_chdir :: "parser \<Rightarrow> string \<Rightarrow> parser py" where
  "step_chdir p token =
     (if token = ''&&'' then append_op And p
      else case current_command p of
        Some (Chdir dir) \<Rightarrow>
          py_assert (dir = None) (Inr (p\<lparr>current_command := Some (Chdir (Some token))\<rparr>))
      | _ \<Rightarrow> Inl AttributeError)"

definition step_redirect :: "parser \<Rightarrow> string \<Rightarrow> parser py" where
  "step_redirect p token =
     py_bind (the_command p) (\<lambda>c.
       (case state p of
          STDOUT \<Rightarrow> py_assert (cmd_stdout c = NoRedirect)
                      (set_command (c\<lparr>cmd_stdout := ToFile token\<rparr>) COMMAND p)
        | STDERR \<Rightarrow> py_assert (cmd_stderr c = NoRedirect)
                      (set_command (c\<lparr>cmd_stderr := ToFile token\<rparr>) COMMAND p)
        | _ \<Rightarrow> py_assert (cmd_stdin c = None)
                 (set_command (c\<lparr>cmd_stdin := Some token\<rparr>) COMMAND p)))"

definition parse_step :: "parser \<Rightarrow> string \<Rightarrow> parser py" where
  "parse_step p token =
     (case state p of
        BEGIN \<Rightarrow> step_begin p token
      | COMMAND \<Rightarrow> step_command p token
      | CHDIR \<Rightarrow> step_chdir p token
      | _ \<Rightarrow> step_redirect p token)"

definition init_parser :: parser where
  "init_parser = \<lparr>state = BEGIN, current_command = None, pipeline = [], env_vars = []\<rparr>"

text \<open>The argument of \<open>parse\<close>: a list of tokens, or a string that \<open>shlex\<close> splits.\<close>

datatype cmd_arg = Tokens "string list" | Line string

definition parse_tokens :: "string list \<Rightarrow> node list py" where
  "parse_tokens tokens =
     py_bind (run_steps parse_step init_parser tokens)
       (\<lambda>p. py_bind (commit_command p) (\<lambda>p. Inr (pipeline p)))"

definition parse :: "cmd_arg \<Rightarrow> node list py" where
  "parse cmd =
     (case cmd of
        Tokens ts \<Rightarrow> parse_tokens ts
      | Line s \<Rightarrow> py_bind (shlex_split s) parse_tokens)"

text \<open>\<open>get_abbreviated_command\<close>: a chain whose last two tests are the same.\<close>

fun abbreviate :: "node \<Rightarrow> string list" where
  "abbreviate (Command c) = [cmd_name c]"
| "abbreviate (Chdir d) = [''cd '' @ (case d of None \<Rightarrow> ''None'' | Some s \<Rightarrow> s)]"
| "abbreviate Pipe = [''|'']"
| "abbreviate And = [''&&'']"
| "abbreviate Or = []"

definition get_abbreviated_command :: "node list \<Rightarrow> string" where
  "get_abbreviated_command ns = py_join '' '' (concat (map abbreviate ns))"

section \<open>Running a pipeline\<close>

datatype stream_in = InInherit | InPipeFrom nat | InFile string

datatype stream_out = OutInherit | OutPIPE | OutSTDOUT | OutDevNull | OutFile string

record popen =
  p_argv :: "string list"
  p_stdin :: stream_in
  p_stdout :: stream_out
  p_stderr :: stream_out
  p_env :: "(string, string) dict option"
  p_cwd :: "string option"

datatype event =
    OpenRead string
  | OpenWrite string
  | Popen popen
  | Wait nat
  | Close string
  | Print string

text \<open>
  The operating system: which files open, which programs start, the exit code of the
  \<open>k\<close>-th process, and \<open>os.environ\<close>.
\<close>

record os =
  can_open :: "string \<Rightarrow> bool"
  can_spawn :: "popen \<Rightarrow> bool"
  exit_code :: "nat \<Rightarrow> int"
  environ :: "(string, string) dict"

datatype py_file = DevNull | Opened string

record runner =
  files_to_close :: "py_file list"
  piped_commands :: "nat list"
  piped_commands_display :: "string list"
  piping :: bool
  cwd :: string
  nprocs :: nat
  events :: "event list"

definition emit :: "event list \<Rightarrow> runner \<Rightarrow> runner" where
  "emit es r = r\<lparr>events := events r @ es\<rparr>"

definition show_part :: "bool \<Rightarrow> string \<Rightarrow> runner \<Rightarrow> runner" where
  "show_part verbose s r =
     (if verbose then r\<lparr>piped_commands_display := piped_commands_display r @ [s]\<rparr> else r)"

text \<open>\<open>_open_out_file\<close>, with the file recorded in \<open>files_to_close\<close>.\<close>

definition open_out_file :: "os \<Rightarrow> string \<Rightarrow> runner \<Rightarrow> (stream_out \<times> runner) py" where
  "open_out_file w filename r =
     (if filename \<in> set [''NUL:'', ''/dev/null'']
      then Inr (OutDevNull, r\<lparr>files_to_close := files_to_close r @ [DevNull]\<rparr>)
      else if can_open w filename
      then Inr (OutFile filename,
                emit [OpenWrite filename] (r\<lparr>files_to_close := files_to_close r @ [Opened filename]\<rparr>))
      else Inl IOError)"

definition choose_stdin :: "os \<Rightarrow> bool \<Rightarrow> command \<Rightarrow> runner \<Rightarrow> (stream_in \<times> runner) py" where
  "choose_stdin w verbose c r =
     (if piping r
      then (if piped_commands r = [] then Inl IndexError
            else Inr (InPipeFrom (last (piped_commands r)), r))
      else case cmd_stdin c of
        Some f \<Rightarrow>
          if can_open w f
          then Inr (InFile f,
                 (emit [OpenRead f] (show_part verbose (''< '' @ f) r))
                   \<lparr>files_to_close := files_to_close r @ [Opened f]\<rparr>)
          else Inl IOError
      | None \<Rightarrow> Inr (InInherit, r))"

definition choose_stdout :: "os \<Rightarrow> bool \<Rightarrow> command \<Rightarrow> runner \<Rightarrow> (stream_out \<times> runner) py" where
  "choose_stdout w verbose c r =
     (case cmd_stdout c of
        NoRedirect \<Rightarrow> Inr (OutInherit, r)
      | ToPIPE \<Rightarrow> Inr (OutPIPE, r)
      | ToSTDOUT \<Rightarrow> Inl TypeError
      | ToFile f \<Rightarrow>
          py_bind (open_out_file w f r) (\<lambda>(s, r). Inr (s, show_part verbose (''> '' @ f) r)))"

definition choose_stderr :: "os \<Rightarrow> bool \<Rightarrow> command \<Rightarrow> runner \<Rightarrow> (stream_out \<times> runner) py" where
  "choose_stderr w verbose c r =
     (case cmd_stderr c of
        NoRedirect \<Rightarrow> Inr (OutInherit, r)
      | ToPIPE \<Rightarrow> Inr (OutPIPE, r)
      | ToSTDOUT \<Rightarrow> Inr (OutSTDOUT, show_part verbose ''2>&1'' r)
      | ToFile f \<Rightarrow>
          py_bind (open_out_file w f r) (\<lambda>(s, r). Inr (s, show_part verbose (''2> '' @ f) r)))"

definition show_command :: "bool \<Rightarrow> command \<Rightarrow> runner \<Rightarrow> runner" where
  "show_command verbose c r =
     show_part verbose
       (if cmd_env_vars c \<noteq> []
        then py_join '' '' (map (\<lambda>(k, v). k @ ''='' @ v) (cmd_env_vars c)) @ '' '' @ py_join '' '' (cmd_argv c)
        else py_join '' '' (cmd_argv c)) r"

text \<open>The part of the loop body that starts one command.\<close>

definition spawn :: "os \<Rightarrow> bool \<Rightarrow> command \<Rightarrow> runner \<Rightarrow> runner py" where
  "spawn w verbose c r =
     py_bind (choose_stdin w verbose c (show_command verbose c r)) (\<lambda>(stdin, r).
     py_bind (choose_stdout w verbose c r) (\<lambda>(stdout, r).
     py_bind (choose_stderr w verbose c r) (\<lambda>(stderr, r).
       let p = \<lparr>p_argv = cmd_argv c, p_stdin = stdin, p_stdout = stdout, p_stderr = stderr,
                p_env = (if cmd_env_vars c \<noteq> []
                         then Some (foldl (\<lambda>d (k, v). AList.update k v d) (environ w) (cmd_env_vars c))
                         else None),
                p_cwd = (if cwd r = ''.'' then None else Some (cwd r))\<rparr>
       in if can_spawn w p
          then Inr ((emit [Popen p] r)
                 \<lparr>piped_commands := piped_commands r @ [nprocs r], nprocs := Suc (nprocs r)\<rparr>)
          else Inl OSError)))"

text \<open>\<open>_exec_piped_commands\<close>: all processes are waited for, in order.\<close>

definition exec_piped_commands :: "os \<Rightarrow> nat list \<Rightarrow> int" where
  "exec_piped_commands w pids =
     (let retvals = map (exit_code w) pids
      in case find (\<lambda>r. r \<noteq> 0) retvals of None \<Rightarrow> 0 | Some _ \<Rightarrow> last retvals)"

definition close_files :: "runner \<Rightarrow> runner" where
  "close_files r =
     (emit (concat (map (\<lambda>f. case f of DevNull \<Rightarrow> [] | Opened n \<Rightarrow> [Close n]) (files_to_close r))) r)
       \<lparr>files_to_close := []\<rparr>"

definition finish_group :: "os \<Rightarrow> runner \<Rightarrow> int \<times> runner" where
  "finish_group w r =
     (exec_piped_commands w (piped_commands r),
      close_files (emit (map Wait (piped_commands r)) r))"

definition reset_group :: "runner \<Rightarrow> runner" where
  "reset_group r = r\<lparr>piping := False, piped_commands := [], piped_commands_display := []\<rparr>"

text \<open>
  The loop of \<open>run\<close>. With \<open>verbose\<close> the branches of the two operators print the variable
  \<open>retval\<close>, which no path has assigned at that point. A loop that runs out of nodes
  returns \<open>None\<close>.
\<close>

fun run_loop :: "os \<Rightarrow> bool \<Rightarrow> runner \<Rightarrow> node list \<Rightarrow> (int option \<times> runner) py" where
  "run_loop w verbose r [] = Inr (None, r)"
| "run_loop w verbose r [Chdir d] = Inl IndexError"
| "run_loop w verbose r (Chdir d # n # ns) =
     (if n = And
      then (case d of
              None \<Rightarrow> Inl AttributeError
            | Some dir \<Rightarrow>
                run_loop w verbose
                  (show_part verbose (''cd '' @ dir @ '' &&'') (r\<lparr>cwd := path_join (cwd r) dir\<rparr>)) ns)
      else Inl AssertionError)"
| "run_loop w verbose r [Command c] =
     py_bind (spawn w verbose c r) (\<lambda>r.
       case finish_group w r of (retval, r) \<Rightarrow>
         Inr (Some retval,
              if verbose
              then emit [Print (py_join '' '' (piped_commands_display r) @ '': exit code '' @ str_int retval)] r
              else r))"
| "run_loop w verbose r (Command c # n # ns) =
     py_bind (spawn w verbose c r) (\<lambda>r.
       case n of
         Pipe \<Rightarrow> run_loop w verbose
                   (r\<lparr>piping := True, piped_commands_display := piped_commands_display r @ [''|'']\<rparr>) ns
       | Or \<Rightarrow>
           (case finish_group w r of (this_retval, r) \<Rightarrow>
              if verbose then Inl UnboundLocalError
              else if this_retval = 0 then Inr (Some this_retval, r)
              else run_loop w verbose (reset_group r) ns)
       | And \<Rightarrow>
           (case finish_group w r of (this_retval, r) \<Rightarrow>
              if verbose then Inl UnboundLocalError
              else if this_retval \<noteq> 0 then Inr (Some this_retval, r)
              else run_loop w verbose (reset_group r) ns)
       | _ \<Rightarrow> run_loop w verbose r ns)"
| "run_loop w verbose r (_ # ns) = Inl AssertionError"

definition init_runner :: runner where
  "init_runner = \<lparr>files_to_close = [], piped_commands = [], piped_commands_display = [],
     piping = False, cwd = ''.'', nprocs = 0, events = []\<rparr>"

definition run :: "os \<Rightarrow> node list \<Rightarrow> bool \<Rightarrow> (int option \<times> event list) py" where
  "run w ns verbose =
     py_bind (run_loop w verbose init_runner ns) (\<lambda>(retval, r). Inr (retval, events r))"

section \<open>Well-formed pipelines\<close>

text \<open>
  Complete clauses: an operand with the operator that follows it. The output of a command
  is a pipe exactly when the operator is one, and a directory change stands before \<open>&&\<close>.
\<close>

fun wf_ops :: "node list \<Rightarrow> bool" where
  "wf_ops [] = True"
| "wf_ops (Command c # Pipe # ns) = (cmd_stdout c = ToPIPE \<and> wf_ops ns)"
| "wf_ops (Command c # And # ns) = (cmd_stdout c \<noteq> ToPIPE \<and> wf_ops ns)"
| "wf_ops (Command c # Or # ns) = (cmd_stdout c \<noteq> ToPIPE \<and> wf_ops ns)"
| "wf_ops (Chdir d # And # ns) = wf_ops ns"
| "wf_ops _ = False"

fun last_operand :: "node \<Rightarrow> bool" where
  "last_operand (Command c) = (cmd_stdout c \<noteq> ToPIPE)"
| "last_operand (Chdir d) = True"
| "last_operand _ = False"

definition wf_pipeline :: "node list \<Rightarrow> bool" where
  "wf_pipeline ns \<longleftrightarrow> ns \<noteq> [] \<and> wf_ops (butlast ns) \<and> last_operand (last ns)"

lemma wf_ops_append: "wf_ops ns \<Longrightarrow> wf_ops [a, op] \<Longrightarrow> wf_ops (ns @ [a, op])"
  by (induction ns rule: wf_ops.induct) simp_all

text \<open>The tokens with a meaning of their own after the name of a command.\<close>

definition operator_token :: "string \<Rightarrow> bool" where
  "operator_token t \<longleftrightarrow> t \<in> set [''>'', ''2>'', ''2>&1'', ''<'', ''|'', ''&&'', ''||'']"

definition env_ok :: "(string, string) dict \<Rightarrow> bool" where
  "env_ok env \<longleftrightarrow> dict_ok env \<and> (\<forall>(k, v) \<in> set env. env_var_rx (k @ ''='' @ v) = Some (k, v))"

definition command_ok :: "command \<Rightarrow> bool" where
  "command_ok c \<longleftrightarrow>
     env_ok (cmd_env_vars c) \<and> env_var_rx (cmd_name c) = None \<and> cmd_name c \<noteq> ''cd'' \<and>
     cmd_argv c \<noteq> [] \<and> hd (cmd_argv c) = cmd_name c \<and>
     list_all (\<lambda>t. \<not> operator_token t) (tl (cmd_argv c)) \<and>
     cmd_stdout c \<noteq> ToSTDOUT \<and> cmd_stderr c \<noteq> ToPIPE"

fun node_ok :: "node \<Rightarrow> bool" where
  "node_ok (Command c) = command_ok c"
| "node_ok (Chdir d) = (d \<noteq> Some ''&&'')"
| "node_ok _ = True"

definition parser_ok :: "parser \<Rightarrow> bool" where
  "parser_ok p \<longleftrightarrow>
     wf_ops (pipeline p) \<and> list_all node_ok (pipeline p) \<and> env_ok (env_vars p) \<and>
     (case state p of
        BEGIN \<Rightarrow> current_command p = None
      | CHDIR \<Rightarrow> (\<exists>d. current_command p = Some (Chdir d) \<and> d \<noteq> Some ''&&'') \<and> env_vars p = []
      | _ \<Rightarrow> (\<exists>c. current_command p = Some (Command c) \<and> command_ok c \<and> cmd_stdout c \<noteq> ToPIPE) \<and>
              env_vars p = [])"

lemma env_var_rx_stored:
  assumes "env_var_rx t = Some (k, v)"
  shows "env_var_rx (k @ ''='' @ v) = Some (k, v)"
proof -
  from assms have k: "k \<noteq> []" "list_all word_char k" and v: "v \<noteq> []" "list_all (\<lambda>c. \<not> is_space c) v"
    and kt: "k = takeWhile (\<lambda>c. c \<noteq> CHR ''='') t"
    by (auto simp: env_var_rx_def Let_def split: if_splits)
  have tw: "takeWhile (\<lambda>c. c \<noteq> CHR ''='') (k @ ''='' @ v) = k"
    by (subst takeWhile_append2) (auto simp: kt dest: set_takeWhileD)
  have "\<not> is_space (last v)" using v by (simp add: list_all_iff)
  then have "last v \<noteq> CHR 0x0A" by (auto simp: is_space_def)
  with k v show ?thesis
    by (simp add: env_var_rx_def Let_def tw [simplified])
qed

lemma env_ok_update:
  "env_ok env \<Longrightarrow> env_var_rx t = Some (k, v) \<Longrightarrow> env_ok (AList.update k v env)"
  using set_update_subset [of k v env] env_var_rx_stored [of t k v] by (auto simp: env_ok_def)

lemma env_ok_Nil [simp]: "env_ok []"
  by (simp add: env_ok_def)

lemmas step_defs = parse_step_def step_begin_def step_command_def step_chdir_def step_redirect_def
  append_op_def commit_command_def the_command_def set_command_def py_assert_def new_command_def

lemmas parser_simps = parser_ok_def step_defs

lemma step_begin_ok:
  assumes "parser_ok p" "state p = BEGIN"
  shows "step_begin p t = Inr p' \<Longrightarrow> parser_ok p'" "step_begin p t = Inl e \<Longrightarrow> e = AssertionError"
  using assms by (auto simp: parser_simps command_ok_def env_ok_update Let_def split: option.splits if_splits)

lemma append_op_ok:
  assumes "wf_ops (pipeline p)" "list_all node_ok (pipeline p)" "env_vars p = []"
    "current_command p = Some n" "node_ok n" "wf_ops [n, op]" "node_ok op"
  shows "append_op op p = Inr p' \<Longrightarrow> parser_ok p'" "append_op op p \<noteq> Inl e"
  using assms by (auto simp: parser_ok_def append_op_def commit_command_def wf_ops_append)

lemma step_chdir_ok:
  assumes "parser_ok p" "state p = CHDIR"
  shows "step_chdir p t = Inr p' \<Longrightarrow> parser_ok p'" "step_chdir p t = Inl e \<Longrightarrow> e = AssertionError"
proof -
  from assms obtain d where d: "current_command p = Some (Chdir d)" "d \<noteq> Some ''&&''"
    and p: "wf_ops (pipeline p)" "list_all node_ok (pipeline p)" "env_vars p = []"
    by (auto simp: parser_ok_def)
  note app = append_op_ok [OF p d(1), of And]
  show "step_chdir p t = Inr p' \<Longrightarrow> parser_ok p'"
    using app d p assms(2) by (auto simp: step_chdir_def py_assert_def parser_ok_def split: if_splits)
  show "step_chdir p t = Inl e \<Longrightarrow> e = AssertionError"
    using app d by (auto simp: step_chdir_def py_assert_def split: if_splits)
qed

lemma in_command:
  assumes "parser_ok p" "state p \<noteq> BEGIN" "state p \<noteq> CHDIR"
  obtains c where "current_command p = Some (Command c)" "command_ok c" "cmd_stdout c \<noteq> ToPIPE"
    "wf_ops (pipeline p)" "list_all node_ok (pipeline p)" "env_vars p = []" "the_command p = Inr c"
  using assms by (cases "state p") (auto simp: parser_ok_def the_command_def)

lemma set_command_ok:
  assumes "wf_ops (pipeline p)" "list_all node_ok (pipeline p)" "env_vars p = []"
    "command_ok c" "cmd_stdout c \<noteq> ToPIPE"
  shows "set_command c COMMAND p = Inr p' \<Longrightarrow> parser_ok p'"
  using assms by (auto simp: set_command_def parser_ok_def)

lemma step_redirect_ok:
  assumes "parser_ok p" "state p \<noteq> BEGIN" "state p \<noteq> CHDIR"
  shows "step_redirect p t = Inr p' \<Longrightarrow> parser_ok p'"
    "step_redirect p t = Inl e \<Longrightarrow> e = AssertionError"
proof -
  obtain c where c: "command_ok c" "cmd_stdout c \<noteq> ToPIPE" and p: "wf_ops (pipeline p)"
    "list_all node_ok (pipeline p)" "env_vars p = []" and t: "the_command p = Inr c"
    using in_command [OF assms] by metis
  show "step_redirect p t = Inr p' \<Longrightarrow> parser_ok p'"
    using c t p by (auto simp: step_redirect_def py_assert_def command_ok_def set_command_def parser_ok_def
        split: parse_state.splits if_splits)
  show "step_redirect p t = Inl e \<Longrightarrow> e = AssertionError"
    using t by (auto simp: step_redirect_def py_assert_def set_command_def
        split: parse_state.splits if_splits)
qed

lemma step_command_ok:
  assumes "parser_ok p" "state p = COMMAND"
  shows "step_command p t = Inr p' \<Longrightarrow> parser_ok p'"
    "step_command p t = Inl e \<Longrightarrow> e = AssertionError"
proof -
  obtain c where cc: "current_command p = Some (Command c)" and c: "command_ok c" "cmd_stdout c \<noteq> ToPIPE"
    and p: "wf_ops (pipeline p)" "list_all node_ok (pipeline p)" "env_vars p = []"
    and t: "the_command p = Inr c"
    using in_command [OF assms(1)] assms(2) by auto
  have app: "append_op op p = Inr p' \<Longrightarrow> parser_ok p'" "append_op op p \<noteq> Inl e"
    if "op \<in> {And, Or}" for op p' e
    using append_op_ok(1) [OF p cc, of op p'] append_op_ok(2) [OF p cc, of op e] that c by auto
  have pipe: "append_op Pipe (p\<lparr>current_command := Some (Command (c\<lparr>cmd_stdout := ToPIPE\<rparr>)), state := COMMAND\<rparr>) = Inr p'
      \<Longrightarrow> parser_ok p'"
    "append_op Pipe (p\<lparr>current_command := Some (Command (c\<lparr>cmd_stdout := ToPIPE\<rparr>)), state := COMMAND\<rparr>) \<noteq> Inl e"
    for p' e
    using append_op_ok [of "p\<lparr>current_command := Some (Command (c\<lparr>cmd_stdout := ToPIPE\<rparr>)), state := COMMAND\<rparr>"
        "Command (c\<lparr>cmd_stdout := ToPIPE\<rparr>)" Pipe] c p
    by (simp_all add: command_ok_def)
  have arg: "parser_ok p'" if "set_command (c\<lparr>cmd_argv := cmd_argv c @ [t]\<rparr>) COMMAND p = Inr p'" "\<not> operator_token t"
    using that c by (intro set_command_ok [OF p _ _ that(1)]) (auto simp: command_ok_def)
  have err: "parser_ok p'" if "set_command (c\<lparr>cmd_stderr := ToSTDOUT\<rparr>) COMMAND p = Inr p'"
    using c by (intro set_command_ok [OF p _ _ that]) (auto simp: command_ok_def)
  show "step_command p t = Inr p' \<Longrightarrow> parser_ok p'"
    using app pipe arg err t assms cc c p
    by (auto simp: step_command_def py_assert_def operator_token_def parser_ok_def [of "p\<lparr>state := _\<rparr>"]
        set_command_def split: if_splits)
  show "step_command p t = Inl e \<Longrightarrow> e = AssertionError"
    using app(2) pipe(2) t by (auto simp: step_command_def py_assert_def set_command_def split: if_splits)
qed

lemma parse_step_ok:
  assumes "parser_ok p"
  shows "parse_step p t = Inr p' \<Longrightarrow> parser_ok p'" "parse_step p t = Inl e \<Longrightarrow> e = AssertionError"
  using step_begin_ok [OF assms] step_chdir_ok [OF assms] step_command_ok [OF assms]
    step_redirect_ok [OF assms]
  by (cases "state p"; simp add: parse_step_def)+

interpretation shell_parser: guarded_run parse_step parser_ok "\<lambda>e. e = AssertionError"
  by unfold_locales (auto dest: parse_step_ok)

lemma init_parser_ok: "parser_ok init_parser"
  by (simp add: parser_ok_def init_parser_def)

lemma parse_tokens_Inr:
  assumes "parse_tokens ts = Inr ns"
  shows "wf_pipeline ns \<and> list_all node_ok ns"
proof -
  from assms obtain p where r: "run_steps parse_step init_parser ts = Inr p"
    and c: "py_bind (commit_command p) (\<lambda>p. Inr (pipeline p)) = Inr ns"
    by (auto simp: parse_tokens_def)
  have ok: "parser_ok p" by (rule shell_parser.run_inv [OF init_parser_ok r])
  from c obtain n where n: "current_command p = Some n" "ns = pipeline p @ [n]"
    by (auto simp: commit_command_def split: option.splits)
  with ok show ?thesis
    by (cases "state p") (auto simp: parser_ok_def wf_pipeline_def)
qed

lemma parse_tokens_Inl:
  assumes "parse_tokens ts = Inl e"
  shows "e = AssertionError"
  using assms shell_parser.run_err [OF init_parser_ok, of ts e]
  by (auto simp: parse_tokens_def py_bind_eq_Inl commit_command_def split: option.splits)

section \<open>Printing a pipeline\<close>

definition print_command :: "command \<Rightarrow> string list" where
  "print_command c =
     map (\<lambda>(k, v). k @ ''='' @ v) (cmd_env_vars c) @ cmd_argv c @
     (case cmd_stdin c of None \<Rightarrow> [] | Some f \<Rightarrow> [''<'', f]) @
     (case cmd_stdout c of ToFile f \<Rightarrow> [''>'', f] | _ \<Rightarrow> []) @
     (case cmd_stderr c of ToFile f \<Rightarrow> [''2>'', f] | ToSTDOUT \<Rightarrow> [''2>&1''] | _ \<Rightarrow> [])"

fun print_node :: "node \<Rightarrow> string list" where
  "print_node (Command c) = print_command c"
| "print_node (Chdir d) = ''cd'' # (case d of None \<Rightarrow> [] | Some s \<Rightarrow> [s])"
| "print_node Pipe = [''|'']"
| "print_node And = [''&&'']"
| "print_node Or = [''||'']"

definition print_pipeline :: "node list \<Rightarrow> string list" where
  "print_pipeline ns = concat (map print_node ns)"

definition at_begin :: "parser \<Rightarrow> bool" where
  "at_begin p \<longleftrightarrow> state p = BEGIN \<and> current_command p = None \<and> env_vars p = []"

lemma parse_env:
  "state p = BEGIN \<Longrightarrow> env_ok (env_vars p @ env) \<Longrightarrow>
   run_steps parse_step p (map (\<lambda>(k, v). k @ ''='' @ v) env) = Inr (p\<lparr>env_vars := env_vars p @ env\<rparr>)"
proof (induction env arbitrary: p)
  case Nil
  then show ?case by simp
next
  case (Cons kv env)
  obtain k v where kv: "kv = (k, v)" by force
  have "env_var_rx (k @ ''='' @ v) = Some (k, v)" "k \<notin> fst ` set (env_vars p)"
    using Cons.prems(2) kv by (auto simp: env_ok_def dict_ok_def)
  then have "parse_step p (k @ ''='' @ v) = Inr (p\<lparr>env_vars := env_vars p @ [(k, v)]\<rparr>)"
    using Cons.prems(1) by (simp add: parse_step_def step_begin_def update_new)
  then show ?case
    using Cons.IH [of "p\<lparr>env_vars := env_vars p @ [(k, v)]\<rparr>"] Cons.prems kv by simp
qed

lemma parse_name:
  assumes "state p = BEGIN" "current_command p = None" "env_var_rx name = None" "name \<noteq> ''cd''"
  shows "parse_step p name =
    Inr (p\<lparr>state := COMMAND, env_vars := [],
           current_command := Some (Command (new_command name\<lparr>cmd_env_vars := env_vars p\<rparr>))\<rparr>)"
  using assms by (auto simp: step_defs Let_def)

lemma parse_args:
  "state p = COMMAND \<Longrightarrow> current_command p = Some (Command c) \<Longrightarrow> list_all (\<lambda>t. \<not> operator_token t) ts \<Longrightarrow>
   run_steps parse_step p ts = Inr (p\<lparr>current_command := Some (Command (c\<lparr>cmd_argv := cmd_argv c @ ts\<rparr>))\<rparr>)"
proof (induction ts arbitrary: p c)
  case Nil
  then show ?case by simp
next
  case (Cons t ts)
  then have "parse_step p t = Inr (p\<lparr>current_command := Some (Command (c\<lparr>cmd_argv := cmd_argv c @ [t]\<rparr>))\<rparr>)"
    by (simp add: step_defs operator_token_def)
  then show ?case
    using Cons.IH [of "p\<lparr>current_command := Some (Command (c\<lparr>cmd_argv := cmd_argv c @ [t]\<rparr>))\<rparr>"
        "c\<lparr>cmd_argv := cmd_argv c @ [t]\<rparr>"] Cons.prems
    by simp
qed

lemma parse_redirects:
  assumes "state p = COMMAND" "current_command p = Some (Command c)"
    "cmd_stdin c = None" "cmd_stdout c = NoRedirect" "cmd_stderr c = NoRedirect"
    "so \<noteq> ToSTDOUT" "so \<noteq> ToPIPE" "se \<noteq> ToPIPE"
  shows "run_steps parse_step p
      ((case si of None \<Rightarrow> [] | Some f \<Rightarrow> [''<'', f]) @
       (case so of ToFile f \<Rightarrow> [''>'', f] | _ \<Rightarrow> []) @
       (case se of ToFile f \<Rightarrow> [''2>'', f] | ToSTDOUT \<Rightarrow> [''2>&1''] | _ \<Rightarrow> [])) =
    Inr (p\<lparr>current_command := Some (Command (c\<lparr>cmd_stdin := si, cmd_stdout := so, cmd_stderr := se\<rparr>))\<rparr>)"
  using assms by (cases si; cases so; cases se) (simp_all add: step_defs)

lemma parse_printed_command:
  assumes p: "at_begin p" and c: "command_ok c" "cmd_stdout c \<noteq> ToPIPE"
  shows "run_steps parse_step p (print_command c) =
    Inr (p\<lparr>state := COMMAND, current_command := Some (Command c)\<rparr>)"
proof -
  let ?e = "p\<lparr>env_vars := cmd_env_vars c\<rparr>"
  let ?c0 = "new_command (cmd_name c)\<lparr>cmd_env_vars := cmd_env_vars c\<rparr>"
  let ?p1 = "p\<lparr>state := COMMAND, env_vars := [], current_command := Some (Command ?c0)\<rparr>"
  let ?c1 = "?c0\<lparr>cmd_argv := cmd_argv c\<rparr>"
  let ?p2 = "?p1\<lparr>current_command := Some (Command ?c1)\<rparr>"
  obtain args where argv: "cmd_argv c = cmd_name c # args" "list_all (\<lambda>t. \<not> operator_token t) args"
    using c(1) by (cases "cmd_argv c") (auto simp: command_ok_def)
  have 1: "run_steps parse_step p (map (\<lambda>(k, v). k @ ''='' @ v) (cmd_env_vars c)) = Inr ?e"
    using parse_env [of p "cmd_env_vars c"] p c(1) by (simp add: at_begin_def command_ok_def)
  have 2: "parse_step ?e (cmd_name c) = Inr ?p1"
    using parse_name [of ?e "cmd_name c"] p c(1) by (simp add: at_begin_def command_ok_def)
  have 3: "run_steps parse_step ?p1 args = Inr ?p2"
    using parse_args [of ?p1 ?c0 args] argv by (simp add: new_command_def)
  have "?c1\<lparr>cmd_stdin := cmd_stdin c, cmd_stdout := cmd_stdout c, cmd_stderr := cmd_stderr c\<rparr> = c"
    by (simp add: new_command_def)
  with parse_redirects [of ?p2 ?c1 "cmd_stdout c" "cmd_stderr c" "cmd_stdin c"] c
  have 4: "run_steps parse_step ?p2
      ((case cmd_stdin c of None \<Rightarrow> [] | Some f \<Rightarrow> [''<'', f]) @
       (case cmd_stdout c of ToFile f \<Rightarrow> [''>'', f] | _ \<Rightarrow> []) @
       (case cmd_stderr c of ToFile f \<Rightarrow> [''2>'', f] | ToSTDOUT \<Rightarrow> [''2>&1''] | _ \<Rightarrow> [])) =
      Inr (?p2\<lparr>current_command := Some (Command c)\<rparr>)"
    by (simp add: new_command_def command_ok_def)
  have "?p2\<lparr>current_command := Some (Command c)\<rparr> = p\<lparr>state := COMMAND, current_command := Some (Command c)\<rparr>"
    using p by (cases p) (simp add: at_begin_def)
  moreover have "print_command c = map (\<lambda>(k, v). k @ ''='' @ v) (cmd_env_vars c) @ [cmd_name c] @ args @
      ((case cmd_stdin c of None \<Rightarrow> [] | Some f \<Rightarrow> [''<'', f]) @
       (case cmd_stdout c of ToFile f \<Rightarrow> [''>'', f] | _ \<Rightarrow> []) @
       (case cmd_stderr c of ToFile f \<Rightarrow> [''2>'', f] | ToSTDOUT \<Rightarrow> [''2>&1''] | _ \<Rightarrow> []))"
    by (simp add: print_command_def argv(1))
  ultimately show ?thesis
    by (simp only: run_steps_append [of _ _ "map _ _"] run_steps_append [of _ _ "[_]"] run_steps_append [of _ _ args]
        1 run_steps.simps py_bind_simps 2 3 4)
qed

lemma parse_printed_ops:
  "wf_ops ns \<Longrightarrow> list_all node_ok ns \<Longrightarrow> at_begin p \<Longrightarrow>
   run_steps parse_step p (print_pipeline ns) = Inr (p\<lparr>pipeline := pipeline p @ ns\<rparr>)"
proof (induction ns arbitrary: p rule: wf_ops.induct)
  case (2 c ns)
  let ?c = "c\<lparr>cmd_stdout := NoRedirect\<rparr>"
  let ?p = "p\<lparr>state := COMMAND, current_command := Some (Command ?c)\<rparr>"
  have pc: "print_command c = print_command ?c" using 2 by (simp add: print_command_def)
  have 1: "run_steps parse_step p (print_command ?c) = Inr ?p"
    using 2 by (intro parse_printed_command) (simp_all add: command_ok_def)
  have "c\<lparr>cmd_stdout := ToPIPE\<rparr> = c" using 2 by simp
  then have "parse_step ?p ''|'' = Inr (p\<lparr>pipeline := pipeline p @ [Command c, Pipe]\<rparr>)"
    using 2(4) by (simp add: step_defs at_begin_def)
  with 2 1 show ?case
    by (simp add: print_pipeline_def run_steps_append pc at_begin_def)
next
  case (3 c ns)
  have 1: "run_steps parse_step p (print_command c) = Inr (p\<lparr>state := COMMAND, current_command := Some (Command c)\<rparr>)"
    using 3 by (intro parse_printed_command) simp_all
  have "parse_step (p\<lparr>state := COMMAND, current_command := Some (Command c)\<rparr>) ''&&'' =
      Inr (p\<lparr>pipeline := pipeline p @ [Command c, And]\<rparr>)"
    using 3(4) by (simp add: step_defs at_begin_def)
  with 3 1 show ?case
    by (simp add: print_pipeline_def run_steps_append at_begin_def)
next
  case (4 c ns)
  have 1: "run_steps parse_step p (print_command c) = Inr (p\<lparr>state := COMMAND, current_command := Some (Command c)\<rparr>)"
    using 4 by (intro parse_printed_command) simp_all
  have "parse_step (p\<lparr>state := COMMAND, current_command := Some (Command c)\<rparr>) ''||'' =
      Inr (p\<lparr>pipeline := pipeline p @ [Command c, Or]\<rparr>)"
    using 4(4) by (simp add: step_defs at_begin_def)
  with 4 1 show ?case
    by (simp add: print_pipeline_def run_steps_append at_begin_def)
next
  case (5 d ns)
  have "run_steps parse_step p (print_node (Chdir d) @ [''&&'']) =
      Inr (p\<lparr>pipeline := pipeline p @ [Chdir d, And]\<rparr>)"
    using 5(3,4) by (cases d) (simp_all add: step_defs at_begin_def env_var_rx_def)
  moreover have "print_pipeline (Chdir d # And # ns) = (print_node (Chdir d) @ [''&&'']) @ print_pipeline ns"
    by (simp add: print_pipeline_def)
  moreover have "run_steps parse_step (p\<lparr>pipeline := pipeline p @ [Chdir d, And]\<rparr>) (print_pipeline ns) =
      Inr (p\<lparr>pipeline := pipeline p @ Chdir d # And # ns\<rparr>)"
    using 5 by (simp add: at_begin_def)
  ultimately show ?case
    by (simp only: run_steps_append [of _ _ "print_node (Chdir d) @ [''&&'']"] py_bind_simps)
qed (simp_all add: print_pipeline_def)

lemma parse_printed_operand:
  "last_operand n \<Longrightarrow> node_ok n \<Longrightarrow> at_begin p \<Longrightarrow>
   \<exists>q. run_steps parse_step p (print_node n) = Inr q \<and> current_command q = Some n \<and> pipeline q = pipeline p"
proof (induction n rule: last_operand.induct)
  case (1 c)
  then show ?case by (simp add: parse_printed_command)
next
  case (2 d)
  then show ?case by (cases d) (simp_all add: step_defs at_begin_def env_var_rx_def)
qed simp_all

lemma parse_printed:
  assumes "wf_pipeline ns" "list_all node_ok ns"
  shows "parse_tokens (print_pipeline ns) = Inr ns"
proof -
  obtain ms n where ns: "ns = ms @ [n]" "wf_ops ms" "last_operand n" "list_all node_ok ms" "node_ok n"
    using assms by (cases ns rule: rev_cases) (auto simp: wf_pipeline_def)
  let ?p = "init_parser\<lparr>pipeline := ms\<rparr>"
  have 1: "run_steps parse_step init_parser (print_pipeline ms) = Inr ?p"
    using parse_printed_ops [OF ns(2,4), of init_parser] by (simp add: at_begin_def init_parser_def)
  obtain q where "run_steps parse_step ?p (print_node n) = Inr q" "current_command q = Some n" "pipeline q = ms"
    using parse_printed_operand [OF ns(3,5), of ?p] by (auto simp: at_begin_def init_parser_def)
  with 1 show ?thesis
    by (simp add: parse_tokens_def print_pipeline_def ns(1) run_steps_append commit_command_def)
qed

section \<open>What a run leaves behind\<close>

definition opened :: "event list \<Rightarrow> string list" where
  "opened ev = concat (map (\<lambda>e. case e of OpenRead f \<Rightarrow> [f] | OpenWrite f \<Rightarrow> [f] | _ \<Rightarrow> []) ev)"

definition closed :: "event list \<Rightarrow> string list" where
  "closed ev = concat (map (\<lambda>e. case e of Close f \<Rightarrow> [f] | _ \<Rightarrow> []) ev)"

definition waited :: "event list \<Rightarrow> nat list" where
  "waited ev = concat (map (\<lambda>e. case e of Wait k \<Rightarrow> [k] | _ \<Rightarrow> []) ev)"

definition spawned :: "event list \<Rightarrow> popen list" where
  "spawned ev = concat (map (\<lambda>e. case e of Popen p \<Rightarrow> [p] | _ \<Rightarrow> []) ev)"

definition pending_files :: "py_file list \<Rightarrow> string list" where
  "pending_files fs = concat (map (\<lambda>f. case f of DevNull \<Rightarrow> [] | Opened n \<Rightarrow> [n]) fs)"

lemmas event_views = opened_def closed_def waited_def spawned_def pending_files_def

lemma event_views_simps [simp]:
  "opened [] = []" "closed [] = []" "waited [] = []" "spawned [] = []" "pending_files [] = []"
  "opened (e # ev) = (case e of OpenRead f \<Rightarrow> [f] | OpenWrite f \<Rightarrow> [f] | _ \<Rightarrow> []) @ opened ev"
  "closed (e # ev) = (case e of Close f \<Rightarrow> [f] | _ \<Rightarrow> []) @ closed ev"
  "waited (e # ev) = (case e of Wait k \<Rightarrow> [k] | _ \<Rightarrow> []) @ waited ev"
  "spawned (e # ev) = (case e of Popen p \<Rightarrow> [p] | _ \<Rightarrow> []) @ spawned ev"
  "pending_files (f # fs) = (case f of DevNull \<Rightarrow> [] | Opened n \<Rightarrow> [n]) @ pending_files fs"
  "opened (a @ b) = opened a @ opened b" "closed (a @ b) = closed a @ closed b"
  "waited (a @ b) = waited a @ waited b" "spawned (a @ b) = spawned a @ spawned b"
  "pending_files (fs @ gs) = pending_files fs @ pending_files gs"
  by (simp_all add: event_views)

definition run_inv :: "runner \<Rightarrow> bool" where
  "run_inv r \<longleftrightarrow>
     mset (opened (events r)) = mset (closed (events r)) + mset (pending_files (files_to_close r)) \<and>
     waited (events r) @ piped_commands r = [0..<nprocs r] \<and>
     length (spawned (events r)) = nprocs r"

definition run_clean :: "event list \<Rightarrow> bool" where
  "run_clean ev \<longleftrightarrow>
     mset (opened ev) = mset (closed ev) \<and> waited ev = [0..<length (spawned ev)]"

definition run_done :: "runner \<Rightarrow> bool" where
  "run_done r \<longleftrightarrow> run_clean (events r) \<and> nprocs r = length (spawned (events r))"

lemma open_out_file_inv:
  "open_out_file w f r = Inr (s, r') \<Longrightarrow> run_inv r \<Longrightarrow> run_inv r'"
  by (auto simp: open_out_file_def run_inv_def emit_def split: if_splits)

lemma show_part_fields [simp]:
  "run_inv (show_part v s r) = run_inv r" "piped_commands (show_part v s r) = piped_commands r"
  "nprocs (show_part v s r) = nprocs r" "piping (show_part v s r) = piping r"
  "files_to_close (show_part v s r) = files_to_close r" "events (show_part v s r) = events r"
  "cwd (show_part v s r) = cwd r"
  by (simp_all add: show_part_def run_inv_def)

lemma choose_stdin_inv: "choose_stdin w v c r = Inr (s, r') \<Longrightarrow> run_inv r \<Longrightarrow> run_inv r'"
  by (auto simp: choose_stdin_def run_inv_def emit_def split: if_splits option.splits)

lemma choose_stdout_inv: "choose_stdout w v c r = Inr (s, r') \<Longrightarrow> run_inv r \<Longrightarrow> run_inv r'"
  by (auto simp: choose_stdout_def split: redirect.splits intro: open_out_file_inv)

lemma choose_stderr_inv: "choose_stderr w v c r = Inr (s, r') \<Longrightarrow> run_inv r \<Longrightarrow> run_inv r'"
  by (auto simp: choose_stderr_def split: redirect.splits intro: open_out_file_inv)

lemma popen_inv:
  "run_inv r \<Longrightarrow> run_inv ((emit [Popen p] r)\<lparr>piped_commands := piped_commands r @ [nprocs r], nprocs := Suc (nprocs r)\<rparr>)"
  by (simp add: run_inv_def emit_def append.assoc [symmetric] del: append.assoc)

lemma spawn_inv:
  assumes "run_inv r" "spawn w v c r = Inr r'"
  shows "run_inv r'"
proof -
  have r: "run_inv (show_command v c r)" using assms(1) by (simp add: show_command_def)
  from assms(2) obtain si r1 so r2 se r3 p where
    1: "choose_stdin w v c (show_command v c r) = Inr (si, r1)" and
    2: "choose_stdout w v c r1 = Inr (so, r2)" and 3: "choose_stderr w v c r2 = Inr (se, r3)" and
    4: "r' = (emit [Popen p] r3)\<lparr>piped_commands := piped_commands r3 @ [nprocs r3], nprocs := Suc (nprocs r3)\<rparr>"
    by (auto simp: spawn_def Let_def split: if_splits)
  show ?thesis
    unfolding 4 by (intro popen_inv choose_stderr_inv [OF 3] choose_stdout_inv [OF 2] choose_stdin_inv [OF 1] r)
qed

lemma finish_group_clean:
  assumes "run_inv r" "finish_group w r = (rv, r')"
  shows "run_done r'" "run_inv (reset_group r')"
proof -
  have v: "opened (map Wait ps) = []" "closed (map Wait ps) = []" "waited (map Wait ps) = ps"
    "spawned (map Wait ps) = []" for ps
    by (induction ps) simp_all
  have c: "opened cs = []" "closed cs = pending_files fs" "waited cs = []" "spawned cs = []"
    if "cs = concat (map (\<lambda>f. case f of DevNull \<Rightarrow> [] | Opened n \<Rightarrow> [Close n]) fs)" for cs fs
    unfolding that by (induction fs) (simp_all split: py_file.splits)
  note views = c [OF refl] v
  have "run_clean (events r') \<and> nprocs r' = length (spawned (events r')) \<and> files_to_close r' = []"
    using assms by (auto simp: finish_group_def close_files_def emit_def run_inv_def run_clean_def views)
  then show "run_done r'" "run_inv (reset_group r')"
    by (simp_all add: run_done_def reset_group_def run_inv_def run_clean_def)
qed

lemma run_clean_Print: "run_clean (ev @ [Print s]) = run_clean ev"
  by (simp add: run_clean_def)

lemma run_loop_clean:
  "run_inv r \<Longrightarrow> run_loop w v r ns = Inr (Some rv, r') \<Longrightarrow> run_done r'"
proof (induction w v r ns arbitrary: rv r' rule: run_loop.induct)
  case (3 w v r d n ns)
  then show ?case by (auto simp: run_inv_def split: if_splits option.splits)
next
  case (4 w v r c)
  then obtain r1 where r1: "spawn w v c r = Inr r1" by auto
  obtain rv1 r2 where fin: "finish_group w r1 = (rv1, r2)" by force
  have "run_done r2" by (rule finish_group_clean [OF spawn_inv [OF 4(1) r1] fin])
  with 4 r1 fin show ?case by (auto simp: emit_def run_done_def run_clean_Print)
next
  case (5 w v r c n ns)
  from "5.prems"(2) obtain r1 where r1: "spawn w v c r = Inr r1" by auto
  have inv: "run_inv r1" by (rule spawn_inv [OF "5.prems"(1) r1])
  obtain rv1 r2 where fin: "finish_group w r1 = (rv1, r2)" by force
  note clean = finish_group_clean [OF inv fin]
  have "run_inv (r1\<lparr>piping := True, piped_commands_display := d\<rparr>)" for d
    using inv by (simp add: run_inv_def)
  then show ?case
    using "5.IH" "5.prems" r1 inv fin clean by (auto split: node.splits if_splits) metis+
qed simp_all

section \<open>The value of a run\<close>

text \<open>
  A pipeline seen as its groups: the number of piped commands of each, and the operator
  after it. A chain of groups ends with the first group whose status decides its operator.
\<close>

fun groups :: "nat \<Rightarrow> node list \<Rightarrow> (nat \<times> node option) list" where
  "groups k (Chdir d # op # ns) = groups k ns"
| "groups k [Command c] = [(Suc k, None)]"
| "groups k (Command c # op # ns) =
     (if op = Pipe then groups (Suc k) ns else (Suc k, Some op) # groups 0 ns)"
| "groups k _ = []"

text \<open>The status of the chain, and how many processes it has started after \<open>n\<close> earlier ones.\<close>

fun chain_status :: "(nat \<Rightarrow> int) \<Rightarrow> nat \<Rightarrow> (nat \<times> node option) list \<Rightarrow> int option \<times> nat" where
  "chain_status ex n [] = (None, n)"
| "chain_status ex n ((k, op) # gs) =
     (let status = ex (n + k - 1)
      in if op = None \<or> (op = Some And \<and> status \<noteq> 0) \<or> (op = Some Or \<and> status = 0)
         then (Some status, n + k)
         else chain_status ex (n + k) gs)"

definition friendly :: "os \<Rightarrow> bool" where
  "friendly w \<longleftrightarrow> (\<forall>f. can_open w f) \<and> (\<forall>p. can_spawn w p)"

fun runnable :: "node list \<Rightarrow> bool" where
  "runnable [] = True"
| "runnable [Chdir d] = False"
| "runnable (Chdir d # n # ns) = (d \<noteq> None \<and> runnable ns)"
| "runnable [n] = True"
| "runnable (n # op # ns) = runnable ns"

lemma exec_piped_commands_last: "exec_piped_commands w (ps @ [p]) = exit_code w p"
  by (auto simp: exec_piped_commands_def Let_def find_None_iff split: option.splits)

lemma wf_pipeline_Cons2: "wf_pipeline (a # op # ns) \<longleftrightarrow> wf_ops [a, op] \<and> wf_pipeline ns"
proof (cases ns rule: rev_cases)
  case Nil
  then show ?thesis by (cases a) (simp_all add: wf_pipeline_def)
next
  case (snoc ms m)
  then show ?thesis by (cases a; cases op) (simp_all add: wf_pipeline_def)
qed

lemma friendly_open: "friendly w \<Longrightarrow> \<exists>s r'. open_out_file w f r = Inr (s, r') \<and> piping r' = piping r \<and>
   piped_commands r' = piped_commands r \<and> nprocs r' = nprocs r \<and> cwd r' = cwd r"
  by (simp add: open_out_file_def friendly_def emit_def)

lemma show_command_fields [simp]:
  "piped_commands (show_command v c r) = piped_commands r" "nprocs (show_command v c r) = nprocs r"
  "piping (show_command v c r) = piping r"
  by (simp_all only: show_command_def show_part_fields)

lemma friendly_stdin:
  "friendly w \<Longrightarrow> piping r \<longrightarrow> piped_commands r \<noteq> [] \<Longrightarrow>
   \<exists>s r'. choose_stdin w v c r = Inr (s, r') \<and> piping r' = piping r \<and>
     piped_commands r' = piped_commands r \<and> nprocs r' = nprocs r"
  by (cases "cmd_stdin c") (auto simp: choose_stdin_def friendly_def emit_def)

text \<open>The part of \<open>node_ok\<close> that a run depends on; later changes of the arguments keep it.\<close>

fun node_runs :: "node \<Rightarrow> bool" where
  "node_runs (Command c) = (cmd_stdout c \<noteq> ToSTDOUT)"
| "node_runs _ = True"

lemma node_ok_runs: "node_ok n \<Longrightarrow> node_runs n"
  by (cases n) (simp_all add: command_ok_def)

lemma spawn_friendly:
  assumes "friendly w" "piping r \<longrightarrow> piped_commands r \<noteq> []" "node_runs (Command c)"
  shows "\<exists>r'. spawn w v c r = Inr r' \<and> piped_commands r' = piped_commands r @ [nprocs r] \<and>
     nprocs r' = Suc (nprocs r) \<and> piping r' = piping r"
proof -
  let ?same = "\<lambda>r' r. piping r' = piping r \<and> piped_commands r' = piped_commands r \<and> nprocs r' = nprocs r"
  let ?r = "show_command v c r"
  obtain si r1 where 1: "choose_stdin w v c ?r = Inr (si, r1)" "?same r1 r"
    using friendly_stdin [OF assms(1), of ?r v c] assms(2) by auto
  obtain so r2 where 2: "choose_stdout w v c r1 = Inr (so, r2)" "?same r2 r1"
    using friendly_open [OF assms(1), where r = r1] assms(3)
    by (cases "cmd_stdout c") (fastforce simp: choose_stdout_def)+
  obtain se r3 where 3: "choose_stderr w v c r2 = Inr (se, r3)" "?same r3 r2"
    using friendly_open [OF assms(1), where r = r2]
    by (cases "cmd_stderr c") (fastforce simp: choose_stderr_def)+
  from 1 2 3 assms(1) show ?thesis
    by (simp add: spawn_def Let_def friendly_def emit_def)
qed

lemma finish_group_fields:
  "finish_group w r = (rv, r') \<Longrightarrow> piped_commands r = ps @ [p] \<Longrightarrow>
   rv = exit_code w p \<and> nprocs r' = nprocs r"
  by (auto simp: finish_group_def exec_piped_commands_last close_files_def emit_def)

lemma run_loop_chain:
  assumes "friendly w" "wf_pipeline ns" "list_all node_runs ns" "runnable ns"
    "piping r \<longrightarrow> piped_commands r \<noteq> []" "length (piped_commands r) = k" "nprocs r = n + k"
  shows "\<exists>r'. run_loop w False r ns = Inr (fst (chain_status (exit_code w) n (groups k ns)), r') \<and>
     nprocs r' = snd (chain_status (exit_code w) n (groups k ns))"
  using assms
proof (induction w False r ns arbitrary: k n rule: run_loop.induct)
  case (3 w r d op ns)
  then have "op = And" by (cases op) (simp_all add: wf_pipeline_Cons2)
  with 3 show ?case by (cases d) (auto simp: wf_pipeline_Cons2)
next
  case (4 w r c)
  then obtain r1 where r1: "spawn w False c r = Inr r1" "piped_commands r1 = piped_commands r @ [nprocs r]"
      "nprocs r1 = Suc (nprocs r)"
    using spawn_friendly [of w r c False] by auto
  obtain rv r2 where fin: "finish_group w r1 = (rv, r2)" by force
  show ?case
    using finish_group_fields [OF fin r1(2)] r1 fin "4.prems" by simp
next
  case (5 w r c op ns)
  have wf: "wf_ops [Command c, op]" "wf_pipeline ns" "cmd_stdout c \<noteq> ToSTDOUT" "list_all node_runs ns" "runnable ns"
    using "5.prems" by (simp_all add: wf_pipeline_Cons2)
  then obtain r1 where r1: "spawn w False c r = Inr r1" "piped_commands r1 = piped_commands r @ [nprocs r]"
      "nprocs r1 = Suc (nprocs r)"
    using spawn_friendly [of w r c False] "5.prems" by auto
  obtain rv r2 where fin: "finish_group w r1 = (rv, r2)" by force
  note rv = finish_group_fields [OF fin r1(2)]
  consider "op = Pipe" | "op = And" | "op = Or"
    using wf(1) by (cases op) simp_all
  then show ?case
  proof cases
    case 1
    then show ?thesis using "5.hyps"(3) [OF 1, of r1 "Suc k" n] "5.prems" wf r1 by simp
  next
    case 2
    then show ?thesis
      using "5.hyps"(4) [OF 2, of rv r2 r1 0 "n + Suc k"] "5.prems" wf r1 rv fin
      by (auto simp: reset_group_def)
  next
    case 3
    then show ?thesis
      using "5.hyps"(5) [OF 3, of rv r2 r1 0 "n + Suc k"] "5.prems" wf r1 rv fin
      by (auto simp: reset_group_def)
  qed
qed (auto simp: wf_pipeline_def split: if_splits)

lemma parse_tokens_runs:
  "parse_tokens ts = Inr ns \<Longrightarrow> wf_pipeline ns \<and> list_all node_runs ns"
  using parse_tokens_Inr by (auto simp: list_all_iff intro: node_ok_runs)

lemma run_chain:
  assumes "friendly w" "wf_pipeline ns" "list_all node_runs ns" "runnable ns"
  shows "\<exists>r. run_loop w False init_runner ns = Inr (fst (chain_status (exit_code w) 0 (groups 0 ns)), r) \<and>
     nprocs r = snd (chain_status (exit_code w) 0 (groups 0 ns))"
  using run_loop_chain [of w ns init_runner 0 0] assms by (simp add: init_runner_def)

lemma run_inv_init: "run_inv init_runner"
  by (simp add: run_inv_def init_runner_def)

lemma chain_status_Some:
  "wf_pipeline ns \<Longrightarrow> runnable ns \<Longrightarrow> \<exists>s m. chain_status ex n (groups k ns) = (Some s, m)"
proof (induction k ns arbitrary: n rule: groups.induct)
  case (3 k c op ns)
  then show ?case by (auto simp: wf_pipeline_Cons2 Let_def)
qed (auto simp: wf_pipeline_Cons2 Let_def, auto simp: wf_pipeline_def split: if_splits)

lemma run_result:
  assumes "friendly w" "wf_pipeline ns" "list_all node_runs ns" "runnable ns"
  shows "\<exists>status m ev. chain_status (exit_code w) 0 (groups 0 ns) = (Some status, m) \<and>
     run w ns False = Inr (Some status, ev) \<and> length (spawned ev) = m"
proof -
  obtain status m where sm: "chain_status (exit_code w) 0 (groups 0 ns) = (Some status, m)"
    using chain_status_Some [OF assms(2,4)] by blast
  then obtain r where r: "run_loop w False init_runner ns = Inr (Some status, r)" "nprocs r = m"
    using run_chain [OF assms] by auto
  with run_loop_clean [OF run_inv_init r(1)] have "length (spawned (events r)) = m"
    by (simp add: run_done_def)
  with sm r show ?thesis by (simp add: run_def)
qed

section \<open>Properties\<close>

text \<open>
  The parser either raises an \<open>AssertionError\<close> (never an \<open>AttributeError\<close> or another
  exception) or returns a well-formed pipeline: operands and operators alternate, the
  pipeline ends with an operand, an output goes to a pipe exactly when a pipe follows, and
  a directory change is the last operand or stands before \<open>&&\<close>.
\<close>

lemma parse_tokens_wf:
  "case parse_tokens ts of Inl e \<Rightarrow> e = AssertionError | Inr ns \<Rightarrow> wf_pipeline ns"
  by (cases "parse_tokens ts") (auto dest: parse_tokens_Inl parse_tokens_Inr)



text \<open>
  C7: on an operating system that opens every file and starts every program, running a
  parsed pipeline (without an operand-less \<open>cd\<close> and not ending in a \<open>cd\<close>) returns the status of
  the first group that decides its operator: \<open>&&\<close> after a failure, \<open>||\<close> after a success, or
  the last group; the status of a group is the exit code of its last command, and no
  process after that group is started. In particular a failure before \<open>&&\<close> also skips what
  follows a later \<open>||\<close>, unlike in a shell.
\<close>

theorem run_short_circuit:
  assumes "friendly w" "parse_tokens ts = Inr ns" "runnable ns"
  shows "\<exists>status ev. run w ns False = Inr (Some status, ev) \<and>
     chain_status (exit_code w) 0 (groups 0 ns) = (Some status, length (spawned ev))"
  using run_result [OF assms(1) _ _ assms(3)] parse_tokens_runs [OF assms(2)] by blast

theorem run_short_circuit_witness:
  "\<exists>ns ev. parse_tokens [''false'', ''&&'', ''x'', ''||'', ''y''] = Inr ns \<and>
     run \<lparr>can_open = \<lambda>_. True, can_spawn = \<lambda>_. True, exit_code = (\<lambda>k. if k = 0 then 1 else 0), environ = []\<rparr>
       ns False = Inr (Some 1, ev) \<and> length (spawned ev) = 1"
proof -
  let ?w = "\<lparr>can_open = \<lambda>_. True, can_spawn = \<lambda>_. True, exit_code = (\<lambda>k. if k = 0 then 1 else 0), environ = []\<rparr>"
  let ?ts = "[''false'', ''&&'', ''x'', ''||'', ''y'']"
  let ?ns = "[Command (new_command ''false''), And, Command (new_command ''x''), Or, Command (new_command ''y'')]"
  have p: "parse_tokens ?ts = Inr ?ns" by code_simp
  have w: "friendly ?w" by (simp add: friendly_def)
  have r: "runnable ?ns" by code_simp
  have c: "chain_status (exit_code ?w) 0 (groups 0 ?ns) = (Some 1, 1)" by simp
  from run_short_circuit [OF w p r] obtain status ev where
    "run ?w ?ns False = Inr (Some status, ev)" "chain_status (exit_code ?w) 0 (groups 0 ?ns) = (Some status, length (spawned ev))"
    by blast
  with c have "run ?w ?ns False = Inr (Some 1, ev)" "length (spawned ev) = 1" by simp_all
  with p show ?thesis by blast
qed

text \<open>
  C8: whatever the operating system does, a run that returns a status has closed every file
  it opened and has waited exactly once for every process it started, in starting order.
\<close>

theorem run_no_leak:
  assumes "run w ns verbose = Inr (Some status, ev)"
  shows "mset (opened ev) = mset (closed ev) \<and> waited ev = [0..<length (spawned ev)]"
proof -
  obtain r where "run_loop w verbose init_runner ns = Inr (Some status, r)" "ev = events r"
    using assms by (auto simp: run_def)
  then show ?thesis
    using run_loop_clean [OF run_inv_init] by (simp add: run_done_def run_clean_def)
qed

theorem run_no_leak_witness:
  "\<exists>ev. run \<lparr>can_open = \<lambda>_. True, can_spawn = \<lambda>_. True, exit_code = \<lambda>_. 0, environ = []\<rparr>
       [Command (new_command ''a''\<lparr>cmd_stdout := ToFile ''f''\<rparr>)] False = Inr (Some 0, ev) \<and>
     mset (opened ev) = mset (closed ev) \<and> waited ev = [0] \<and> opened ev = [''f'']"
proof -
  let ?w = "\<lparr>can_open = \<lambda>_. True, can_spawn = \<lambda>_. True, exit_code = \<lambda>_. 0, environ = []\<rparr>"
  let ?p = "\<lparr>p_argv = [''a''], p_stdin = InInherit, p_stdout = OutFile ''f'', p_stderr = OutInherit,
    p_env = None, p_cwd = None\<rparr>"
  have r: "run ?w [Command (new_command ''a''\<lparr>cmd_stdout := ToFile ''f''\<rparr>)] False =
      Inr (Some 0, [OpenWrite ''f'', Popen ?p, Wait 0, Close ''f''])"
    by code_simp
  with run_no_leak [OF r] show ?thesis by auto
qed

end
