(* ===== verification/Timeline.thy ===== *)
theory Timeline
  imports Py_Prelude
begin

text \<open>
  The data model of \<open>utils/grid.py\<close>: ranges and events, the two binary searches and the
  windows they select, the registries of timelines by name, bounds, colours, and
  \<open>read_data\<close>, which builds all of it from the lines of a trace file. Times are integers.
  An object that a registry returns and the caller then mutates is modelled by its index
  in the list that holds it.
\<close>

section \<open>Ranges and events\<close>

record data_range =
  r_start :: int
  r_end :: int
  r_value :: string

datatype ev_value = StrValue string | IntValue int

record tl_event =
  ev_at :: int
  ev_value :: ev_value

definition ranges_cmp :: "data_range \<Rightarrow> data_range \<Rightarrow> int" where
  "ranges_cmp a b =
     (let diff = r_start a - r_start b in if diff < 0 then - 1 else if diff > 0 then 1 else 0)"

definition events_cmp :: "tl_event \<Rightarrow> tl_event \<Rightarrow> int" where
  "events_cmp a b =
     (let diff = ev_at a - ev_at b in if diff < 0 then - 1 else if diff > 0 then 1 else 0)"

text \<open>\<open>list.sort(cmp)\<close>: the stable sort by a comparison function.\<close>

fun cmp_insort :: "('a \<Rightarrow> 'a \<Rightarrow> int) \<Rightarrow> 'a \<Rightarrow> 'a list \<Rightarrow> 'a list" where
  "cmp_insort cmp x [] = [x]"
| "cmp_insort cmp x (y # ys) = (if cmp x y \<le> 0 then x # y # ys else y # cmp_insort cmp x ys)"

definition cmp_sort :: "('a \<Rightarrow> 'a \<Rightarrow> int) \<Rightarrow> 'a list \<Rightarrow> 'a list" where
  "cmp_sort cmp xs = foldr (cmp_insort cmp) xs []"

record timeline_data_range =
  dr_name :: string
  dr_ranges :: "data_range list"

text \<open>
  \<open>TimelineDataRange.__search\<close>. The indices stay inside the list: the loop starts with
  \<open>l = 0\<close> and \<open>u = len - 1\<close> and only shrinks the interval.
\<close>

function search_ranges :: "int \<Rightarrow> data_range list \<Rightarrow> int \<Rightarrow> int \<Rightarrow> int" where
  "search_ranges key rs l u =
     (if l \<le> u then
        (let i = (l + u) div 2; r = rs ! nat i
         in if key \<ge> r_start r \<and> key \<le> r_end r then i
            else if key < r_start r then search_ranges key rs l (i - 1)
            else search_ranges key rs (i + 1) u)
      else - 1)"
  by pat_completeness auto
termination
  by (relation "measure (\<lambda>(k, rs, l, u). nat (u - l + 1))") auto

declare search_ranges.simps [simp del]

definition range_search :: "timeline_data_range \<Rightarrow> int \<Rightarrow> int" where
  "range_search t key = search_ranges key (dr_ranges t) 0 (int (length (dr_ranges t)) - 1)"

definition add_range :: "data_range \<Rightarrow> timeline_data_range \<Rightarrow> timeline_data_range" where
  "add_range r t = t\<lparr>dr_ranges := dr_ranges t @ [r]\<rparr>"

definition get_ranges :: "timeline_data_range \<Rightarrow> int \<Rightarrow> int \<Rightarrow> data_range list" where
  "get_ranges t start stop =
     (let s = range_search t start; e = range_search t stop
      in if s = - 1 \<and> e = - 1 then []
         else if s = - 1 then slice (dr_ranges t) 0 (e + 1)
         else if e = - 1 then slice (dr_ranges t) s (int (length (dr_ranges t)))
         else slice (dr_ranges t) s (e + 1))"

definition get_ranges_bounds :: "timeline_data_range \<Rightarrow> int \<Rightarrow> int \<Rightarrow> int \<times> int" where
  "get_ranges_bounds t start stop =
     (let s = range_search t start; e = range_search t stop
      in if s = - 1 \<and> e = - 1 then (0, 0)
         else if s = - 1 then (0, e + 1)
         else if e = - 1 then (s, int (length (dr_ranges t)))
         else (s, e + 1))"

definition range_sort :: "timeline_data_range \<Rightarrow> timeline_data_range" where
  "range_sort t = t\<lparr>dr_ranges := cmp_sort ranges_cmp (dr_ranges t)\<rparr>"

definition range_get_bounds :: "timeline_data_range \<Rightarrow> int \<times> int" where
  "range_get_bounds t =
     (if length (dr_ranges t) > 0
      then (r_start (dr_ranges t ! 0), r_end (dr_ranges t ! (length (dr_ranges t) - 1)))
      else (0, 0))"

record timeline_event =
  te_name :: string
  te_events :: "tl_event list"

function search_events :: "int \<Rightarrow> tl_event list \<Rightarrow> int \<Rightarrow> int \<Rightarrow> int" where
  "search_events key es l u =
     (if l \<le> u then
        (let i = (l + u) div 2; e = es ! nat i
         in if key = ev_at e then i
            else if key < ev_at e then search_events key es l (i - 1)
            else search_events key es (i + 1) u)
      else l)"
  by pat_completeness auto
termination
  by (relation "measure (\<lambda>(k, es, l, u). nat (u - l + 1))") auto

declare search_events.simps [simp del]

definition event_search :: "timeline_event \<Rightarrow> int \<Rightarrow> int" where
  "event_search t key = search_events key (te_events t) 0 (int (length (te_events t)) - 1)"

definition add_event :: "tl_event \<Rightarrow> timeline_event \<Rightarrow> timeline_event" where
  "add_event e t = t\<lparr>te_events := te_events t @ [e]\<rparr>"

definition get_events :: "timeline_event \<Rightarrow> int \<Rightarrow> int \<Rightarrow> tl_event list" where
  "get_events t start stop =
     (let s = event_search t start; e = event_search t stop in slice (te_events t) s (e + 1))"

definition get_events_bounds :: "timeline_event \<Rightarrow> int \<Rightarrow> int \<Rightarrow> int \<times> int" where
  "get_events_bounds t start stop =
     (let s = event_search t start; e = event_search t stop in (s, e + 1))"

definition event_sort :: "timeline_event \<Rightarrow> timeline_event" where
  "event_sort t = t\<lparr>te_events := cmp_sort events_cmp (te_events t)\<rparr>"

definition event_get_bounds :: "timeline_event \<Rightarrow> int \<times> int" where
  "event_get_bounds t =
     (if length (te_events t) > 0 then (ev_at (te_events t ! 0), ev_at (last (te_events t))) else (0, 0))"

section \<open>Timelines by name\<close>

record timeline =
  tl_ranges :: "timeline_data_range list"
  tl_event_str :: "timeline_event list"
  tl_event_int :: "timeline_event list"
  tl_name :: string

definition new_timeline :: "string \<Rightarrow> timeline" where
  "new_timeline name = \<lparr>tl_ranges = [], tl_event_str = [], tl_event_int = [], tl_name = name\<rparr>"

text \<open>
  The loop shared by the four lookups: the index of the first entry with the name, where a
  missing entry is first appended.
\<close>

fun find_named :: "('a \<Rightarrow> string) \<Rightarrow> string \<Rightarrow> 'a list \<Rightarrow> nat option" where
  "find_named nm name [] = None"
| "find_named nm name (x # xs) =
     (if nm x = name then Some 0 else map_option Suc (find_named nm name xs))"

definition get_or_add :: "('a \<Rightarrow> string) \<Rightarrow> (string \<Rightarrow> 'a) \<Rightarrow> string \<Rightarrow> 'a list \<Rightarrow> nat \<times> 'a list" where
  "get_or_add nm mk name xs =
     (case find_named nm name xs of Some i \<Rightarrow> (i, xs) | None \<Rightarrow> (length xs, xs @ [mk name]))"

definition new_data_range :: "string \<Rightarrow> timeline_data_range" where
  "new_data_range name = \<lparr>dr_name = name, dr_ranges = []\<rparr>"

definition new_timeline_event :: "string \<Rightarrow> timeline_event" where
  "new_timeline_event name = \<lparr>te_name = name, te_events = []\<rparr>"

definition get_range :: "string \<Rightarrow> timeline \<Rightarrow> nat \<times> timeline" where
  "get_range name t =
     (case get_or_add dr_name new_data_range name (tl_ranges t) of (i, rs) \<Rightarrow> (i, t\<lparr>tl_ranges := rs\<rparr>))"

definition get_event_str :: "string \<Rightarrow> timeline \<Rightarrow> nat \<times> timeline" where
  "get_event_str name t =
     (case get_or_add te_name new_timeline_event name (tl_event_str t) of
        (i, es) \<Rightarrow> (i, t\<lparr>tl_event_str := es\<rparr>))"

definition get_event_int :: "string \<Rightarrow> timeline \<Rightarrow> nat \<times> timeline" where
  "get_event_int name t =
     (case get_or_add te_name new_timeline_event name (tl_event_int t) of
        (i, es) \<Rightarrow> (i, t\<lparr>tl_event_int := es\<rparr>))"

definition timeline_sort :: "timeline \<Rightarrow> timeline" where
  "timeline_sort t =
     t\<lparr>tl_ranges := map range_sort (tl_ranges t),
       tl_event_int := map event_sort (tl_event_int t),
       tl_event_str := map event_sort (tl_event_str t)\<rparr>"

definition widen :: "int \<times> int \<Rightarrow> int \<times> int \<Rightarrow> int \<times> int" where
  "widen b c = (case b of (lo, hi) \<Rightarrow> case c of (c_lo, c_hi) \<Rightarrow>
     (if c_lo < lo then c_lo else lo, if c_hi > hi then c_hi else hi))"

definition timeline_get_bounds :: "timeline \<Rightarrow> int \<times> int" where
  "timeline_get_bounds t =
     foldl widen
       (foldl widen
         (foldl widen (0, 0) (map range_get_bounds (tl_ranges t)))
         (map event_get_bounds (tl_event_str t)))
       (map event_get_bounds (tl_event_int t))"

definition timelines_get :: "string \<Rightarrow> timeline list \<Rightarrow> nat \<times> timeline list" where
  "timelines_get name ts = get_or_add tl_name new_timeline name ts"

definition timelines_sort :: "timeline list \<Rightarrow> timeline list" where
  "timelines_sort ts = map timeline_sort ts"

definition timelines_get_bounds :: "timeline list \<Rightarrow> int \<times> int" where
  "timelines_get_bounds ts = foldl widen (0, 0) (map timeline_get_bounds ts)"

text \<open>The keys of the dictionary \<open>range_values\<close>, in the order the dictionary lists them.\<close>

definition get_all_range_values :: "(string list \<Rightarrow> string list) \<Rightarrow> timeline list \<Rightarrow> string list" where
  "get_all_range_values ko ts =
     ko (dict_keys (foldl (\<lambda>d ran. AList.update (r_value ran) (1::int) d) []
       (concat (map (\<lambda>t. concat (map dr_ranges (tl_ranges t))) ts))))"

section \<open>Colours\<close>

record color =
  col_r :: int
  col_g :: int
  col_b :: int

abbreviation rgb :: "int \<Rightarrow> int \<Rightarrow> int \<Rightarrow> color" where
  "rgb r g b \<equiv> \<lparr>col_r = r, col_g = g, col_b = b\<rparr>"

text \<open>\<open>default_colors\<close> is an attribute of the class: \<open>lookup\<close> takes from its end.\<close>

record colors =
  default_colors :: "color list"
  col_dict :: "(string, color) dict"

definition new_colors :: colors where
  "new_colors = \<lparr>default_colors = [rgb 1 0 0, rgb 0 1 0, rgb 0 0 1, rgb 1 1 0, rgb 1 0 1, rgb 0 1 1],
     col_dict = []\<rparr>"

definition colors_add :: "string \<Rightarrow> color \<Rightarrow> colors \<Rightarrow> colors" where
  "colors_add name c cs = cs\<lparr>col_dict := AList.update name c (col_dict cs)\<rparr>"

definition colors_lookup :: "string \<Rightarrow> colors \<Rightarrow> (color \<times> colors) py" where
  "colors_lookup name cs =
     py_bind
       (if has_key (col_dict cs) name then Inr cs
        else if default_colors cs = [] then Inl IndexError
        else Inr (colors_add name (last (default_colors cs))
                    (cs\<lparr>default_colors := butlast (default_colors cs)\<rparr>)))
       (\<lambda>cs. py_bind (dict_get (col_dict cs) name) (\<lambda>c. Inr (c, cs)))"

section \<open>Reading a trace\<close>

definition hex_value :: "char \<Rightarrow> int option" where
  "hex_value c =
     (if is_digit c then Some (digit_value c)
      else if c \<in> set ''abcdef'' then Some (of_char c - of_char (CHR ''a'') + 10)
      else if c \<in> set ''ABCDEF'' then Some (of_char c - of_char (CHR ''A'') + 10)
      else None)"

text \<open>
  The pieces of the regular expressions: a \<open>literal\<close> prefix, \<open>([^ ]+)\<close> or \<open>([0-9]+)\<close> with the
  space that follows, and a final \<open>([0-9]+)\<close>, which takes the longest run of digits.
\<close>

definition word_sp :: "string \<Rightarrow> (string \<times> string) option" where
  "word_sp s =
     (let w = takeWhile (\<lambda>c. c \<noteq> CHR '' '') s
      in if w \<noteq> [] \<and> CHR '' '' \<in> set s then Some (w, drop (length w + 1) s) else None)"

definition digits_sp :: "string \<Rightarrow> (int \<times> string) option" where
  "digits_sp s =
     (case word_sp s of
        Some (w, rest) \<Rightarrow> if list_all is_digit w then Some (int_of_digits w, rest) else None
      | None \<Rightarrow> None)"

definition digits_end :: "string \<Rightarrow> int option" where
  "digits_end s =
     (let w = takeWhile is_digit s in if w \<noteq> [] then Some (int_of_digits w) else None)"

definition hex_pair :: "string \<Rightarrow> (int \<times> string) option" where
  "hex_pair s =
     (case s of
        a # b # rest \<Rightarrow>
          (case hex_value a of None \<Rightarrow> None | Some x \<Rightarrow>
           case hex_value b of None \<Rightarrow> None | Some y \<Rightarrow> Some (16 * x + y, rest))
      | _ \<Rightarrow> None)"

datatype trace_line =
    RangeLine string string data_range
  | StrLine string string tl_event
  | IntLine string string tl_event
  | ColorLine string color
  | OtherLine

definition match_m1 :: "string \<Rightarrow> trace_line option" where
  "match_m1 line =
     Option.bind (literal ''range '' line) (\<lambda>s.
     Option.bind (word_sp s) (\<lambda>(g1, s).
     Option.bind (word_sp s) (\<lambda>(g2, s).
     Option.bind (word_sp s) (\<lambda>(g3, s).
     Option.bind (digits_sp s) (\<lambda>(g4, s).
     Option.bind (digits_end s) (\<lambda>g5.
       Some (RangeLine g1 g2 \<lparr>r_start = g4, r_end = g5, r_value = g3\<rparr>)))))))"

definition match_m2 :: "string \<Rightarrow> trace_line option" where
  "match_m2 line =
     Option.bind (literal ''event-str '' line) (\<lambda>s.
     Option.bind (word_sp s) (\<lambda>(g1, s).
     Option.bind (word_sp s) (\<lambda>(g2, s).
     Option.bind (word_sp s) (\<lambda>(g3, s).
     Option.bind (digits_end s) (\<lambda>g4.
       Some (StrLine g1 g2 \<lparr>ev_at = g4, ev_value = StrValue g3\<rparr>))))))"

definition match_m3 :: "string \<Rightarrow> trace_line option" where
  "match_m3 line =
     Option.bind (literal ''event-int '' line) (\<lambda>s.
     Option.bind (word_sp s) (\<lambda>(g1, s).
     Option.bind (word_sp s) (\<lambda>(g2, s).
     Option.bind (digits_sp s) (\<lambda>(g3, s).
     Option.bind (digits_end s) (\<lambda>g4.
       Some (IntLine g1 g2 \<lparr>ev_at = g4, ev_value = IntValue g3\<rparr>))))))"

definition match_m4 :: "string \<Rightarrow> trace_line option" where
  "match_m4 line =
     Option.bind (literal ''color '' line) (\<lambda>s.
     Option.bind (word_sp s) (\<lambda>(g1, s).
     Option.bind (literal ''#'' s) (\<lambda>s.
     Option.bind (hex_pair s) (\<lambda>(r, s).
     Option.bind (hex_pair s) (\<lambda>(g, s).
     Option.bind (hex_pair s) (\<lambda>(b, s).
       Some (ColorLine g1 (rgb (r div 255) (g div 255) (b div 255)))))))))"

definition match_line :: "string \<Rightarrow> trace_line" where
  "match_line line =
     (case match_m1 line of Some l \<Rightarrow> l | None \<Rightarrow>
      case match_m2 line of Some l \<Rightarrow> l | None \<Rightarrow>
      case match_m3 line of Some l \<Rightarrow> l | None \<Rightarrow>
      case match_m4 line of Some l \<Rightarrow> l | None \<Rightarrow> OtherLine)"

definition on_timeline :: "string \<Rightarrow> (timeline \<Rightarrow> timeline) \<Rightarrow> timeline list \<Rightarrow> timeline list" where
  "on_timeline name f ts = (case timelines_get name ts of (i, ts) \<Rightarrow> update_nth i f ts)"

fun read_line :: "colors \<times> timeline list \<Rightarrow> trace_line \<Rightarrow> colors \<times> timeline list" where
  "read_line (cs, ts) (RangeLine g1 g2 r) =
     (cs, on_timeline g1 (\<lambda>t. case get_range g2 t of (j, t) \<Rightarrow>
            t\<lparr>tl_ranges := update_nth j (add_range r) (tl_ranges t)\<rparr>) ts)"
| "read_line (cs, ts) (StrLine g1 g2 e) =
     (cs, on_timeline g1 (\<lambda>t. case get_event_str g2 t of (j, t) \<Rightarrow>
            t\<lparr>tl_event_str := update_nth j (add_event e) (tl_event_str t)\<rparr>) ts)"
| "read_line (cs, ts) (IntLine g1 g2 e) =
     (cs, on_timeline g1 (\<lambda>t. case get_event_int g2 t of (j, t) \<Rightarrow>
            t\<lparr>tl_event_int := update_nth j (add_event e) (tl_event_int t)\<rparr>) ts)"
| "read_line (cs, ts) (ColorLine name c) = (colors_add name c cs, ts)"
| "read_line (cs, ts) OtherLine = (cs, ts)"

definition read_data :: "string list \<Rightarrow> colors \<times> timeline list" where
  "read_data lines =
     (case foldl (\<lambda>st line. read_line st (match_line line)) (new_colors, []) lines of
        (cs, ts) \<Rightarrow> (cs, timelines_sort ts))"

section \<open>Sorting\<close>

lemma cmp_insort_key: "(\<And>x y. cmp x y \<le> 0 \<longleftrightarrow> key x \<le> key y) \<Longrightarrow> cmp_insort cmp x xs = insort_key key x xs"
  by (induction xs) simp_all

lemma cmp_sort_key:
  assumes "\<And>x y. cmp x y \<le> 0 \<longleftrightarrow> key x \<le> key y"
  shows "cmp_sort cmp xs = sort_key key xs"
  unfolding cmp_sort_def sort_key_def by (induction xs) (simp_all add: cmp_insort_key [OF assms])

lemma sort_ranges_eq: "cmp_sort ranges_cmp = sort_key r_start"
  by (rule ext, rule cmp_sort_key) (simp add: ranges_cmp_def Let_def)

lemma sort_events_eq: "cmp_sort events_cmp = sort_key ev_at"
  by (rule ext, rule cmp_sort_key) (simp add: events_cmp_def Let_def)

section \<open>Bisection\<close>

text \<open>
  The loop of both searches: \<open>cmp\<close> places the key before (negative), in (zero) or after
  (positive) an entry, and \<open>miss\<close> is what the loop returns for a key that no entry holds.
\<close>

locale bisection =
  fixes search :: "'k \<Rightarrow> 'a list \<Rightarrow> int \<Rightarrow> int \<Rightarrow> int"
    and cmp :: "'k \<Rightarrow> 'a \<Rightarrow> int"
    and miss :: "int \<Rightarrow> int"
  assumes search_rec: "search k xs l u =
     (if l \<le> u then
        (let i = (l + u) div 2; c = cmp k (xs ! nat i)
         in if c = 0 then i else if c < 0 then search k xs l (i - 1) else search k xs (i + 1) u)
      else miss l)"
begin

definition placed :: "'k \<Rightarrow> 'a list \<Rightarrow> bool" where
  "placed k xs \<longleftrightarrow> (\<forall>i j. i < j \<longrightarrow> j < length xs \<longrightarrow>
     (cmp k (xs ! i) < 0 \<longrightarrow> cmp k (xs ! j) < 0) \<and> (0 < cmp k (xs ! j) \<longrightarrow> 0 < cmp k (xs ! i)))"

lemma placed_before: "placed k xs \<Longrightarrow> i < j \<Longrightarrow> j < length xs \<Longrightarrow> cmp k (xs ! i) < 0 \<Longrightarrow> cmp k (xs ! j) < 0"
  by (auto simp: placed_def)

lemma placed_after: "placed k xs \<Longrightarrow> i < j \<Longrightarrow> j < length xs \<Longrightarrow> 0 < cmp k (xs ! j) \<Longrightarrow> 0 < cmp k (xs ! i)"
  by (auto simp: placed_def)

lemma search_loop:
  assumes "placed k xs" "0 \<le> l" "u < int (length xs)" "l \<le> u + 1"
    "\<And>i. i < nat l \<Longrightarrow> 0 < cmp k (xs ! i)"
    "\<And>i. nat (u + 1) \<le> i \<Longrightarrow> i < length xs \<Longrightarrow> cmp k (xs ! i) < 0"
  shows "(\<exists>i < length xs. search k xs l u = int i \<and> cmp k (xs ! i) = 0) \<or>
     (\<exists>i \<le> length xs. search k xs l u = miss (int i) \<and>
        (\<forall>j < i. 0 < cmp k (xs ! j)) \<and> (\<forall>j. i \<le> j \<longrightarrow> j < length xs \<longrightarrow> cmp k (xs ! j) < 0))"
  using assms(2-)
proof (induction "nat (u - l + 1)" arbitrary: l u rule: less_induct)
  case less
  show ?case
  proof (cases "l \<le> u")
    case False
    then have "u + 1 = l" using less.prems by simp
    then show ?thesis
      using less.prems False by (intro disjI2 exI [of _ "nat l"]) (auto simp: search_rec [of k xs l u])
  next
    case True
    define i where "i = (l + u) div 2"
    have i: "l \<le> i" "i \<le> u" "0 \<le> i" "i < int (length xs)"
      using True less.prems by (auto simp: i_def)
    then have ni: "nat i < length xs" by simp
    let ?c = "cmp k (xs ! nat i)"
    have rec: "search k xs l u =
        (if ?c = 0 then i else if ?c < 0 then search k xs l (i - 1) else search k xs (i + 1) u)"
      using True by (simp add: search_rec [of k xs l u] Let_def i_def)
    consider "?c = 0" | "?c < 0" | "?c > 0" by linarith
    then show ?thesis
    proof cases
      case 1
      then show ?thesis using ni i by (intro disjI1 exI [of _ "nat i"]) (simp add: rec)
    next
      case 2
      then have "cmp k (xs ! j) < 0" if "nat i \<le> j" "j < length xs" for j
        using placed_before [OF assms(1), of "nat i" j] that by (cases "j = nat i") auto
      moreover have "search k xs l u = search k xs l (i - 1)" using 2 rec by simp
      ultimately show ?thesis
        using less.hyps [of "i - 1" l] less.prems i by simp
    next
      case 3
      then have "0 < cmp k (xs ! j)" if "j < nat (i + 1)" for j
        using placed_after [OF assms(1), of j "nat i"] that ni i by (cases "j = nat i") auto
      moreover have "search k xs l u = search k xs (i + 1) u" using 3 rec by simp
      ultimately show ?thesis
        using less.hyps [of u "i + 1"] less.prems i by simp
    qed
  qed
qed

lemma search_cases:
  assumes "placed k xs"
  obtains (found) i where "i < length xs" "search k xs 0 (int (length xs) - 1) = int i" "cmp k (xs ! i) = 0"
  | (missed) i where "i \<le> length xs" "search k xs 0 (int (length xs) - 1) = miss (int i)"
      "\<And>j. j < i \<Longrightarrow> 0 < cmp k (xs ! j)"
      "\<And>j. i \<le> j \<Longrightarrow> j < length xs \<Longrightarrow> cmp k (xs ! j) < 0"
  using search_loop [OF assms, of 0 "int (length xs) - 1"] by auto

end

definition range_place :: "int \<Rightarrow> data_range \<Rightarrow> int" where
  "range_place key r =
     (if key \<ge> r_start r \<and> key \<le> r_end r then 0 else if key < r_start r then - 1 else 1)"

definition event_place :: "int \<Rightarrow> tl_event \<Rightarrow> int" where
  "event_place key e = (if key = ev_at e then 0 else if key < ev_at e then - 1 else 1)"

interpretation range_bisect: bisection search_ranges range_place "\<lambda>_. - 1"
  by unfold_locales (subst search_ranges.simps, simp add: Let_def range_place_def)

interpretation event_bisect: bisection search_events event_place "\<lambda>l. l"
  by unfold_locales (subst search_events.simps, simp add: Let_def event_place_def)

text \<open>Ranges that do not overlap and are listed in order, as a trace of successive states has them.\<close>

definition disjoint_ranges :: "data_range list \<Rightarrow> bool" where
  "disjoint_ranges rs \<longleftrightarrow> list_all (\<lambda>r. r_start r \<le> r_end r) rs \<and>
     sorted_wrt (\<lambda>a b. r_end a < r_start b) rs"

lemma disjoint_ranges_nth:
  assumes "disjoint_ranges rs" "i < j" "j < length rs"
  shows "r_start (rs ! i) \<le> r_end (rs ! i)" "r_end (rs ! i) < r_start (rs ! j)" "r_start (rs ! j) \<le> r_end (rs ! j)"
  using assms by (auto simp: disjoint_ranges_def list_all_length dest: sorted_wrt_nth_less)

lemma disjoint_placed: "disjoint_ranges rs \<Longrightarrow> range_bisect.placed key rs"
  using disjoint_ranges_nth [of rs]
  by (fastforce simp: range_bisect.placed_def range_place_def split: if_splits)

lemma sorted_placed: "sorted_wrt (\<lambda>a b. ev_at a \<le> ev_at b) es \<Longrightarrow> event_bisect.placed key es"
  by (fastforce simp: event_bisect.placed_def event_place_def sorted_wrt_iff_nth_less split: if_splits)

section \<open>Windows\<close>

abbreviation holds :: "int \<Rightarrow> data_range \<Rightarrow> bool" where
  "holds key r \<equiv> r_start r \<le> key \<and> key \<le> r_end r"

lemma range_place_0: "range_place key r = 0 \<longleftrightarrow> holds key r"
  by (simp add: range_place_def)

lemma range_search_hit:
  assumes "disjoint_ranges (dr_ranges t)" "\<exists>r \<in> set (dr_ranges t). holds key r"
  obtains i where "i < length (dr_ranges t)" "range_search t key = int i" "holds key (dr_ranges t ! i)"
proof -
  from assms(2) obtain j where j: "j < length (dr_ranges t)" "range_place key (dr_ranges t ! j) = 0"
    by (auto simp: in_set_conv_nth range_place_0)
  show ?thesis
  proof (rule range_bisect.search_cases [OF disjoint_placed [OF assms(1)], of key])
    fix i assume "i < length (dr_ranges t)"
      "search_ranges key (dr_ranges t) 0 (int (length (dr_ranges t)) - 1) = int i"
      "range_place key (dr_ranges t ! i) = 0"
    then show ?thesis by (intro that [of i]) (simp_all add: range_search_def range_place_0)
  next
    fix i
    assume "\<And>j. j < i \<Longrightarrow> 0 < range_place key (dr_ranges t ! j)"
      "\<And>j. i \<le> j \<Longrightarrow> j < length (dr_ranges t) \<Longrightarrow> range_place key (dr_ranges t ! j) < 0"
    with j show ?thesis by (metis less_irrefl linorder_not_less)
  qed
qed

lemma range_search_miss:
  assumes "disjoint_ranges (dr_ranges t)" "\<not> (\<exists>r \<in> set (dr_ranges t). holds key r)"
  shows "range_search t key = - 1"
proof (rule range_bisect.search_cases [OF disjoint_placed [OF assms(1)], of key])
  fix i assume "i < length (dr_ranges t)" "range_place key (dr_ranges t ! i) = 0"
  then have "\<exists>r \<in> set (dr_ranges t). holds key r" by (auto simp: range_place_0)
  with assms(2) show ?thesis by blast
qed (simp add: range_search_def)

lemma get_ranges_hits:
  assumes d: "disjoint_ranges (dr_ranges t)" and le: "start \<le> stop"
    and hits: "\<exists>r \<in> set (dr_ranges t). holds start r" "\<exists>r \<in> set (dr_ranges t). holds stop r"
  shows "get_ranges t start stop = filter (\<lambda>r. r_start r \<le> stop \<and> start \<le> r_end r) (dr_ranges t)"
proof -
  let ?rs = "dr_ranges t"
  obtain i where i: "i < length ?rs" "range_search t start = int i" "holds start (?rs ! i)"
    using range_search_hit [OF d hits(1)] .
  obtain j where j: "j < length ?rs" "range_search t stop = int j" "holds stop (?rs ! j)"
    using range_search_hit [OF d hits(2)] .
  note ord = disjoint_ranges_nth [OF d]
  have ij: "i \<le> j"
  proof (rule ccontr)
    assume "\<not> i \<le> j"
    with ord(2) [of j i] i j le show False by simp
  qed
  have k: "(r_start (?rs ! k) \<le> stop \<and> start \<le> r_end (?rs ! k)) \<longleftrightarrow> i \<le> k \<and> k < Suc j"
    if "k < length ?rs" for k
  proof
    assume "r_start (?rs ! k) \<le> stop \<and> start \<le> r_end (?rs ! k)"
    then show "i \<le> k \<and> k < Suc j"
      using ord(2) [of k i] ord(2) [of j k] i j that by (metis less_Suc_eq_le linorder_not_less order.strict_trans2)
  next
    assume "i \<le> k \<and> k < Suc j"
    then consider "k = i" | "k = j" | "i < k" "k < j" by linarith
    then show "r_start (?rs ! k) \<le> stop \<and> start \<le> r_end (?rs ! k)"
      using ord(2) [of i k] ord [of k j] i j le by cases auto
  qed
  have "get_ranges t start stop = slice ?rs (int i) (int (Suc j))"
    using i(2) j(2) by (simp add: get_ranges_def add.commute)
  also have "\<dots> = filter (\<lambda>r. r_start r \<le> stop \<and> start \<le> r_end r) ?rs"
    unfolding slice_nat using filter_window [of i "Suc j" ?rs, OF _ _ k] ij j(1) by simp
  finally show ?thesis .
qed

lemma get_ranges_slice:
  "get_ranges t start stop =
     slice (dr_ranges t) (fst (get_ranges_bounds t start stop)) (snd (get_ranges_bounds t start stop))"
  by (simp add: get_ranges_def get_ranges_bounds_def Let_def slice_def)

lemma event_search_split:
  assumes "sorted_wrt (\<lambda>a b. ev_at a < ev_at b) (te_events t)"
  obtains i where "i \<le> length (te_events t)" "event_search t key = int i"
    "\<And>j. j < length (te_events t) \<Longrightarrow> ev_at (te_events t ! j) < key \<longleftrightarrow> j < i"
    "i < length (te_events t) \<Longrightarrow> key \<in> ev_at ` set (te_events t) \<Longrightarrow> ev_at (te_events t ! i) = key"
    "key \<in> ev_at ` set (te_events t) \<Longrightarrow> i < length (te_events t)"
proof -
  let ?es = "te_events t"
  have strict: "ev_at (?es ! i) < ev_at (?es ! j)" if "i < j" "j < length ?es" for i j
    using assms that by (simp add: sorted_wrt_iff_nth_less)
  then have "sorted_wrt (\<lambda>a b. ev_at a \<le> ev_at b) ?es"
    by (fastforce simp: sorted_wrt_iff_nth_less)
  from sorted_placed [OF this, of key] show ?thesis
  proof (rule event_bisect.search_cases)
    fix i assume i: "i < length ?es" "search_events key ?es 0 (int (length ?es) - 1) = int i"
      "event_place key (?es ! i) = 0"
    then have at: "ev_at (?es ! i) = key" by (simp add: event_place_def split: if_splits)
    have "ev_at (?es ! j) < key \<longleftrightarrow> j < i" if "j < length ?es" for j
      using strict [of i j] strict [of j i] at i(1) that by (metis linorder_neqE_nat order_less_asym order_less_irrefl)
    with i at show ?thesis by (intro that [of i]) (simp_all add: event_search_def)
  next
    fix i assume i: "i \<le> length ?es" "search_events key ?es 0 (int (length ?es) - 1) = int i"
      "\<And>j. j < i \<Longrightarrow> 0 < event_place key (?es ! j)"
      "\<And>j. i \<le> j \<Longrightarrow> j < length ?es \<Longrightarrow> event_place key (?es ! j) < 0"
    have lt: "j < i \<Longrightarrow> ev_at (?es ! j) < key" for j
      using i(3) [of j] by (auto simp: event_place_def split: if_splits)
    have gt: "i \<le> j \<Longrightarrow> j < length ?es \<Longrightarrow> key < ev_at (?es ! j)" for j
      using i(4) [of j] by (auto simp: event_place_def split: if_splits)
    have "key \<notin> ev_at ` set ?es"
    proof
      assume "key \<in> ev_at ` set ?es"
      then obtain j where "j < length ?es" "ev_at (?es ! j) = key" by (auto simp: in_set_conv_nth)
      with lt [of j] gt [of j] show False by (cases "j < i") auto
    qed
    moreover have "ev_at (?es ! j) < key \<longleftrightarrow> j < i" if "j < length ?es" for j
      using lt [of j] gt [of j] that by (cases "j < i") auto
    ultimately show ?thesis using i(1,2) by (intro that [of i]) (simp_all add: event_search_def)
  qed
qed

lemma get_events_window_aux:
  assumes s: "sorted_wrt (\<lambda>a b. ev_at a < ev_at b) (te_events t)" and le: "start \<le> stop"
  shows "get_events t start stop =
     filter (\<lambda>e. start \<le> ev_at e \<and> ev_at e \<le> stop) (te_events t) @
     (if stop \<in> ev_at ` set (te_events t) then [] else take 1 (filter (\<lambda>e. stop < ev_at e) (te_events t)))"
proof -
  let ?es = "te_events t"
  obtain i where i: "i \<le> length ?es" "event_search t start = int i"
    "\<And>k. k < length ?es \<Longrightarrow> ev_at (?es ! k) < start \<longleftrightarrow> k < i"
    using event_search_split [OF s, of start] by metis
  obtain j where j: "j \<le> length ?es" "event_search t stop = int j"
    "\<And>k. k < length ?es \<Longrightarrow> ev_at (?es ! k) < stop \<longleftrightarrow> k < j"
    "j < length ?es \<Longrightarrow> stop \<in> ev_at ` set ?es \<Longrightarrow> ev_at (?es ! j) = stop"
    "stop \<in> ev_at ` set ?es \<Longrightarrow> j < length ?es"
    by (rule event_search_split [OF s, where key = stop]) blast
  have ij: "i \<le> j"
  proof (rule ccontr)
    assume "\<not> i \<le> j"
    then have "j < length ?es" "j < i" using i(1) by simp_all
    with i(3) [of j] j(3) [of j] le show False by simp
  qed
  have slice: "get_events t start stop = drop i (take (Suc j) ?es)"
    using i(2) j(2) slice_nat [of ?es i "Suc j"] by (simp add: get_events_def add.commute)
  show ?thesis
  proof (cases "stop \<in> ev_at ` set ?es")
    case True
    have jl: "j < length ?es" "ev_at (?es ! j) = stop" using j(4,5) True by simp_all
    have "(start \<le> ev_at (?es ! k) \<and> ev_at (?es ! k) \<le> stop) \<longleftrightarrow> i \<le> k \<and> k < Suc j" if "k < length ?es" for k
    proof -
      have "ev_at (?es ! k) \<le> stop \<longleftrightarrow> k \<le> j"
      proof (cases "k \<le> j")
        case True
        then show ?thesis using j(3) [OF that] jl by (cases "k = j") auto
      next
        case False
        then have "ev_at (?es ! j) < ev_at (?es ! k)" using s that by (simp add: sorted_wrt_iff_nth_less)
        with False jl show ?thesis by simp
      qed
      with i(3) [OF that] show ?thesis by auto
    qed
    from filter_window [OF _ _ this] ij jl(1) True slice show ?thesis by simp
  next
    case False
    have ge: "\<not> k < j \<Longrightarrow> k < length ?es \<Longrightarrow> stop < ev_at (?es ! k)" for k
      using j(3) [of k] False by (force simp: order_less_le)
    have "(start \<le> ev_at (?es ! k) \<and> ev_at (?es ! k) \<le> stop) \<longleftrightarrow> i \<le> k \<and> k < j" if "k < length ?es" for k
      using i(3) [OF that] j(3) [OF that] ge [of k] that by (auto simp: not_less)
    from filter_window [OF ij j(1) this]
    have 1: "filter (\<lambda>e. start \<le> ev_at e \<and> ev_at e \<le> stop) ?es = drop i (take j ?es)" .
    have "(stop < ev_at (?es ! k)) \<longleftrightarrow> j \<le> k \<and> k < length ?es" if "k < length ?es" for k
      using j(3) [OF that] ge [of k] that by auto
    from filter_window [OF j(1) order.refl this]
    have 2: "filter (\<lambda>e. stop < ev_at e) ?es = drop j ?es" by simp
    have "take (Suc j) ?es = take j ?es @ take 1 (drop j ?es)"
      by (metis Suc_eq_plus1 take_add)
    then have "drop i (take (Suc j) ?es) = drop i (take j ?es) @ take 1 (drop j ?es)"
      using ij j(1) by simp
    with 1 2 False slice show ?thesis by simp
  qed
qed

section \<open>Registries\<close>

text \<open>
  What the clients of \<open>get_range\<close>, \<open>get_event_str\<close>, \<open>get_event_int\<close> and \<open>Timelines.get\<close> rely
  on: the entry returned has the name asked for, no entry is lost or moved, and no name
  is entered twice.
\<close>

locale named_registry =
  fixes get :: "string \<Rightarrow> 'c \<Rightarrow> nat \<times> 'c"
    and entries :: "'c \<Rightarrow> 'a list"
    and nm :: "'a \<Rightarrow> string"
    and mk :: "string \<Rightarrow> 'a"
  assumes get_entries: "get name c = (i, c') \<Longrightarrow>
      i = fst (get_or_add nm mk name (entries c)) \<and> entries c' = snd (get_or_add nm mk name (entries c))"
    and nm_mk: "nm (mk name) = name"
begin

lemma get_index: "get name c = (i, c') \<Longrightarrow> i < length (entries c') \<and> nm (entries c' ! i) = name"
proof -
  assume "get name c = (i, c')"
  then have "i = fst (get_or_add nm mk name (entries c)) \<and> entries c' = snd (get_or_add nm mk name (entries c))"
    by (rule get_entries)
  moreover have "find_named nm name xs = Some k \<Longrightarrow> k < length xs \<and> nm (xs ! k) = name" for xs k
    by (induction xs arbitrary: k) (auto split: if_splits)
  ultimately show ?thesis by (auto simp: get_or_add_def nm_mk split: option.splits)
qed

lemma get_prefix: "get name c = (i, c') \<Longrightarrow> prefix (entries c) (entries c')"
  using get_entries [of name c i c'] by (auto simp: get_or_add_def split: option.splits)

lemma find_named_None: "find_named nm name xs = None \<longleftrightarrow> name \<notin> nm ` set xs"
  by (induction xs) auto

lemma get_distinct:
  "get name c = (i, c') \<Longrightarrow> distinct (map nm (entries c)) \<Longrightarrow> distinct (map nm (entries c'))"
  using get_entries [of name c i c']
  by (auto simp: get_or_add_def nm_mk find_named_None split: option.splits)

end

interpretation reg_ranges: named_registry get_range tl_ranges dr_name new_data_range
  by unfold_locales (auto simp: get_range_def new_data_range_def split: prod.splits)

interpretation reg_event_str: named_registry get_event_str tl_event_str te_name new_timeline_event
  by unfold_locales (auto simp: get_event_str_def new_timeline_event_def split: prod.splits)

interpretation reg_event_int: named_registry get_event_int tl_event_int te_name new_timeline_event
  by unfold_locales (auto simp: get_event_int_def new_timeline_event_def split: prod.splits)

interpretation reg_timelines: named_registry timelines_get "\<lambda>ts. ts" tl_name new_timeline
  by unfold_locales (auto simp: timelines_get_def new_timeline_def)

lemma find_update_named:
  assumes "get_or_add nm mk name xs = (i, ys)" "nm (mk name) = name" "\<And>x. nm (f x) = nm x"
  shows "find (\<lambda>x. nm x = n) (update_nth i f ys) =
    (if n = name then Some (f (case find (\<lambda>x. nm x = name) xs of Some x \<Rightarrow> x | None \<Rightarrow> mk name))
     else find (\<lambda>x. nm x = n) xs)"
  using assms(1)
proof (induction xs arbitrary: i ys)
  case Nil
  then show ?case using assms(2,3) by (auto simp: get_or_add_def update_nth_def)
next
  case (Cons x xs)
  show ?case
  proof (cases "nm x = name")
    case True
    with Cons.prems assms(3) show ?thesis by (auto simp: get_or_add_def update_nth_def)
  next
    case False
    then obtain i' ys' where r: "get_or_add nm mk name xs = (i', ys')" "i = Suc i'" "ys = x # ys'"
      using Cons.prems by (auto simp: get_or_add_def split: option.splits)
    then show ?thesis using Cons.IH [OF r(1)] False by (auto simp: update_nth_def)
  qed
qed

section \<open>What a trace file contains\<close>

definition timeline_of :: "timeline list \<Rightarrow> string \<Rightarrow> timeline" where
  "timeline_of ts a = (case find (\<lambda>t. tl_name t = a) ts of Some t \<Rightarrow> t | None \<Rightarrow> new_timeline a)"

definition ranges_of :: "timeline list \<Rightarrow> string \<Rightarrow> string \<Rightarrow> data_range list" where
  "ranges_of ts a b =
     (case find (\<lambda>d. dr_name d = b) (tl_ranges (timeline_of ts a)) of Some d \<Rightarrow> dr_ranges d | None \<Rightarrow> [])"

definition events_of :: "(timeline \<Rightarrow> timeline_event list) \<Rightarrow> timeline list \<Rightarrow> string \<Rightarrow> string \<Rightarrow> tl_event list" where
  "events_of sel ts a b =
     (case find (\<lambda>d. te_name d = b) (sel (timeline_of ts a)) of Some d \<Rightarrow> te_events d | None \<Rightarrow> [])"

definition range_entries :: "trace_line list \<Rightarrow> string \<Rightarrow> string \<Rightarrow> data_range list" where
  "range_entries ls a b =
     concat (map (\<lambda>l. case l of RangeLine a' b' r \<Rightarrow> if a' = a \<and> b' = b then [r] else [] | _ \<Rightarrow> []) ls)"

definition str_entries :: "trace_line list \<Rightarrow> string \<Rightarrow> string \<Rightarrow> tl_event list" where
  "str_entries ls a b =
     concat (map (\<lambda>l. case l of StrLine a' b' e \<Rightarrow> if a' = a \<and> b' = b then [e] else [] | _ \<Rightarrow> []) ls)"

definition int_entries :: "trace_line list \<Rightarrow> string \<Rightarrow> string \<Rightarrow> tl_event list" where
  "int_entries ls a b =
     concat (map (\<lambda>l. case l of IntLine a' b' e \<Rightarrow> if a' = a \<and> b' = b then [e] else [] | _ \<Rightarrow> []) ls)"

lemma timeline_of_on:
  assumes "\<And>t. tl_name (f t) = tl_name t"
  shows "timeline_of (on_timeline g f ts) a = (if a = g then f (timeline_of ts g) else timeline_of ts a)"
proof -
  obtain i ts' where g: "get_or_add tl_name new_timeline g ts = (i, ts')" by force
  show ?thesis
    using find_update_named [OF g _ assms, of a]
    by (simp add: on_timeline_def timelines_get_def g timeline_of_def new_timeline_def split: option.splits)
qed

lemma get_fields:
  "get_range n t = (j, t') \<Longrightarrow> tl_name t' = tl_name t \<and> tl_event_str t' = tl_event_str t \<and> tl_event_int t' = tl_event_int t"
  "get_event_str n t = (j, t') \<Longrightarrow> tl_name t' = tl_name t \<and> tl_ranges t' = tl_ranges t \<and> tl_event_int t' = tl_event_int t"
  "get_event_int n t = (j, t') \<Longrightarrow> tl_name t' = tl_name t \<and> tl_ranges t' = tl_ranges t \<and> tl_event_str t' = tl_event_str t"
  by (auto simp: get_range_def get_event_str_def get_event_int_def split: prod.splits)

lemma insert_range:
  assumes "get_range g t = (j, t')"
  shows "find (\<lambda>d. dr_name d = b) (update_nth j (add_range r) (tl_ranges t')) =
    (if b = g then Some (add_range r (case find (\<lambda>d. dr_name d = g) (tl_ranges t) of Some d \<Rightarrow> d | None \<Rightarrow> new_data_range g))
     else find (\<lambda>d. dr_name d = b) (tl_ranges t))"
  using assms reg_ranges.get_entries [OF assms]
    find_update_named [where nm = dr_name and mk = new_data_range and f = "add_range r" and xs = "tl_ranges t"
      and name = g and i = j and ys = "tl_ranges t'" and n = b]
  by (simp add: prod_eq_iff new_data_range_def add_range_def)

lemma insert_event:
  assumes "get_or_add te_name new_timeline_event g xs = (j, ys)"
  shows "find (\<lambda>d. te_name d = b) (update_nth j (add_event e) ys) =
    (if b = g then Some (add_event e (case find (\<lambda>d. te_name d = g) xs of Some d \<Rightarrow> d | None \<Rightarrow> new_timeline_event g))
     else find (\<lambda>d. te_name d = b) xs)"
  by (rule find_update_named [OF assms]) (simp_all add: new_timeline_event_def add_event_def)

lemma range_line_effect:
  assumes t': "t' = (case get_range g t of (j, t) \<Rightarrow> t\<lparr>tl_ranges := update_nth j (add_range r) (tl_ranges t)\<rparr>)"
  shows "tl_name t' = tl_name t" "tl_event_str t' = tl_event_str t" "tl_event_int t' = tl_event_int t"
    "(case find (\<lambda>d. dr_name d = b) (tl_ranges t') of Some d \<Rightarrow> dr_ranges d | None \<Rightarrow> []) =
     (case find (\<lambda>d. dr_name d = b) (tl_ranges t) of Some d \<Rightarrow> dr_ranges d | None \<Rightarrow> []) @ (if b = g then [r] else [])"
proof -
  obtain j u where g: "get_range g t = (j, u)" by force
  show "tl_name t' = tl_name t" "tl_event_str t' = tl_event_str t" "tl_event_int t' = tl_event_int t"
    using get_fields(1) [OF g] by (simp_all add: t' g)
  show "(case find (\<lambda>d. dr_name d = b) (tl_ranges t') of Some d \<Rightarrow> dr_ranges d | None \<Rightarrow> []) =
     (case find (\<lambda>d. dr_name d = b) (tl_ranges t) of Some d \<Rightarrow> dr_ranges d | None \<Rightarrow> []) @ (if b = g then [r] else [])"
    using insert_range [OF g, of b r]
    by (simp add: t' g add_range_def new_data_range_def split: option.splits)
qed

lemma str_line_effect:
  assumes t': "t' = (case get_event_str g t of (j, t) \<Rightarrow> t\<lparr>tl_event_str := update_nth j (add_event e) (tl_event_str t)\<rparr>)"
  shows "tl_name t' = tl_name t" "tl_ranges t' = tl_ranges t" "tl_event_int t' = tl_event_int t"
    "(case find (\<lambda>d. te_name d = b) (tl_event_str t') of Some d \<Rightarrow> te_events d | None \<Rightarrow> []) =
     (case find (\<lambda>d. te_name d = b) (tl_event_str t) of Some d \<Rightarrow> te_events d | None \<Rightarrow> []) @ (if b = g then [e] else [])"
proof -
  obtain j ys where g: "get_or_add te_name new_timeline_event g (tl_event_str t) = (j, ys)" by force
  show "tl_name t' = tl_name t" "tl_ranges t' = tl_ranges t" "tl_event_int t' = tl_event_int t"
    "(case find (\<lambda>d. te_name d = b) (tl_event_str t') of Some d \<Rightarrow> te_events d | None \<Rightarrow> []) =
     (case find (\<lambda>d. te_name d = b) (tl_event_str t) of Some d \<Rightarrow> te_events d | None \<Rightarrow> []) @ (if b = g then [e] else [])"
    using insert_event [OF g, of b e]
    by (simp_all add: t' get_event_str_def g add_event_def new_timeline_event_def split: option.splits)
qed

lemma int_line_effect:
  assumes t': "t' = (case get_event_int g t of (j, t) \<Rightarrow> t\<lparr>tl_event_int := update_nth j (add_event e) (tl_event_int t)\<rparr>)"
  shows "tl_name t' = tl_name t" "tl_ranges t' = tl_ranges t" "tl_event_str t' = tl_event_str t"
    "(case find (\<lambda>d. te_name d = b) (tl_event_int t') of Some d \<Rightarrow> te_events d | None \<Rightarrow> []) =
     (case find (\<lambda>d. te_name d = b) (tl_event_int t) of Some d \<Rightarrow> te_events d | None \<Rightarrow> []) @ (if b = g then [e] else [])"
proof -
  obtain j ys where g: "get_or_add te_name new_timeline_event g (tl_event_int t) = (j, ys)" by force
  show "tl_name t' = tl_name t" "tl_ranges t' = tl_ranges t" "tl_event_str t' = tl_event_str t"
    "(case find (\<lambda>d. te_name d = b) (tl_event_int t') of Some d \<Rightarrow> te_events d | None \<Rightarrow> []) =
     (case find (\<lambda>d. te_name d = b) (tl_event_int t) of Some d \<Rightarrow> te_events d | None \<Rightarrow> []) @ (if b = g then [e] else [])"
    using insert_event [OF g, of b e]
    by (simp_all add: t' get_event_int_def g add_event_def new_timeline_event_def split: option.splits)
qed

lemma read_line_effect:
  assumes "read_line (cs, ts) l = (cs', ts')"
  shows "ranges_of ts' a b = ranges_of ts a b @ range_entries [l] a b"
    "events_of tl_event_str ts' a b = events_of tl_event_str ts a b @ str_entries [l] a b"
    "events_of tl_event_int ts' a b = events_of tl_event_int ts a b @ int_entries [l] a b"
proof -
  note defs = ranges_of_def events_of_def range_entries_def str_entries_def int_entries_def
  show "ranges_of ts' a b = ranges_of ts a b @ range_entries [l] a b"
    "events_of tl_event_str ts' a b = events_of tl_event_str ts a b @ str_entries [l] a b"
    "events_of tl_event_int ts' a b = events_of tl_event_int ts a b @ int_entries [l] a b"
    using assms
    by (cases l; auto simp: defs timeline_of_on range_line_effect [OF refl] str_line_effect [OF refl]
        int_line_effect [OF refl])+
qed

lemma read_lines_effect:
  assumes "foldl read_line (cs, ts) ls = (cs', ts')"
  shows "ranges_of ts' a b = ranges_of ts a b @ range_entries ls a b"
    "events_of tl_event_str ts' a b = events_of tl_event_str ts a b @ str_entries ls a b"
    "events_of tl_event_int ts' a b = events_of tl_event_int ts a b @ int_entries ls a b"
proof (atomize (full), insert assms, induction ls arbitrary: cs ts)
  case Nil
  then show ?case by (simp add: range_entries_def str_entries_def int_entries_def)
next
  case (Cons l ls)
  obtain cs1 ts1 where 1: "read_line (cs, ts) l = (cs1, ts1)" by force
  with Cons show ?case
    using read_line_effect [OF 1] by (simp add: range_entries_def str_entries_def int_entries_def)
qed

lemma find_map_name:
  "(\<And>x. nm (f x) = nm x) \<Longrightarrow> find (\<lambda>x. nm x = n) (map f xs) = map_option f (find (\<lambda>x. nm x = n) xs)"
  by (induction xs) auto

lemma timeline_of_sort: "timeline_of (timelines_sort ts) a = timeline_sort (timeline_of ts a)"
  using find_map_name [of tl_name timeline_sort a ts]
  by (simp add: timeline_of_def timelines_sort_def timeline_sort_def new_timeline_def split: option.splits)

lemma contents_sort:
  "ranges_of (timelines_sort ts) a b = sort_key r_start (ranges_of ts a b)"
  "events_of tl_event_str (timelines_sort ts) a b = sort_key ev_at (events_of tl_event_str ts a b)"
  "events_of tl_event_int (timelines_sort ts) a b = sort_key ev_at (events_of tl_event_int ts a b)"
proof -
  have r: "find (\<lambda>d. dr_name d = b) (map range_sort ds) = map_option range_sort (find (\<lambda>d. dr_name d = b) ds)" for ds
    by (rule find_map_name) (simp add: range_sort_def)
  have e: "find (\<lambda>d. te_name d = b) (map event_sort ds) = map_option event_sort (find (\<lambda>d. te_name d = b) ds)" for ds
    by (rule find_map_name) (simp add: event_sort_def)
  show "ranges_of (timelines_sort ts) a b = sort_key r_start (ranges_of ts a b)"
    "events_of tl_event_str (timelines_sort ts) a b = sort_key ev_at (events_of tl_event_str ts a b)"
    "events_of tl_event_int (timelines_sort ts) a b = sort_key ev_at (events_of tl_event_int ts a b)"
    by (simp_all add: ranges_of_def events_of_def timeline_of_sort timeline_sort_def r e range_sort_def event_sort_def
        sort_ranges_eq sort_events_eq split: option.splits)
qed

lemma read_data_fold:
  "read_data lines = (case foldl read_line (new_colors, []) (map match_line lines) of
     (cs, ts) \<Rightarrow> (cs, timelines_sort ts))"
  by (simp add: read_data_def foldl_map)

lemma contents_Nil: "ranges_of [] a b = []" "events_of tl_event_str [] a b = []" "events_of tl_event_int [] a b = []"
  by (simp_all add: ranges_of_def events_of_def timeline_of_def new_timeline_def)

section \<open>Bounds\<close>

lemma widen_fst: "fst (widen b c) = min (fst b) (fst c)"
  and widen_snd: "snd (widen b c) = max (snd b) (snd c)"
  by (auto simp: widen_def split: prod.splits)

lemma fold_widen:
  "fst (foldl widen b cs) \<le> fst b \<and> snd b \<le> snd (foldl widen b cs) \<and>
   (\<forall>c \<in> set cs. fst (foldl widen b cs) \<le> fst c \<and> snd c \<le> snd (foldl widen b cs))"
proof (induction cs arbitrary: b)
  case Nil
  then show ?case by simp
next
  case (Cons c cs)
  have "fst (widen b c) \<le> fst b" "fst (widen b c) \<le> fst c" "snd b \<le> snd (widen b c)" "snd c \<le> snd (widen b c)"
    by (simp_all add: widen_fst widen_snd)
  with Cons [of "widen b c"] show ?case by (simp only: foldl_Cons list.set ball_simps) (meson order.trans)
qed

definition within :: "int \<times> int \<Rightarrow> int \<times> int \<Rightarrow> bool" where
  "within c b \<longleftrightarrow> fst b \<le> fst c \<and> snd c \<le> snd b"

lemma within_trans: "within a b \<Longrightarrow> within b c \<Longrightarrow> within a c"
  by (auto simp: within_def)

lemma within_fold: "c \<in> set cs \<Longrightarrow> within c (foldl widen b cs)" "within b (foldl widen b cs)"
  using fold_widen [of b cs] by (simp_all add: within_def)

lemma timeline_within:
  "d \<in> set (tl_ranges t) \<Longrightarrow> within (range_get_bounds d) (timeline_get_bounds t)"
  "d' \<in> set (tl_event_str t) \<Longrightarrow> within (event_get_bounds d') (timeline_get_bounds t)"
  "d' \<in> set (tl_event_int t) \<Longrightarrow> within (event_get_bounds d') (timeline_get_bounds t)"
  unfolding timeline_get_bounds_def
  subgoal by (rule within_trans [OF within_trans [OF within_fold(1) within_fold(2)] within_fold(2)]) simp
  subgoal by (rule within_trans [OF within_fold(1) within_fold(2)]) simp
  subgoal by (rule within_fold(1)) simp
  done

lemma sorted_ends:
  assumes "sorted_wrt (\<lambda>a b. f a \<le> f b) xs" "x \<in> set xs"
  shows "f (xs ! 0) \<le> f x \<and> f x \<le> (f (last xs) :: int)"
proof -
  from assms(2) obtain k where k: "k < length xs" "x = xs ! k" by (auto simp: in_set_conv_nth)
  have "f (xs ! 0) \<le> f (xs ! k)"
    using assms(1) k(1) by (cases "k = 0") (auto simp: sorted_wrt_iff_nth_less)
  moreover have "f (xs ! k) \<le> f (xs ! (length xs - 1))"
    using assms(1) k(1) by (cases "k = length xs - 1") (auto simp: sorted_wrt_iff_nth_less)
  ultimately show ?thesis using k by (metis last_conv_nth list.size(3) not_less_zero)
qed

lemma sorted_key: "sorted_wrt (\<lambda>a b. f a \<le> f b) (sort_key (f :: 'a \<Rightarrow> int) xs)"
  by (metis sorted_map sorted_sort_key)

lemma event_within: "e \<in> set (te_events d) \<Longrightarrow> within (ev_at e, ev_at e) (event_get_bounds (event_sort d))"
proof -
  assume e: "e \<in> set (te_events d)"
  then have "e \<in> set (sort_key ev_at (te_events d))" by simp
  from sorted_ends [OF sorted_key this] e show ?thesis
    by (cases "te_events d") (auto simp: within_def event_get_bounds_def event_sort_def sort_events_eq)
qed

lemma range_within:
  assumes "r \<in> set (dr_ranges d)" "\<And>r. r \<in> set (dr_ranges d) \<Longrightarrow> r_start r \<le> r_end r"
  shows "within (r_start r, r_start r) (range_get_bounds (range_sort d))"
proof -
  let ?s = "sort_key r_start (dr_ranges d)"
  from assms(1) have r: "r \<in> set ?s" by simp
  then have ne: "?s \<noteq> []" by (metis empty_iff empty_set)
  then have "last ?s \<in> set (dr_ranges d)" using last_in_set [OF ne] by simp
  with assms(2) have "r_start (last ?s) \<le> r_end (last ?s)" by simp
  with sorted_ends [OF sorted_key r] ne show ?thesis
    by (auto simp: within_def range_get_bounds_def range_sort_def sort_ranges_eq last_conv_nth)
qed

section \<open>Colours\<close>

text \<open>The colours of the legends, looked up one after the other by \<open>main\<close>.\<close>

fun lookup_all :: "string list \<Rightarrow> colors \<Rightarrow> (color list \<times> colors) py" where
  "lookup_all [] cs = Inr ([], cs)"
| "lookup_all (n # ns) cs =
     py_bind (colors_lookup n cs) (\<lambda>(c, cs). py_bind (lookup_all ns cs) (\<lambda>(r, cs). Inr (c # r, cs)))"

lemma colors_lookup_known:
  "has_key (col_dict cs) n \<Longrightarrow> \<exists>c. map_of (col_dict cs) n = Some c \<and> colors_lookup n cs = Inr (c, cs)"
  by (auto simp: colors_lookup_def has_key_def dict_get_def)

lemma colors_lookup_new:
  "\<not> has_key (col_dict cs) n \<Longrightarrow> colors_lookup n cs =
     (if default_colors cs = [] then Inl IndexError
      else Inr (last (default_colors cs),
                \<lparr>default_colors = butlast (default_colors cs),
                 col_dict = AList.update n (last (default_colors cs)) (col_dict cs)\<rparr>))"
  by (auto simp: colors_lookup_def colors_add_def dict_get_def dict_simps)

lemma lookup_all_enough:
  "distinct ns \<Longrightarrow>
   (if length (filter (\<lambda>n. \<not> has_key (col_dict cs) n) ns) \<le> length (default_colors cs)
    then \<exists>r cs'. lookup_all ns cs = Inr (r, cs') \<and> length r = length ns
    else lookup_all ns cs = Inl IndexError)"
proof (induction ns arbitrary: cs)
  case Nil
  then show ?case by simp
next
  case (Cons n ns)
  show ?case
  proof (cases "has_key (col_dict cs) n")
    case True
    with colors_lookup_known [OF True] Cons.IH [of cs] Cons.prems show ?thesis by (auto split: if_splits)
  next
    case False
    show ?thesis
    proof (cases "default_colors cs = []")
      case True
      with False show ?thesis by (simp add: colors_lookup_new)
    next
      case d: False
      let ?cs = "\<lparr>default_colors = butlast (default_colors cs),
        col_dict = AList.update n (last (default_colors cs)) (col_dict cs)\<rparr>"
      have "filter (\<lambda>m. \<not> has_key (col_dict ?cs) m) ns = filter (\<lambda>m. \<not> has_key (col_dict cs) m) ns"
        using Cons.prems by (auto simp: has_key_def dict_simps intro!: filter_cong)
      moreover have "Suc k \<le> length (default_colors cs) \<longleftrightarrow> k \<le> length (butlast (default_colors cs))" for k
        using d by (cases "default_colors cs" rule: rev_cases) auto
      ultimately show ?thesis
        using Cons.IH [of ?cs] Cons.prems False d by (auto simp: colors_lookup_new split: if_splits)
    qed
  qed
qed

section \<open>Properties\<close>



text \<open>
  On events with strictly increasing times \<open>get_events\<close> returns the events of the closed
  window, followed by the first event after the window unless an event falls on its end.
\<close>

lemma get_events_window:
  assumes "sorted_wrt (\<lambda>a b. ev_at a < ev_at b) (te_events t)" "start \<le> stop"
  shows "get_events t start stop =
     filter (\<lambda>e. start \<le> ev_at e \<and> ev_at e \<le> stop) (te_events t) @
     (if stop \<in> ev_at ` set (te_events t) then []
      else take 1 (filter (\<lambda>e. stop < ev_at e) (te_events t)))"
  by (rule get_events_window_aux [OF assms])

text \<open>
  C13: \<open>read_data\<close> files every matched line under its two names and nothing else: for all
  names the stored ranges, string events and integer events are those of the lines with
  these names, in a stable order by time.
\<close>

lemma read_data_contents:
  "ranges_of (snd (read_data lines)) a b = sort_key r_start (range_entries (map match_line lines) a b) \<and>
   events_of tl_event_str (snd (read_data lines)) a b = sort_key ev_at (str_entries (map match_line lines) a b) \<and>
   events_of tl_event_int (snd (read_data lines)) a b = sort_key ev_at (int_entries (map match_line lines) a b)"
proof -
  obtain cs ts where f: "foldl read_line (new_colors, []) (map match_line lines) = (cs, ts)" by force
  show ?thesis
    using read_lines_effect [OF f] by (simp add: read_data_fold f contents_sort contents_Nil)
qed

text \<open>
  The bounds of sorted timelines contain 0 and the time of every event, and the start of
  every range when no range ends before it starts.
\<close>

lemma timelines_bounds:
  assumes "t \<in> set ts" "timelines_get_bounds (timelines_sort ts) = (lo, hi)"
  shows "lo \<le> 0 \<and> 0 \<le> hi \<and>
    (\<forall>d \<in> set (tl_event_str t) \<union> set (tl_event_int t). \<forall>e \<in> set (te_events d). lo \<le> ev_at e \<and> ev_at e \<le> hi) \<and>
    (\<forall>d \<in> set (tl_ranges t). (\<forall>r \<in> set (dr_ranges d). r_start r \<le> r_end r) \<longrightarrow>
       (\<forall>r \<in> set (dr_ranges d). lo \<le> r_start r \<and> r_start r \<le> hi))"
proof -
  have "within (timeline_get_bounds (timeline_sort t)) (lo, hi)"
    using assms within_fold(1) [of "timeline_get_bounds (timeline_sort t)"
        "map timeline_get_bounds (map timeline_sort ts)" "(0, 0)"]
    by (simp add: timelines_get_bounds_def timelines_sort_def)
  note tw = within_trans [OF timeline_within(1) this] within_trans [OF timeline_within(2) this]
    within_trans [OF timeline_within(3) this]
  have "within (0, 0) (lo, hi)"
    using assms(2) within_fold(2) [of "(0, 0)" "map timeline_get_bounds (map timeline_sort ts)"]
    by (simp add: timelines_get_bounds_def timelines_sort_def)
  moreover have "within (ev_at e, ev_at e) (lo, hi)"
    if "d \<in> set (tl_event_str t) \<union> set (tl_event_int t)" "e \<in> set (te_events d)" for d e
    using that within_trans [OF event_within tw(2)] within_trans [OF event_within tw(3)]
    by (auto simp: timeline_sort_def)
  moreover have "within (r_start r, r_start r) (lo, hi)"
    if "d \<in> set (tl_ranges t)" "\<forall>r \<in> set (dr_ranges d). r_start r \<le> r_end r" "r \<in> set (dr_ranges d)" for d r
    using that within_trans [OF range_within tw(1)] by (auto simp: timeline_sort_def)
  ultimately show ?thesis by (simp add: within_def)
qed

text \<open>
  Looking up the colours of pairwise distinct values succeeds exactly when at most as
  many of them lack a colour of their own as the palette has left; otherwise it raises an
  \<open>IndexError\<close>. The palette starts with six colours.
\<close>

lemma colors_lookup_all:
  assumes "distinct ns"
  shows "length (default_colors new_colors) = 6 \<and>
    (if length (filter (\<lambda>n. \<not> has_key (col_dict cs) n) ns) \<le> length (default_colors cs)
     then \<exists>r cs'. lookup_all ns cs = Inr (r, cs') \<and> length r = length ns
     else lookup_all ns cs = Inl IndexError)"
  using lookup_all_enough [OF assms, of cs] by (simp add: new_colors_def)

end
