(* ===== verification/Test_Jobs.thy ===== *)
theory Test_Jobs
  imports Py_Prelude
begin

text \<open>
  The part of \<open>test.py\<close> that decides what to run: the command-line options, the names and
  paths of programs, the environment of the tests, the examples listed in the
  \<open>examples-to-run.py\<close> files, the selection of test suites, and the jobs that are queued
  for the worker threads. The waf configuration, the file system, the test runner and the
  conditions that the source hands to \<open>eval\<close> are parameters. Elapsed times are counted in
  milliseconds, the resolution in which they are printed.
\<close>

section \<open>Options and configuration\<close>

record test_options =
  buildpath :: string
  constrain :: string
  duration :: bool
  example :: string
  update_data :: bool
  fullness :: string
  valgrind :: bool
  kinds :: bool
  list_tests :: bool
  multiple :: bool
  nowaf :: bool
  pyexample :: string
  retain :: bool
  suite :: string
  text_file :: string
  verbose :: bool
  html_file :: string
  xml_file :: string

definition default_options :: test_options where
  "default_options = \<lparr>buildpath = [], constrain = [], duration = False, example = [],
     update_data = False, fullness = ''QUICK'', valgrind = False, kinds = False,
     list_tests = False, multiple = False, nowaf = False, pyexample = [], retain = False,
     suite = [], text_file = [], verbose = False, html_file = [], xml_file = []\<rparr>"

text \<open>The items of the waf configuration that \<open>read_waf_config\<close> leaves in global variables.\<close>

record waf_config =
  NS3_BASEDIR :: string
  NS3_BUILDDIR :: string
  NS3_ENABLED_MODULES :: "string list"
  NS3_MODULE_PATH :: "string list"
  NSC_ENABLED :: bool
  ENABLE_EXAMPLES :: bool
  ENABLE_TESTS :: bool
  EXAMPLE_DIRECTORIES :: "string list"
  ENABLE_PYTHON_BINDINGS :: bool
  APPNAME :: string
  BUILD_PROFILE :: string
  VERSION :: string
  PYTHON :: "string list"
  VALGRIND_FOUND :: bool

text \<open>The initial values of the globals, before the configuration is read.\<close>

definition initial_config :: "string \<Rightarrow> string \<Rightarrow> waf_config" where
  "initial_config base build = \<lparr>NS3_BASEDIR = base, NS3_BUILDDIR = build, NS3_ENABLED_MODULES = [],
     NS3_MODULE_PATH = [], NSC_ENABLED = False, ENABLE_EXAMPLES = True, ENABLE_TESTS = True,
     EXAMPLE_DIRECTORIES = [], ENABLE_PYTHON_BINDINGS = False, APPNAME = [], BUILD_PROFILE = [],
     VERSION = [], PYTHON = [], VALGRIND_FOUND = True\<rparr>"

datatype platform = Darwin | Win32 | Cygwin | OtherPlatform

definition core_kinds :: "string list" where
  "core_kinds = [''bvt'', ''core'', ''performance'', ''system'', ''unit'']"

definition core_valgrind_skip_tests :: "string list" where
  "core_valgrind_skip_tests = [''ns3-tcp-cwnd'', ''nsc-tcp-loss'', ''ns3-tcp-interoperability'',
     ''routing-click'', ''lte-rr-ff-mac-scheduler'', ''lte-tdmt-ff-mac-scheduler'',
     ''lte-fdmt-ff-mac-scheduler'', ''lte-pf-ff-mac-scheduler'', ''lte-tta-ff-mac-scheduler'',
     ''lte-fdbet-ff-mac-scheduler'', ''lte-ttbet-ff-mac-scheduler'',
     ''lte-fdtbfq-ff-mac-scheduler'', ''lte-tdtbfq-ff-mac-scheduler'', ''lte-pss-ff-mac-scheduler'']"

definition core_nsc_missing_skip_tests :: "string list" where
  "core_nsc_missing_skip_tests = [''ns3-tcp-cwnd'', ''nsc-tcp-loss'', ''ns3-tcp-interoperability'']"

definition BUILD_PROFILE_SUFFIX :: "waf_config \<Rightarrow> string" where
  "BUILD_PROFILE_SUFFIX cfg = (if BUILD_PROFILE cfg = ''release'' then [] else ''-'' @ BUILD_PROFILE cfg)"

text \<open>The format \<open>"%s%s-%s%s" % (APPNAME, VERSION, name, BUILD_PROFILE_SUFFIX)\<close>.\<close>

definition program_name :: "waf_config \<Rightarrow> string \<Rightarrow> string" where
  "program_name cfg name = APPNAME cfg @ VERSION cfg @ ''-'' @ name @ BUILD_PROFILE_SUFFIX cfg"

definition test_runner_name :: "waf_config \<Rightarrow> string" where
  "test_runner_name cfg = program_name cfg ''test-runner''"

definition basename :: "string \<Rightarrow> string" where
  "basename p = last (split_char (CHR ''/'') p)"

definition waf_cmd :: "platform \<Rightarrow> test_options \<Rightarrow> string" where
  "waf_cmd plat opts =
     (if kinds opts \<or> list_tests opts \<or> (constrain opts \<noteq> [] \<and> constrain opts \<in> set core_kinds)
      then (if plat = Win32 then ''waf --target=test-runner'' else ''./waf --target=test-runner'')
      else if example opts \<noteq> []
      then (if plat = Win32 then ''waf --target='' @ basename (example opts)
            else ''./waf --target='' @ basename (example opts))
      else (if plat = Win32 then ''waf'' else ''./waf''))"

section \<open>The environment of the tests\<close>

definition environ_get :: "(string, string) dict \<Rightarrow> string \<Rightarrow> string" where
  "environ_get env k = (case map_of env k of Some v \<Rightarrow> v | None \<Rightarrow> [])"

text \<open>\<open>os.environ[k] += s\<close> for a key that is present.\<close>

definition environ_append :: "string \<Rightarrow> string \<Rightarrow> (string, string) dict \<Rightarrow> (string, string) dict" where
  "environ_append k s env = AList.update k (environ_get env k @ s) env"

definition add_module_paths ::
  "string \<Rightarrow> string \<Rightarrow> bool \<Rightarrow> string list \<Rightarrow> (string, string) dict \<Rightarrow> (string, string) dict" where
  "add_module_paths k sep have_k paths env =
     foldl (\<lambda>env path. environ_append k (sep @ path) env)
       (if have_k then env else AList.update k [] env) paths"

definition make_paths :: "waf_config \<Rightarrow> platform \<Rightarrow> (string, string) dict \<Rightarrow> (string, string) dict" where
  "make_paths cfg plat env =
     (let have_DYLD_LIBRARY_PATH = has_key env ''DYLD_LIBRARY_PATH'';
          have_LD_LIBRARY_PATH = has_key env ''LD_LIBRARY_PATH'';
          have_PATH = has_key env ''PATH'';
          have_PYTHONPATH = has_key env ''PYTHONPATH'';
          pypath = path_join (path_join (NS3_BUILDDIR cfg) ''bindings'') ''python'';
          env = AList.update ''PYTHONPATH'' pypath env;
          env = (if \<not> have_PYTHONPATH then AList.update ''PYTHONPATH'' pypath env
                 else environ_append ''PYTHONPATH'' ('':'' @ pypath) env)
      in case plat of
           Darwin \<Rightarrow> add_module_paths ''DYLD_LIBRARY_PATH'' '':'' have_DYLD_LIBRARY_PATH (NS3_MODULE_PATH cfg) env
         | Win32 \<Rightarrow> add_module_paths ''PATH'' '';'' have_PATH (NS3_MODULE_PATH cfg) env
         | Cygwin \<Rightarrow> add_module_paths ''PATH'' '':'' have_PATH (NS3_MODULE_PATH cfg) env
         | OtherPlatform \<Rightarrow>
             add_module_paths ''LD_LIBRARY_PATH'' '':'' have_LD_LIBRARY_PATH (NS3_MODULE_PATH cfg) env)"

section \<open>Running one command\<close>

text \<open>
  What a subprocess leaves behind: its return code, standard output, standard error and the
  elapsed time. \<open>system cmd dir\<close> is the process itself.
\<close>

type_synonym proc_result = "int \<times> string \<times> string \<times> nat"

type_synonym system = "string \<Rightarrow> string \<Rightarrow> proc_result"

definition job_command :: "waf_config \<Rightarrow> string \<Rightarrow> bool \<Rightarrow> bool \<Rightarrow> string \<Rightarrow> string py" where
  "job_command cfg shell_command use_valgrind is_python build_path =
     (let suppressions_path = path_join (NS3_BASEDIR cfg) ''testpy.supp''
      in py_bind
           (if is_python
            then (case PYTHON cfg of
                    [] \<Rightarrow> Inl IndexError
                  | py # _ \<Rightarrow> Inr (py @ '' '' @ path_join (NS3_BASEDIR cfg) shell_command))
            else if build_path \<noteq> [] then Inr (path_join build_path shell_command)
            else Inr (path_join (NS3_BUILDDIR cfg) shell_command))
           (\<lambda>path_cmd. Inr
             (if use_valgrind
              then ''valgrind --suppressions='' @ suppressions_path @
                   '' --leak-check=full --show-reachable=yes --error-exitcode=2 '' @ path_cmd
              else path_cmd)))"

definition run_job_synchronously ::
  "system \<Rightarrow> waf_config \<Rightarrow> string \<Rightarrow> string \<Rightarrow> bool \<Rightarrow> bool \<Rightarrow> string \<Rightarrow> proc_result py" where
  "run_job_synchronously system cfg shell_command directory use_valgrind is_python build_path =
     py_bind (job_command cfg shell_command use_valgrind is_python build_path) (\<lambda>cmd.
       case system cmd directory of (retval, stdout_results, stderr_results, elapsed) \<Rightarrow>
         Inr (if use_valgrind \<and> retval = 0 \<and> contains stderr_results ''== LEAK SUMMARY:'' then 2 else retval,
              stdout_results, stderr_results, elapsed))"

section \<open>Jobs\<close>

record job =
  is_break :: bool
  is_skip :: bool
  is_example :: bool
  is_pyexample :: bool
  shell_command :: string
  display_name :: string
  basedir :: string
  tempdir :: string
  job_cwd :: string
  tmp_file_name :: string
  returncode :: int
  elapsed_time :: nat
  build_path :: string

definition new_job :: job where
  "new_job = \<lparr>is_break = False, is_skip = False, is_example = False, is_pyexample = False,
     shell_command = [], display_name = [], basedir = [], tempdir = [], job_cwd = [],
     tmp_file_name = [], returncode = 0, elapsed_time = 0, build_path = []\<rparr>"

section \<open>Examples\<close>

type_synonym cpp_example = "string \<times> string \<times> string"

type_synonym py_example = "string \<times> string"

record example_lists =
  example_tests :: "cpp_example list"
  example_names_original :: "string list"
  python_tests :: "py_example list"

definition add_cpp_example ::
  "(string \<Rightarrow> bool) \<Rightarrow> waf_config \<Rightarrow> string \<Rightarrow> example_lists \<Rightarrow> cpp_example \<Rightarrow> example_lists" where
  "add_cpp_example exists cfg cpp_executable_dir ls ex =
     (case ex of (example_name_original, do_run, do_valgrind_run) \<Rightarrow>
        let example_name_parts = split_once (CHR '' '') example_name_original;
            example_name = program_name cfg (hd example_name_parts);
            example_path = path_join cpp_executable_dir example_name
        in if exists example_path
           then ls\<lparr>example_tests := example_tests ls @
                    [(if length example_name_parts \<noteq> 1 then example_path @ '' '' @ example_name_parts ! 1
                      else example_path, do_run, do_valgrind_run)],
                   example_names_original := example_names_original ls @ [example_name_original]\<rparr>
           else ls)"

definition add_python_example ::
  "(string \<Rightarrow> bool) \<Rightarrow> string \<Rightarrow> example_lists \<Rightarrow> py_example \<Rightarrow> example_lists" where
  "add_python_example exists python_script_dir ls ex =
     (case ex of (example_name, do_run) \<Rightarrow>
        let example_name_parts = split_once (CHR '' '') example_name;
            example_path = path_join python_script_dir (hd example_name_parts)
        in if exists example_path
           then ls\<lparr>python_tests := python_tests ls @
                    [(if length example_name_parts \<noteq> 1 then example_path @ '' '' @ example_name_parts ! 1
                      else example_path, do_run)]\<rparr>
           else ls)"

text \<open>\<open>lists_of path\<close> are the lists \<open>cpp_examples\<close> and \<open>python_examples\<close> of the file.\<close>

definition parse_examples_to_run_file ::
  "(string \<Rightarrow> bool) \<Rightarrow> (string \<Rightarrow> cpp_example list \<times> py_example list) \<Rightarrow> waf_config \<Rightarrow>
     string \<Rightarrow> string \<Rightarrow> string \<Rightarrow> example_lists \<Rightarrow> example_lists" where
  "parse_examples_to_run_file exists lists_of cfg examples_to_run_path cpp_executable_dir python_script_dir ls =
     (if exists examples_to_run_path
      then (case lists_of examples_to_run_path of (cpp_examples, python_examples) \<Rightarrow>
              foldl (add_python_example exists python_script_dir)
                (foldl (add_cpp_example exists cfg cpp_executable_dir) ls cpp_examples) python_examples)
      else ls)"

definition example_directory_files :: "waf_config \<Rightarrow> string \<Rightarrow> string \<times> string \<times> string" where
  "example_directory_files cfg directory =
     (let example_directory = path_join ''examples'' directory
      in (path_join example_directory ''examples-to-run.py'',
          path_join (NS3_BUILDDIR cfg) example_directory, example_directory))"

definition module_files :: "waf_config \<Rightarrow> string \<Rightarrow> string \<times> string \<times> string" where
  "module_files cfg module =
     (let module_directory = path_join ''src'' (drop (length ''ns3-'') module);
          example_directory = path_join module_directory ''examples''
      in (path_join (path_join module_directory ''test'') ''examples-to-run.py'',
          path_join (NS3_BUILDDIR cfg) example_directory, example_directory))"

definition collect_examples ::
  "(string \<Rightarrow> bool) \<Rightarrow> (string \<Rightarrow> cpp_example list \<times> py_example list) \<Rightarrow> waf_config \<Rightarrow> example_lists" where
  "collect_examples exists lists_of cfg =
     foldl (\<lambda>ls (p, c, s). parse_examples_to_run_file exists lists_of cfg p c s ls)
       \<lparr>example_tests = [], example_names_original = [], python_tests = []\<rparr>
       (map (example_directory_files cfg) (EXAMPLE_DIRECTORIES cfg) @
        map (module_files cfg) (NS3_ENABLED_MODULES cfg))"

definition runnable_programs_dictionary :: "string list \<Rightarrow> (string, string) dict" where
  "runnable_programs_dictionary programs =
     foldl (\<lambda>d program. AList.update (basename program) program d) [] programs"

section \<open>Suites\<close>

text \<open>
  \<open>names kind\<close> is what the test runner prints for \<open>--print-test-name-list\<close>, with
  \<open>--test-type=kind\<close> unless \<open>kind\<close> is empty. An unknown suite ends the program with exit
  code 2, here \<open>Inl 2\<close>.
\<close>

definition select_suites :: "(string \<Rightarrow> string) \<Rightarrow> test_options \<Rightarrow> int + string" where
  "select_suites names opts =
     (if suite opts \<noteq> []
      then (if suite opts \<in> set (split_char (CHR 0x0A) (names [])) then Inr (suite opts @ [CHR 0x0A])
            else Inl 2)
      else if example opts = [] \<and> pyexample opts = []
      then (if constrain opts \<noteq> [] then Inr (names (constrain opts)) else Inr (names []))
      else Inr [])"

definition drop_performance :: "(string \<Rightarrow> string) \<Rightarrow> test_options \<Rightarrow> string list \<Rightarrow> string list" where
  "drop_performance names opts suite_list =
     (if constrain opts \<noteq> ''performance''
      then foldl (\<lambda>l p. if p \<in> set l then remove1 p l else l) suite_list
             (split_char (CHR 0x0A) (names ''performance''))
      else suite_list)"

definition suite_list :: "(string \<Rightarrow> string) \<Rightarrow> test_options \<Rightarrow> int + string list" where
  "suite_list names opts =
     (case select_suites names opts of
        Inl code \<Rightarrow> Inl code
      | Inr suites \<Rightarrow> Inr (drop_performance names opts (split_char (CHR 0x0A) suites)))"

definition upper_char :: "char \<Rightarrow> char" where
  "upper_char c = (if c \<in> set ''abcdefghijklmnopqrstuvwxyz'' then char_of (of_char c - 32 :: nat) else c)"

definition suite_job :: "waf_config \<Rightarrow> test_options \<Rightarrow> string \<Rightarrow> string \<Rightarrow> string \<Rightarrow> job" where
  "suite_job cfg opts getcwd outdir test =
     (let multiple_arg = (if multiple opts then [] else '' --stop-on-failure'');
          fullness_arg = (if fullness opts \<noteq> [] then '' --fullness='' @ map upper_char (fullness opts)
                          else '' --fullness=QUICK'')
      in new_job\<lparr>
           is_example := False,
           is_pyexample := False,
           display_name := test,
           tmp_file_name := path_join outdir (test @ ''.xml''),
           job_cwd := getcwd,
           basedir := getcwd,
           tempdir := outdir,
           shell_command := path_join ''utils''
             (test_runner_name cfg @ '' --test-name='' @ test @ multiple_arg @ fullness_arg),
           is_skip := (valgrind opts \<and> test \<in> set core_valgrind_skip_tests) \<or>
                      (\<not> NSC_ENABLED cfg \<and> test \<in> set core_nsc_missing_skip_tests)\<rparr>)"

definition suite_jobs :: "waf_config \<Rightarrow> test_options \<Rightarrow> string \<Rightarrow> string \<Rightarrow> string list \<Rightarrow> job list" where
  "suite_jobs cfg opts getcwd outdir tests =
     map (suite_job cfg opts getcwd outdir) (filter (\<lambda>t. t \<noteq> []) (map strip tests))"

section \<open>Example jobs\<close>

definition example_base_job :: "string \<Rightarrow> string \<Rightarrow> string \<Rightarrow> job" where
  "example_base_job getcwd outdir path =
     new_job\<lparr>display_name := path, tmp_file_name := [], job_cwd := outdir, basedir := getcwd,
       tempdir := outdir, shell_command := path\<rparr>"

definition test_name :: "string \<Rightarrow> string" where
  "test_name test = basename (hd (split_once (CHR '' '') test))"

definition cpp_example_jobs ::
  "(string \<Rightarrow> bool) \<Rightarrow> test_options \<Rightarrow> string \<Rightarrow> string \<Rightarrow> (string, string) dict \<Rightarrow> cpp_example list \<Rightarrow> job list" where
  "cpp_example_jobs eval opts getcwd outdir programs tests =
     concat (map (\<lambda>(test, do_run, do_valgrind_run).
       if has_key programs (test_name test) \<and> eval do_run
       then [(example_base_job getcwd outdir test)
               \<lparr>is_example := True, is_pyexample := False, build_path := buildpath opts,
                is_skip := valgrind opts \<and> \<not> eval do_valgrind_run\<rparr>]
       else []) tests)"

definition single_example_jobs ::
  "(string \<Rightarrow> string) \<Rightarrow> waf_config \<Rightarrow> test_options \<Rightarrow> string \<Rightarrow> string \<Rightarrow> (string, string) dict \<Rightarrow> job list" where
  "single_example_jobs abspath cfg opts getcwd outdir programs =
     (case map_of programs (program_name cfg (example opts)) of
        None \<Rightarrow> []
      | Some path \<Rightarrow>
          [(example_base_job getcwd outdir (abspath path))
             \<lparr>is_example := True, is_pyexample := False, build_path := buildpath opts\<rparr>])"

definition example_jobs ::
  "(string \<Rightarrow> bool) \<Rightarrow> (string \<Rightarrow> string) \<Rightarrow> waf_config \<Rightarrow> test_options \<Rightarrow> string \<Rightarrow> string \<Rightarrow>
     (string, string) dict \<Rightarrow> cpp_example list \<Rightarrow> job list" where
  "example_jobs eval abspath cfg opts getcwd outdir programs tests =
     (if suite opts = [] \<and> example opts = [] \<and> pyexample opts = []
      then (if (constrain opts = [] \<or> constrain opts = ''example'') \<and> ENABLE_EXAMPLES cfg
            then cpp_example_jobs eval opts getcwd outdir programs tests else [])
      else if example opts \<noteq> [] then single_example_jobs abspath cfg opts getcwd outdir programs
      else [])"

definition python_example_jobs ::
  "(string \<Rightarrow> bool) \<Rightarrow> waf_config \<Rightarrow> test_options \<Rightarrow> string \<Rightarrow> string \<Rightarrow> string list \<Rightarrow> py_example list \<Rightarrow> job list" where
  "python_example_jobs eval cfg opts getcwd outdir scripts tests =
     concat (map (\<lambda>(test, do_run).
       if test_name test \<in> set scripts \<and> eval do_run
       then [(example_base_job getcwd outdir test)
               \<lparr>is_example := False, is_pyexample := True, build_path := [],
                is_skip := valgrind opts \<or> \<not> ENABLE_PYTHON_BINDINGS cfg\<rparr>]
       else []) tests)"

definition pyexample_jobs ::
  "(string \<Rightarrow> bool) \<Rightarrow> waf_config \<Rightarrow> test_options \<Rightarrow> string \<Rightarrow> string \<Rightarrow> string list \<Rightarrow> py_example list \<Rightarrow> job list" where
  "pyexample_jobs eval cfg opts getcwd outdir scripts tests =
     (if suite opts = [] \<and> example opts = [] \<and> pyexample opts = []
      then (if (constrain opts = [] \<or> constrain opts = ''pyexample'') \<and> ENABLE_EXAMPLES cfg
            then python_example_jobs eval cfg opts getcwd outdir scripts tests else [])
      else if pyexample opts \<noteq> []
      then (if basename (pyexample opts) \<in> set scripts
            then [(example_base_job getcwd outdir (pyexample opts))\<lparr>is_pyexample := True, build_path := []\<rparr>]
            else [])
      else [])"

text \<open>The surroundings of one invocation of \<open>test.py\<close>.\<close>

record test_world =
  path_exists :: "string \<Rightarrow> bool"
  example_lists_of :: "string \<Rightarrow> cpp_example list \<times> py_example list"
  names_of_kind :: "string \<Rightarrow> string"
  eval_condition :: "string \<Rightarrow> bool"
  abspath_of :: "string \<Rightarrow> string"
  current_dir :: string
  output_dir :: string
  runnable_programs :: "string list"
  runnable_scripts :: "string list"

text \<open>All jobs of a run, in the order in which they are put on the input queue.\<close>

definition queued_jobs :: "test_world \<Rightarrow> waf_config \<Rightarrow> test_options \<Rightarrow> int + job list" where
  "queued_jobs w cfg opts =
     (let ls = collect_examples (path_exists w) (example_lists_of w) cfg;
          programs = runnable_programs_dictionary (runnable_programs w)
      in case suite_list (names_of_kind w) opts of
           Inl code \<Rightarrow> Inl code
         | Inr tests \<Rightarrow> Inr
             (suite_jobs cfg opts (current_dir w) (output_dir w) tests @
              example_jobs (eval_condition w) (abspath_of w) cfg opts (current_dir w) (output_dir w)
                programs (example_tests ls) @
              pyexample_jobs (eval_condition w) cfg opts (current_dir w) (output_dir w)
                (runnable_scripts w) (python_tests ls)))"

section \<open>Lemmas\<close>

lemma map_of_environ_append:
  "map_of (environ_append k s env) = (map_of env)(k \<mapsto> environ_get env k @ s)"
  by (simp add: environ_append_def dict_simps)

lemma environ_get_append: "environ_get (environ_append k s env) k = environ_get env k @ s"
  by (simp add: environ_get_def map_of_environ_append)

lemma map_of_fold_append:
  "map_of (foldl (\<lambda>env path. environ_append k (sep @ path) env) env paths) k' =
     (if k' = k \<and> paths \<noteq> [] then Some (environ_get env k @ concat (map (\<lambda>p. sep @ p) paths)) else map_of env k')"
proof (induction paths arbitrary: env)
  case Nil
  then show ?case by simp
next
  case (Cons p ps)
  then show ?case
    by (cases "ps = []") (auto simp: map_of_environ_append environ_get_append)
qed

lemma map_of_add_module_paths:
  "map_of (add_module_paths k sep (has_key env k) paths env) k' =
     (if k' = k then Some (environ_get env k @ concat (map (\<lambda>p. sep @ p) paths)) else map_of env k')"
  by (cases "map_of env k") (auto simp: add_module_paths_def map_of_fold_append map_of_update environ_get_def has_key_def)

lemma remove_all_filter:
  "distinct l \<Longrightarrow> foldl (\<lambda>l p. if p \<in> set l then remove1 p l else l) l ps = filter (\<lambda>t. t \<notin> set ps) l"
proof (induction ps arbitrary: l)
  case Nil
  then show ?case by simp
next
  case (Cons p ps)
  have "(if p \<in> set l then remove1 p l else l) = filter (\<lambda>t. t \<noteq> p) l"
  proof (cases "p \<in> set l")
    case True
    with Cons.prems have "remove1 p l = removeAll p l" by (simp add: distinct_remove1_removeAll)
    with True show ?thesis by (simp add: removeAll_filter_not_eq eq_commute)
  next
    case False
    then have "filter (\<lambda>t. t \<noteq> p) l = l" by (intro filter_True) auto
    with False show ?thesis by simp
  qed
  moreover have "distinct (filter (\<lambda>t. t \<noteq> p) l)" using Cons.prems by simp
  ultimately show ?case using Cons.IH by (simp add: conj_commute)
qed

lemma queued_not_break:
  assumes "queued_jobs w cfg opts = Inr js" "j \<in> set js"
  shows "\<not> is_break j"
proof -
  have nb: "\<not> is_break new_job" by (simp add: new_job_def)
  have "\<not> is_break (suite_job cfg opts a b t)" for a b t
    by (simp add: suite_job_def Let_def nb)
  moreover have "\<not> is_break (example_base_job a b t)" for a b t
    by (simp add: example_base_job_def nb)
  ultimately show ?thesis
    using assms
    by (auto simp: queued_jobs_def Let_def suite_jobs_def example_jobs_def pyexample_jobs_def
        cpp_example_jobs_def single_example_jobs_def python_example_jobs_def
        split: sum.splits if_splits option.splits)
qed

lemma split_char_snoc: "c \<notin> set s \<Longrightarrow> split_char c (s @ [c]) = [s, []]"
  by (induction s) auto

lemma path_join_inj:
  "path_join d a = path_join d b \<Longrightarrow> \<not> startswith a ''/'' \<Longrightarrow> \<not> startswith b ''/'' \<Longrightarrow> a = b"
  by (auto simp: path_join_def split: if_splits)

section \<open>Properties\<close>

text \<open>
  C31: \<open>make_paths\<close> appends every module path to the library path variable of the platform,
  keeping what was there, and changes no other variable except \<open>PYTHONPATH\<close>, whose previous
  value is lost: it becomes the bindings directory, twice when the variable was set.
\<close>

lemma make_paths_environment:
  "let env' = make_paths cfg plat env;
       var = (case plat of Darwin \<Rightarrow> ''DYLD_LIBRARY_PATH'' | OtherPlatform \<Rightarrow> ''LD_LIBRARY_PATH'' | _ \<Rightarrow> ''PATH'');
       sep = (if plat = Win32 then '';'' else '':'');
       pypath = path_join (path_join (NS3_BUILDDIR cfg) ''bindings'') ''python''
   in map_of env' var = Some (environ_get env var @ concat (map (\<lambda>p. sep @ p) (NS3_MODULE_PATH cfg))) \<and>
      map_of env' ''PYTHONPATH'' =
        Some (if has_key env ''PYTHONPATH'' then pypath @ '':'' @ pypath else pypath) \<and>
      (\<forall>k. k = var \<or> k = ''PYTHONPATH'' \<or> map_of env' k = map_of env k)"
proof -
  define pypath where "pypath = path_join (path_join (NS3_BUILDDIR cfg) ''bindings'') ''python''"
  define env1 where "env1 = (let e = AList.update ''PYTHONPATH'' pypath env
    in if \<not> has_key env ''PYTHONPATH'' then AList.update ''PYTHONPATH'' pypath e
       else environ_append ''PYTHONPATH'' ('':'' @ pypath) e)"
  define var where "var = (case plat of Darwin \<Rightarrow> ''DYLD_LIBRARY_PATH'' | OtherPlatform \<Rightarrow> ''LD_LIBRARY_PATH'' | _ \<Rightarrow> ''PATH'')"
  define sep where "sep = (if plat = Win32 then '';'' else '':'')"
  have env1: "map_of env1 = (map_of env)(''PYTHONPATH'' \<mapsto>
      (if has_key env ''PYTHONPATH'' then pypath @ '':'' @ pypath else pypath))"
    by (simp add: env1_def Let_def dict_simps map_of_environ_append environ_get_def)
  have var: "var \<noteq> ''PYTHONPATH''" by (simp add: var_def split: platform.splits)
  have same: "has_key env1 var = has_key env var" "environ_get env1 var = environ_get env var"
    using var by (simp_all add: has_key_def environ_get_def env1)
  have mp: "make_paths cfg plat env = add_module_paths var sep (has_key env1 var) (NS3_MODULE_PATH cfg) env1"
    unfolding same(1)
    by (cases plat) (simp_all add: make_paths_def env1_def pypath_def var_def sep_def Let_def)
  show ?thesis
    unfolding Let_def var_def [symmetric] sep_def [symmetric] pypath_def [symmetric] mp map_of_add_module_paths
    using var by (simp add: same env1)
qed

text \<open>
  When no suite and no example is named and the kind is not \<open>performance\<close>, the suites to run
  are those that the test runner lists for the kind, in its order, without the performance
  tests.
\<close>

lemma suite_list_without_performance:
  assumes "suite opts = []" "example opts = []" "pyexample opts = []" "constrain opts \<noteq> ''performance''"
    "distinct (split_char (CHR 0x0A) (names (constrain opts)))"
  shows "suite_list names opts =
    Inr (filter (\<lambda>t. t \<notin> set (split_char (CHR 0x0A) (names ''performance'')))
           (split_char (CHR 0x0A) (names (constrain opts))))"
  using assms by (cases "constrain opts = []") (simp_all add: suite_list_def select_suites_def drop_performance_def remove_all_filter)

text \<open>
  A performance suite that is requested by name, without \<open>--constrain=performance\<close>, is
  removed from the list again: no job at all is queued for it.
\<close>

lemma requested_performance_suite_dropped:
  assumes "suite opts \<noteq> []" "CHR 0x0A \<notin> set (suite opts)"
    "suite opts \<in> set (split_char (CHR 0x0A) (names_of_kind w []))"
    "suite opts \<in> set (split_char (CHR 0x0A) (names_of_kind w ''performance''))"
    "constrain opts \<noteq> ''performance''" "example opts = []" "pyexample opts = []"
  shows "queued_jobs w cfg opts = Inr []"
proof -
  have "suite_list (names_of_kind w) opts = Inr (filter (\<lambda>t. t \<notin> set (split_char (CHR 0x0A) (names_of_kind w ''performance'')))
      [suite opts, []])"
    using assms by (simp add: suite_list_def select_suites_def drop_performance_def split_char_snoc remove_all_filter)
  then show ?thesis
    using assms by (simp add: queued_jobs_def suite_jobs_def example_jobs_def pyexample_jobs_def Let_def strip_def)
qed

text \<open>
  The suites of a run write to different temporary files: jobs for pairwise distinct
  suite names, none of them an absolute path, have pairwise distinct \<open>tmp_file_name\<close>s.
\<close>

lemma suite_jobs_tmp_files:
  assumes "distinct (filter (\<lambda>t. t \<noteq> []) (map strip tests))"
    "list_all (\<lambda>t. \<not> startswith (strip t) ''/'') tests"
  shows "distinct (map tmp_file_name (suite_jobs cfg opts getcwd outdir tests))"
proof -
  have "inj_on (\<lambda>t. path_join outdir (t @ ''.xml'')) (set (filter (\<lambda>t. t \<noteq> []) (map strip tests)))"
  proof (rule inj_onI)
    fix a b
    assume "a \<in> set (filter (\<lambda>t. t \<noteq> []) (map strip tests))" "b \<in> set (filter (\<lambda>t. t \<noteq> []) (map strip tests))"
      and eq: "path_join outdir (a @ ''.xml'') = path_join outdir (b @ ''.xml'')"
    then have "\<not> startswith (a @ ''.xml'') ''/''" "\<not> startswith (b @ ''.xml'') ''/''"
      using assms(2) by (auto simp: list_all_iff startswith_def Cons_prefix_Cons neq_Nil_conv prefix_def)
    with path_join_inj [OF eq] show "a = b" by simp
  qed
  with assms(1) show ?thesis
    by (simp add: suite_jobs_def suite_job_def Let_def distinct_map o_def)
qed

end
