(* ===== verification/Test_Workers.thy ===== *)
theory Test_Workers
  imports Test_Jobs
begin

text \<open>
  The threads of \<open>test.py\<close>: the main thread puts the jobs and one break job per worker on
  the input queue and then takes one result per job from the output queue; every worker
  runs \<open>worker_thread.run\<close>. The model is a step relation in which the threads, and the
  handler of the interrupt signal, interleave at their queue operations and at the reading
  of \<open>thread_exit\<close>. Running a job is a function of the job.
\<close>

section \<open>Queues\<close>

text \<open>\<open>Queue.Queue(0)\<close>: unbounded, first in first out.\<close>

definition queue_put :: "'a list \<Rightarrow> 'a \<Rightarrow> 'a list" where
  "queue_put q x = q @ [x]"

definition queue_get :: "'a list \<Rightarrow> ('a \<times> 'a list) option" where
  "queue_get q = (case q of [] \<Rightarrow> None | x # xs \<Rightarrow> Some (x, xs))"

locale fifo =
  fixes put :: "'q \<Rightarrow> 'a \<Rightarrow> 'q"
    and get :: "'q \<Rightarrow> ('a \<times> 'q) option"
    and contents :: "'q \<Rightarrow> 'a list"
  assumes contents_put: "contents (put q x) = contents q @ [x]"
    and contents_get: "get q = (case contents q of [] \<Rightarrow> None | x # _ \<Rightarrow> Some (x, snd (the (get q))))"
    and contents_rest: "get q = Some (x, q') \<Longrightarrow> contents q = x # contents q'"
begin

lemma get_None: "get q = None \<longleftrightarrow> contents q = []"
  using contents_get [of q] by (cases "contents q") auto

lemma put_all: "contents (foldl put q xs) = contents q @ xs"
  by (induction xs arbitrary: q) (simp_all add: contents_put)

lemma get_after_put: "get q = Some (x, q') \<Longrightarrow> \<exists>q''. get (put q y) = Some (x, q'')"
proof -
  assume "get q = Some (x, q')"
  then have "contents (put q y) = x # contents q' @ [y]" by (simp add: contents_rest contents_put)
  then show ?thesis using contents_get [of "put q y"] by auto
qed

end

interpretation py_queue: fifo queue_put queue_get "\<lambda>q. q"
  by unfold_locales (auto simp: queue_put_def queue_get_def split: list.splits)

section \<open>Running a job\<close>

text \<open>The branch of \<open>worker_thread.run\<close> that launches the job.\<close>

definition launch :: "system \<Rightarrow> waf_config \<Rightarrow> test_options \<Rightarrow> job \<Rightarrow> job py" where
  "launch system cfg opts job =
     py_bind
       (if is_example job \<or> is_pyexample job
        then run_job_synchronously system cfg (shell_command job) (job_cwd job) (valgrind opts)
               (is_pyexample job) (build_path job)
        else run_job_synchronously system cfg
               (shell_command job @ '' --xml --tempdir='' @ tempdir job @ '' --out='' @ tmp_file_name job @
                '' '' @ (if update_data opts then ''--update-data'' else []))
               (job_cwd job) (valgrind opts) False [])
       (\<lambda>(rc, standard_out, standard_err, et). Inr (job\<lparr>returncode := rc, elapsed_time := et\<rparr>))"

text \<open>
  What a worker puts on the output queue for a job that no interrupt has cut off; an
  exception ends the thread without a result.
\<close>

definition work :: "(job \<Rightarrow> job py) \<Rightarrow> job \<Rightarrow> job py" where
  "work launched job = (if is_skip job then Inr job else launched job)"

section \<open>Threads\<close>

text \<open>
  A worker waits at \<open>input_queue.get()\<close>, holds a job whose \<open>thread_exit\<close> test is still to
  come, runs (or skips) a job, or has returned.
\<close>

datatype worker = Waiting | Holding job | Working job | Stopped

record threads =
  todo :: "job list"
  input_queue :: "job list"
  workers :: "worker list"
  output_queue :: "job list"
  collected :: "job list"
  thread_exit :: bool

definition break_job :: job where
  "break_job = new_job\<lparr>is_break := True\<rparr>"

text \<open>
  The main thread dispatches the jobs and then the break jobs (\<open>todo\<close>) while the workers
  are already running, and then collects as many results as it has dispatched jobs.
\<close>

definition start :: "nat \<Rightarrow> job list \<Rightarrow> threads" where
  "start processors jobs = \<lparr>todo = jobs @ replicate processors break_job, input_queue = [],
     workers = replicate processors Waiting, output_queue = [], collected = [], thread_exit = False\<rparr>"

inductive step :: "nat \<Rightarrow> (job \<Rightarrow> job py) \<Rightarrow> threads \<Rightarrow> threads \<Rightarrow> bool"
  for jobs :: nat and launched :: "job \<Rightarrow> job py" where
  dispatch: "todo s = j # js \<Longrightarrow>
     step jobs launched s (s\<lparr>todo := js, input_queue := queue_put (input_queue s) j\<rparr>)"
| get_job: "i < length (workers s) \<Longrightarrow> workers s ! i = Waiting \<Longrightarrow>
     queue_get (input_queue s) = Some (j, q) \<Longrightarrow> \<not> is_break j \<Longrightarrow>
     step jobs launched s (s\<lparr>input_queue := q, workers := (workers s)[i := Holding j]\<rparr>)"
| get_break: "i < length (workers s) \<Longrightarrow> workers s ! i = Waiting \<Longrightarrow>
     queue_get (input_queue s) = Some (j, q) \<Longrightarrow> is_break j \<Longrightarrow>
     step jobs launched s (s\<lparr>input_queue := q, workers := (workers s)[i := Stopped]\<rparr>)"
| interrupted: "i < length (workers s) \<Longrightarrow> workers s ! i = Holding j \<Longrightarrow> thread_exit s \<Longrightarrow>
     step jobs launched s (s\<lparr>output_queue := queue_put (output_queue s) (j\<lparr>is_break := True\<rparr>),
                     workers := (workers s)[i := Waiting]\<rparr>)"
| begin_work: "i < length (workers s) \<Longrightarrow> workers s ! i = Holding j \<Longrightarrow> \<not> thread_exit s \<Longrightarrow>
     step jobs launched s (s\<lparr>workers := (workers s)[i := Working j]\<rparr>)"
| end_work: "i < length (workers s) \<Longrightarrow> workers s ! i = Working j \<Longrightarrow> work launched j = Inr j' \<Longrightarrow>
     step jobs launched s (s\<lparr>output_queue := queue_put (output_queue s) j',
                     workers := (workers s)[i := Waiting]\<rparr>)"
| thread_dies: "i < length (workers s) \<Longrightarrow> workers s ! i = Working j \<Longrightarrow> work launched j = Inl e \<Longrightarrow>
     step jobs launched s (s\<lparr>workers := (workers s)[i := Stopped]\<rparr>)"
| collect: "todo s = [] \<Longrightarrow> length (collected s) < jobs \<Longrightarrow> queue_get (output_queue s) = Some (j, q) \<Longrightarrow>
     step jobs launched s (s\<lparr>output_queue := q, collected := collected s @ [j]\<rparr>)"

text \<open>\<open>sigint_hook\<close> runs in the main thread, whenever the signal arrives.\<close>

definition sigint_hook :: "threads \<Rightarrow> threads" where
  "sigint_hook s = s\<lparr>thread_exit := True\<rparr>"

inductive reachable :: "nat \<Rightarrow> job list \<Rightarrow> (job \<Rightarrow> job py) \<Rightarrow> threads \<Rightarrow> bool"
  for processors :: nat and js :: "job list" and launched :: "job \<Rightarrow> job py" where
  init: "reachable processors js launched (start processors js)"
| run_step: "reachable processors js launched s \<Longrightarrow> step (length js) launched s s' \<Longrightarrow>
     reachable processors js launched s'"
| signal: "reachable processors js launched s \<Longrightarrow> reachable processors js launched (sigint_hook s)"

text \<open>All results are collected and every thread can be joined.\<close>

definition finished :: "nat \<Rightarrow> threads \<Rightarrow> bool" where
  "finished jobs s \<longleftrightarrow> todo s = [] \<and> length (collected s) = jobs \<and> list_all (\<lambda>w. w = Stopped) (workers s)"

inductive_cases waiting_step: "step jobs launched (start p js) s'"

section \<open>Conservation of jobs\<close>

fun held_by :: "worker \<Rightarrow> job list" where
  "held_by (Holding j) = [j]"
| "held_by (Working j) = [j]"
| "held_by _ = []"

definition held_list :: "worker list \<Rightarrow> job multiset" where
  "held_list ws = (\<Sum>w \<leftarrow> ws. mset (held_by w))"

abbreviation held :: "threads \<Rightarrow> job multiset" where
  "held s \<equiv> held_list (workers s)"

definition queued :: "threads \<Rightarrow> job list" where
  "queued s = input_queue s @ todo s"

definition pending :: "threads \<Rightarrow> job multiset" where
  "pending s = mset (filter (\<lambda>j. \<not> is_break j) (queued s)) + held s"

definition reported :: "threads \<Rightarrow> job multiset" where
  "reported s = mset (output_queue s) + mset (collected s)"

lemma sum_list_mset_update:
  "i < length ws \<Longrightarrow> ws ! i = w \<Longrightarrow>
   (\<Sum>w \<leftarrow> ws[i := w']. f w) + f w = (\<Sum>w \<leftarrow> ws. f w) + (f w' :: 'a :: comm_monoid_add)"
proof (induction ws arbitrary: i)
  case Nil
  then show ?case by simp
next
  case (Cons v ws)
  show ?case
  proof (cases i)
    case 0
    then show ?thesis using Cons.prems by (simp add: ac_simps)
  next
    case (Suc k)
    then show ?thesis using Cons.IH [of k] Cons.prems by (simp add: add.assoc)
  qed
qed

lemma held_update:
  assumes "i < length ws" "ws ! i = w"
  shows "held_list (ws[i := w']) + mset (held_by w) = held_list ws + mset (held_by w')"
  using sum_list_mset_update [OF assms, where w' = w' and f = "\<lambda>w. mset (held_by w)"] by (simp add: held_list_def)

text \<open>
  An account of the jobs: \<open>g\<close> values a job before it is worked on and \<open>h\<close> after. When
  working keeps the value, the account of a run is constant.
\<close>

locale job_account =
  fixes g h :: "job \<Rightarrow> 'a"
    and launched :: "job \<Rightarrow> job py"
    and ok :: "threads \<Rightarrow> bool"
  assumes work_value: "work launched j = Inr j' \<Longrightarrow> h j' = g j"
    and interrupt_value: "ok s \<Longrightarrow> thread_exit s \<Longrightarrow> h (j\<lparr>is_break := True\<rparr>) = g j"
begin

definition account :: "threads \<Rightarrow> 'a multiset" where
  "account s = image_mset g (pending s) + image_mset h (reported s)"

lemma account_step:
  assumes "step n launched s s'" "ok s" "\<And>j e. j \<in># held s \<Longrightarrow> work launched j \<noteq> Inl e"
  shows "account s' = account s"
  using assms
proof (induction rule: step.induct)
  case (dispatch s j js)
  then show ?case
    by (simp add: account_def pending_def reported_def queued_def queue_put_def)
next
  case (get_job i s j q)
  have "held_list ((workers s)[i := Holding j]) = held s + {#j#}"
    using held_update [OF get_job(1,2), of "Holding j"] by simp
  moreover have "input_queue s = j # q" by (rule py_queue.contents_rest [OF get_job(3)])
  ultimately show ?case
    using get_job(4) by (simp add: account_def pending_def reported_def queued_def)
next
  case (get_break i s j q)
  have "held_list ((workers s)[i := Stopped]) = held s"
    using held_update [OF get_break(1,2), of Stopped] by simp
  moreover have "input_queue s = j # q" by (rule py_queue.contents_rest [OF get_break(3)])
  ultimately show ?case
    using get_break(4) by (simp add: account_def pending_def reported_def queued_def)
next
  case (interrupted i s j)
  have "held s = add_mset j (held_list ((workers s)[i := Waiting]))"
    using held_update [OF interrupted(1,2), of Waiting] by simp
  then show ?case
    using interrupt_value [OF interrupted(4,3), of j]
    by (simp add: account_def pending_def reported_def queued_def queue_put_def)
next
  case (begin_work i s j)
  have "held_list ((workers s)[i := Working j]) = held s"
    using held_update [OF begin_work(1,2), of "Working j"] by simp
  then show ?case
    by (simp add: account_def pending_def reported_def queued_def)
next
  case (end_work i s j j')
  have "held s = add_mset j (held_list ((workers s)[i := Waiting]))"
    using held_update [OF end_work(1,2), of Waiting] by simp
  then show ?case
    using work_value [OF end_work(3)]
    by (simp add: account_def pending_def reported_def queued_def queue_put_def)
next
  case (thread_dies i s j e)
  have "held s = add_mset j (held_list ((workers s)[i := Stopped]))"
    using held_update [OF thread_dies(1,2), of Stopped] by simp
  with thread_dies(3,5) show ?case by simp
next
  case (collect s j q)
  have "output_queue s = j # q" by (rule py_queue.contents_rest [OF collect(3)])
  then show ?case
    by (simp add: account_def pending_def reported_def queued_def)
qed

end

section \<open>Invariants\<close>

definition stopped_list :: "worker list \<Rightarrow> nat" where
  "stopped_list ws = (\<Sum>w \<leftarrow> ws. if w = Stopped then 1 else 0)"

abbreviation stopped :: "threads \<Rightarrow> nat" where
  "stopped s \<equiv> stopped_list (workers s)"

text \<open>
  Break jobs come last, there is one for every worker that still runs, a worker only stops
  when no real job is left in the queues, and what is pending comes from the list of jobs.
\<close>

definition run_shape :: "nat \<Rightarrow> job list \<Rightarrow> threads \<Rightarrow> bool" where
  "run_shape p js s \<longleftrightarrow>
     length (workers s) = p \<and>
     sorted_wrt (\<lambda>a b. is_break a \<longrightarrow> is_break b) (queued s) \<and>
     length (filter is_break (queued s)) + stopped s = p \<and>
     (0 < stopped s \<longrightarrow> filter (\<lambda>j. \<not> is_break j) (queued s) = []) \<and>
     (\<forall>j \<in># pending s. j \<in> set js \<and> \<not> is_break j)"

definition no_raise :: "(job \<Rightarrow> job py) \<Rightarrow> job list \<Rightarrow> bool" where
  "no_raise launched js \<longleftrightarrow> (\<forall>j \<in> set js. \<forall>e. work launched j \<noteq> Inl e)"

lemma stopped_update:
  "i < length ws \<Longrightarrow> ws ! i = w \<Longrightarrow> w \<noteq> Stopped \<Longrightarrow>
   stopped_list (ws[i := w']) = stopped_list ws + (if w' = Stopped then 1 else 0)"
  using sum_list_mset_update [where f = "\<lambda>w. if w = Stopped then 1 else (0::nat)", of i ws w w']
  by (simp add: stopped_list_def)

lemma shape_start:
  assumes "\<forall>j \<in> set js. \<not> is_break j"
  shows "run_shape p js (start p js)"
proof -
  have "stopped_list (replicate n Waiting) = 0" "held_list (replicate n Waiting) = {#}" for n
    by (induction n) (simp_all add: stopped_list_def held_list_def)
  moreover have "filter is_break js = []" "filter (\<lambda>j. \<not> is_break j) js = js"
    using assms by (simp_all add: filter_empty_conv filter_id_conv)
  moreover have "filter is_break (replicate n break_job) = replicate n break_job"
    "filter (\<lambda>j. \<not> is_break j) (replicate n break_job) = []" for n
    by (simp_all add: break_job_def)
  moreover have "sorted_wrt (\<lambda>a b. is_break a \<longrightarrow> is_break b) (js @ replicate p break_job)"
  proof -
    have "sorted_wrt (\<lambda>a b. is_break a \<longrightarrow> is_break b) js" using assms by (simp add: sorted_wrt_iff_nth_less)
    moreover have "sorted_wrt (\<lambda>a b. is_break a \<longrightarrow> is_break b) (replicate p break_job)"
      by (simp add: sorted_wrt_iff_nth_less break_job_def)
    ultimately show ?thesis using assms by (simp add: sorted_wrt_append)
  qed
  ultimately show ?thesis
    using assms by (auto simp: run_shape_def start_def queued_def pending_def)
qed

lemma no_raise_held:
  "run_shape p js s \<Longrightarrow> no_raise launched js \<Longrightarrow> j \<in># held s \<Longrightarrow> work launched j \<noteq> Inl e"
  unfolding run_shape_def no_raise_def pending_def by (metis union_iff)

lemma run_shape_cong:
  "workers s' = workers s \<Longrightarrow> queued s' = queued s \<Longrightarrow> run_shape p js s' = run_shape p js s"
  by (simp only: run_shape_def pending_def)

lemma shape_fields:
  assumes "run_shape p js s"
  shows "length (workers s) = p" "sorted_wrt (\<lambda>a b. is_break a \<longrightarrow> is_break b) (queued s)"
    "length (filter is_break (queued s)) + stopped s = p"
    "0 < stopped s \<Longrightarrow> filter (\<lambda>j. \<not> is_break j) (queued s) = []"
    "\<And>j. j \<in># pending s \<Longrightarrow> j \<in> set js \<and> \<not> is_break j"
  using assms unfolding run_shape_def by blast+

lemma run_shapeI:
  assumes "length (workers s) = p" "sorted_wrt (\<lambda>a b. is_break a \<longrightarrow> is_break b) (queued s)"
    "length (filter is_break (queued s)) + stopped s = p"
    "0 < stopped s \<Longrightarrow> filter (\<lambda>j. \<not> is_break j) (queued s) = []"
    "\<And>j. j \<in># pending s \<Longrightarrow> j \<in> set js \<and> \<not> is_break j"
  shows "run_shape p js s"
  using assms by (simp only: run_shape_def) blast

lemma shape_transfer:
  assumes "run_shape p js s" "length (workers s') = length (workers s)" "queued s' = queued s"
    "stopped s' = stopped s" "set_mset (pending s') \<subseteq> set_mset (pending s)"
  shows "run_shape p js s'"
  using assms unfolding run_shape_def by (metis subsetD)

lemma held_member: "i < length ws \<Longrightarrow> ws ! i = w \<Longrightarrow> j \<in> set (held_by w) \<Longrightarrow> j \<in># held_list ws"
  using held_update [of i ws w Waiting] by (metis held_by.simps(3) mset.simps(1) add.right_neutral set_mset_mset union_iff)

lemma shape_step:
  assumes "step n launched s s'" "run_shape p js s" "no_raise launched js"
  shows "run_shape p js s'"
  using assms
proof (induction rule: step.induct)
  case (dispatch s j js')
  have "queued (s\<lparr>todo := js', input_queue := queue_put (input_queue s) j\<rparr>) = queued s"
    using dispatch(1) by (simp add: queued_def queue_put_def)
  with dispatch(2) show ?case by (subst run_shape_cong [of _ s]) simp_all
next
  case (get_job i s j q)
  let ?s = "s\<lparr>input_queue := q, workers := (workers s)[i := Holding j]\<rparr>"
  have q: "queued s = j # queued ?s"
    using py_queue.contents_rest [OF get_job(3)] by (simp add: queued_def)
  have "pending ?s = pending s"
    using held_update [OF get_job(1,2), of "Holding j"] get_job(4) q by (simp add: pending_def)
  then show ?case
    using shape_fields(1-4) [OF get_job(5)] q get_job(4) stopped_update [OF get_job(1,2), of "Holding j"]
    by (intro run_shapeI) (simp_all, use shape_fields(5) [OF get_job(5)] in blast)
next
  case (get_break i s j q)
  let ?s = "s\<lparr>input_queue := q, workers := (workers s)[i := Stopped]\<rparr>"
  have q: "queued s = j # queued ?s"
    using py_queue.contents_rest [OF get_break(3)] by (simp add: queued_def)
  have "pending ?s = pending s"
    using held_update [OF get_break(1,2), of Stopped] get_break(4) q by (simp add: pending_def)
  moreover have "filter (\<lambda>j. \<not> is_break j) (queued ?s) = []"
    using shape_fields(2) [OF get_break(5)] q get_break(4) by (simp add: filter_empty_conv)
  ultimately show ?case
    using shape_fields(1,3) [OF get_break(5)] shape_fields(2) [OF get_break(5)] q get_break(4)
      stopped_update [OF get_break(1,2), of Stopped]
    by (intro run_shapeI) (simp_all, use shape_fields(5) [OF get_break(5)] in blast)
next
  case (interrupted i s j)
  have "held s = add_mset j (held_list ((workers s)[i := Waiting]))"
    using held_update [OF interrupted(1,2), of Waiting] by simp
  with stopped_update [OF interrupted(1,2), of "Waiting"]
  show ?case by (intro shape_transfer [OF interrupted(4)]) (auto simp: queued_def pending_def)
next
  case (begin_work i s j)
  have "held_list ((workers s)[i := Working j]) = held s"
    using held_update [OF begin_work(1,2), of "Working j"] by simp
  with stopped_update [OF begin_work(1,2), of "Working j"]
  show ?case by (intro shape_transfer [OF begin_work(4)]) (auto simp: queued_def pending_def)
next
  case (end_work i s j j')
  have "held s = add_mset j (held_list ((workers s)[i := Waiting]))"
    using held_update [OF end_work(1,2), of Waiting] by simp
  with stopped_update [OF end_work(1,2), of "Waiting"]
  show ?case by (intro shape_transfer [OF end_work(4)]) (auto simp: queued_def pending_def)
next
  case (thread_dies i s j e)
  then show ?case using no_raise_held [OF thread_dies(4,5), of j e] held_member [OF thread_dies(1,2), of j] by simp
next
  case (collect s j q)
  from collect(4) show ?case by (subst run_shape_cong [of _ s]) (simp_all add: queued_def)
qed

lemma reachable_shape:
  assumes "reachable p js launched s" "\<forall>j \<in> set js. \<not> is_break j" "no_raise launched js"
  shows "run_shape p js s"
  using assms
proof (induction rule: reachable.induct)
  case init
  then show ?case by (simp add: shape_start)
next
  case (run_step s s')
  then show ?case by (meson shape_step)
next
  case (signal s)
  then have "run_shape p js s" by blast
  then show ?case by (subst run_shape_cong [of _ s]) (simp_all add: sigint_hook_def queued_def)
qed

section \<open>Progress\<close>

fun work_of :: "worker \<Rightarrow> nat" where
  "work_of (Holding j) = 4"
| "work_of (Working j) = 3"
| "work_of Waiting = 1"
| "work_of Stopped = 0"

text \<open>How many more steps the threads can take, weighted by what is left for each job.\<close>

definition work_left :: "threads \<Rightarrow> nat" where
  "work_left s = 7 * length (todo s) + 6 * length (input_queue s) + (\<Sum>w \<leftarrow> workers s. work_of w) +
     length (output_queue s)"

lemma work_update:
  "i < length ws \<Longrightarrow> ws ! i = w \<Longrightarrow>
   (\<Sum>w \<leftarrow> ws[i := w']. work_of w) + work_of w = (\<Sum>w \<leftarrow> ws. work_of w) + work_of w'"
  by (rule sum_list_mset_update)

lemma step_decreases:
  assumes "step n launched s s'"
  shows "work_left s' < work_left s"
  using assms
proof (induction rule: step.induct)
  case (dispatch s j js)
  then show ?case by (simp add: work_left_def queue_put_def)
next
  case (get_job i s j q)
  have "input_queue s = j # q" by (rule py_queue.contents_rest [OF get_job(3)])
  then show ?case using work_update [OF get_job(1,2), of "Holding j"] by (simp add: work_left_def)
next
  case (get_break i s j q)
  have "input_queue s = j # q" by (rule py_queue.contents_rest [OF get_break(3)])
  then show ?case using work_update [OF get_break(1,2), of Stopped] by (simp add: work_left_def)
next
  case (interrupted i s j)
  then show ?case using work_update [OF interrupted(1,2), of Waiting] by (simp add: work_left_def queue_put_def)
next
  case (begin_work i s j)
  then show ?case using work_update [OF begin_work(1,2), of "Working j"] by (simp add: work_left_def)
next
  case (end_work i s j j')
  then show ?case using work_update [OF end_work(1,2), of Waiting] by (simp add: work_left_def queue_put_def)
next
  case (thread_dies i s j e)
  then show ?case using work_update [OF thread_dies(1,2), of Stopped] by (simp add: work_left_def)
next
  case (collect s j q)
  have "output_queue s = j # q" by (rule py_queue.contents_rest [OF collect(3)])
  then show ?case by (simp add: work_left_def)
qed

lemma stopped_all: "stopped_list ws = length ws \<longleftrightarrow> list_all (\<lambda>w. w = Stopped) ws"
proof (induction ws)
  case (Cons w ws)
  have "stopped_list ws \<le> length ws" by (induction ws) (auto simp: stopped_list_def)
  with Cons show ?case by (auto simp: stopped_list_def)
qed (simp add: stopped_list_def)

lemma held_Nil: "\<forall>w \<in> set ws. w = Waiting \<or> w = Stopped \<Longrightarrow> held_list ws = {#}"
  by (induction ws) (auto simp: held_list_def)

lemma progress:
  assumes shape: "run_shape p js s" and p: "0 < p"
    and size: "size (pending s) + size (reported s) = length js"
  shows "finished (length js) s \<or> (\<exists>s'. step (length js) launched s s')"
proof (rule ccontr)
  assume stuck: "\<not> ?thesis"
  note fields = shape_fields [OF shape]
  have td: "todo s = []" using stuck step.dispatch [of s] by (cases "todo s") blast+
  have idle: "w = Waiting \<or> w = Stopped" if "w \<in> set (workers s)" for w
  proof -
    from that obtain i where i: "i < length (workers s)" "workers s ! i = w" by (auto simp: in_set_conv_nth)
    show ?thesis
    proof (cases w)
      case (Holding j)
      then show ?thesis
        using i stuck step.interrupted [of i s j] step.begin_work [of i s j] by (cases "thread_exit s") blast+
    next
      case (Working j)
      then show ?thesis
        using i stuck step.end_work [of i s j launched] step.thread_dies [of i s j launched]
        by (cases "work launched j") blast+
    qed simp_all
  qed
  have nowait: "Waiting \<notin> set (workers s)"
  proof
    assume "Waiting \<in> set (workers s)"
    then obtain i where i: "i < length (workers s)" "workers s ! i = Waiting" by (auto simp: in_set_conv_nth)
    have "input_queue s = []"
    proof (cases "input_queue s")
      case (Cons j q)
      then have "queue_get (input_queue s) = Some (j, q)" by (simp add: queue_get_def)
      then show ?thesis
        using i stuck step.get_job [of i s j q] step.get_break [of i s j q] by (cases "is_break j") blast+
    qed simp
    with td fields(3) have "stopped s = p" by (simp add: queued_def)
    with fields(1) have "list_all (\<lambda>w. w = Stopped) (workers s)" by (simp flip: stopped_all)
    with i show False by (auto simp: list_all_length)
  qed
  with idle have allst: "list_all (\<lambda>w. w = Stopped) (workers s)" by (auto simp: list_all_iff)
  then have "stopped s = p" using fields(1) by (simp flip: stopped_all)
  with p fields(4) have "pending s = {#}"
    using held_Nil [of "workers s"] idle by (auto simp: pending_def)
  with size have sz: "length (output_queue s) + length (collected s) = length js" by (simp add: reported_def)
  show False
  proof (cases "output_queue s")
    case Nil
    then show ?thesis using sz td allst stuck by (simp add: finished_def)
  next
    case (Cons j q)
    then have "queue_get (output_queue s) = Some (j, q)" by (simp add: queue_get_def)
    then show ?thesis using stuck td step.collect [of s "length js" j q] sz Cons by auto
  qed
qed

section \<open>Accounts of a run\<close>

definition job_core :: "job \<Rightarrow> job" where
  "job_core j = j\<lparr>is_break := False, returncode := 0, elapsed_time := 0\<rparr>"

definition job_result :: "(job \<Rightarrow> job py) \<Rightarrow> job \<Rightarrow> job" where
  "job_result launched j = (case work launched j of Inr j' \<Rightarrow> j' | Inl _ \<Rightarrow> j)"

lemma launch_core: "launch system cfg opts j = Inr j' \<Longrightarrow> job_core j' = job_core j"
  by (auto simp: launch_def job_core_def split: if_splits)

interpretation core_account: job_account job_core job_core "launch system cfg opts" "\<lambda>_. True"
  for system cfg opts
  by unfold_locales (auto simp: work_def job_core_def [of "_\<lparr>is_break := True\<rparr>"] job_core_def
      dest: launch_core [unfolded job_core_def] split: if_splits)

interpretation result_account: job_account "job_result launched" "\<lambda>j. j" launched "\<lambda>s. \<not> thread_exit s"
  for launched
  by unfold_locales (auto simp: job_result_def)

lemma pending_start: "\<forall>j \<in> set js. \<not> is_break j \<Longrightarrow> pending (start p js) = mset js \<and> reported (start p js) = {#}"
proof -
  assume "\<forall>j \<in> set js. \<not> is_break j"
  moreover have "held_list (replicate n Waiting) = {#}" for n by (induction n) (simp_all add: held_list_def)
  moreover from calculation(1) have "filter (\<lambda>j. \<not> is_break j) js = js" by (simp add: filter_id_conv)
  ultimately show ?thesis
    by (simp add: pending_def reported_def start_def queued_def break_job_def)
qed

lemma no_raise_launch: "PYTHON cfg \<noteq> [] \<Longrightarrow> no_raise (launch system cfg opts) js"
  by (cases "PYTHON cfg")
    (auto simp: no_raise_def work_def launch_def py_bind_eq_Inl run_job_synchronously_def job_command_def Let_def
      split: prod.splits if_splits)

lemma reachable_core:
  assumes "reachable p js (launch system cfg opts) s" "\<forall>j \<in> set js. \<not> is_break j" "PYTHON cfg \<noteq> []"
  shows "image_mset job_core (pending s) + image_mset job_core (reported s) = image_mset job_core (mset js)"
  using assms
proof (induction rule: reachable.induct)
  case init
  then show ?case by (simp add: pending_start)
next
  case (run_step s s')
  have "run_shape p js s" by (rule reachable_shape [OF run_step(1,4) no_raise_launch [OF run_step(5)]])
  then have "core_account.account s' = core_account.account s"
    using core_account.account_step [OF run_step(2)] no_raise_held no_raise_launch [OF run_step(5)] by blast
  with run_step show ?case by (simp add: core_account.account_def)
next
  case (signal s)
  then show ?case by (simp add: sigint_hook_def pending_def reported_def queued_def)
qed

lemma step_thread_exit: "step n launched s s' \<Longrightarrow> thread_exit s' = thread_exit s"
  by (induction rule: step.induct) simp_all

lemma reachable_result:
  assumes "reachable p js launched s" "\<forall>j \<in> set js. \<not> is_break j" "no_raise launched js" "\<not> thread_exit s"
  shows "image_mset (job_result launched) (pending s) + reported s = image_mset (job_result launched) (mset js)"
  using assms
proof (induction rule: reachable.induct)
  case init
  then show ?case by (simp add: pending_start)
next
  case (run_step s s')
  have ex: "\<not> thread_exit s" using run_step(2,6) by (simp add: step_thread_exit)
  have "run_shape p js s" by (rule reachable_shape [OF run_step(1,4,5)])
  then have "result_account.account launched s' = result_account.account launched s"
    using result_account.account_step [OF run_step(2) ex] no_raise_held run_step(5) by blast
  with run_step ex show ?case by (simp add: result_account.account_def)
next
  case (signal s)
  then show ?case by (simp add: sigint_hook_def)
qed

lemma all_collected:
  assumes "size (pending s) + size (reported s) = n" "length (collected s) = n"
  shows "pending s = {#}" "reported s = mset (collected s)"
  using assms by (simp_all add: reported_def)

lemma size_account:
  "image_mset f P + image_mset h R = image_mset g (mset js) \<Longrightarrow> size P + size R = length js"
  by (metis size_image_mset size_mset size_union)

lemma collected_results:
  assumes "reachable p js launched s" "\<forall>j \<in> set js. \<not> is_break j" "no_raise launched js" "\<not> thread_exit s"
    "length (collected s) = length js"
  shows "mset (collected s) = mset (map (job_result launched) js)"
proof -
  have acc: "image_mset (job_result launched) (pending s) + reported s = image_mset (job_result launched) (mset js)"
    by (rule reachable_result [OF assms(1-4)])
  then have "size (pending s) + size (reported s) = length js" by (metis size_image_mset size_mset size_union)
  from all_collected [OF this assms(5)] acc show ?thesis by simp
qed

text \<open>One worker and one job: a complete run.\<close>

lemma single_run:
  assumes nb: "\<not> is_break j" and j': "work launched j = Inr j'"
  shows "\<exists>s. reachable 1 [j] launched s \<and> collected s = [j'] \<and> \<not> thread_exit s \<and> finished 1 s"
proof -
  let ?s0 = "start 1 [j]"
  let ?s1 = "?s0\<lparr>todo := [break_job], input_queue := queue_put (input_queue ?s0) j\<rparr>"
  let ?s2 = "?s1\<lparr>todo := [], input_queue := queue_put (input_queue ?s1) break_job\<rparr>"
  let ?s3 = "?s2\<lparr>input_queue := [break_job], workers := (workers ?s2)[0 := Holding j]\<rparr>"
  let ?s4 = "?s3\<lparr>workers := (workers ?s3)[0 := Working j]\<rparr>"
  let ?s5 = "?s4\<lparr>output_queue := queue_put (output_queue ?s4) j', workers := (workers ?s4)[0 := Waiting]\<rparr>"
  let ?s6 = "?s5\<lparr>output_queue := [], collected := collected ?s5 @ [j']\<rparr>"
  let ?s7 = "?s6\<lparr>input_queue := [], workers := (workers ?s6)[0 := Stopped]\<rparr>"
  have "reachable 1 [j] launched ?s0" by (rule reachable.init)
  then have "reachable 1 [j] launched ?s1" by (rule reachable.run_step, intro step.dispatch) (simp add: start_def)
  then have "reachable 1 [j] launched ?s2" by (rule reachable.run_step, intro step.dispatch) simp
  then have "reachable 1 [j] launched ?s3"
    by (rule reachable.run_step, intro step.get_job) (simp_all add: start_def queue_put_def queue_get_def nb)
  then have "reachable 1 [j] launched ?s4" by (rule reachable.run_step, intro step.begin_work) (simp_all add: start_def)
  then have "reachable 1 [j] launched ?s5"
    by (rule reachable.run_step, intro step.end_work [OF _ _ j']) (simp_all add: start_def)
  then have "reachable 1 [j] launched ?s6"
    by (rule reachable.run_step, intro step.collect) (simp_all add: start_def queue_put_def queue_get_def)
  then have "reachable 1 [j] launched ?s7"
    by (rule reachable.run_step, intro step.get_break [where j = break_job])
      (simp_all add: start_def queue_get_def break_job_def)
  moreover have "collected ?s7 = [j']" "\<not> thread_exit ?s7" "finished 1 ?s7"
    by (simp_all add: start_def finished_def)
  ultimately show ?thesis by blast
qed

section \<open>Properties\<close>

text \<open>
  C3: every queued job is reported exactly once. In every reachable state of the threads,
  with or without an interrupt, what the main thread has collected is part of the jobs it
  queued, and once it has collected as many results as it queued jobs these are the queued
  jobs, up to the fields that the workers fill in.
\<close>

theorem every_job_reported_once:
  assumes "queued_jobs w cfg opts = Inr js" "PYTHON cfg \<noteq> []"
    "reachable processors js (launch system cfg opts) s"
  shows "image_mset job_core (mset (collected s)) \<subseteq># image_mset job_core (mset js) \<and>
    (length (collected s) = length js \<longrightarrow>
       image_mset job_core (mset (collected s)) = image_mset job_core (mset js))"
proof -
  have nb: "\<forall>j \<in> set js. \<not> is_break j" using queued_not_break [OF assms(1)] by blast
  note acc = reachable_core [OF assms(3) nb assms(2)]
  have "image_mset job_core (mset (collected s)) \<subseteq># image_mset job_core (reported s)"
    by (rule image_mset_subseteq_mono) (simp add: reported_def)
  also have "\<dots> \<subseteq># image_mset job_core (mset js)" using acc [symmetric] by simp
  finally have sub: "image_mset job_core (mset (collected s)) \<subseteq># image_mset job_core (mset js)" .
  moreover have "image_mset job_core (mset (collected s)) = image_mset job_core (mset js)"
    if "length (collected s) = length js"
    using all_collected [OF size_account [OF acc] that] acc by simp
  ultimately show ?thesis by blast
qed

text \<open>A world with one suite, for the witnesses below.\<close>

definition tiny_world :: test_world where
  "tiny_world = \<lparr>path_exists = \<lambda>_. False, example_lists_of = \<lambda>_. ([], []),
     names_of_kind = \<lambda>k. if k = [] then ''a'' @ [CHR 0x0A] else [],
     eval_condition = \<lambda>_. False, abspath_of = \<lambda>p. p, current_dir = ''/'', output_dir = ''out'',
     runnable_programs = [], runnable_scripts = []\<rparr>"

definition tiny_config :: waf_config where
  "tiny_config = (initial_config ''/ns3'' ''/ns3/build'')\<lparr>PYTHON := [''python'']\<rparr>"

lemma tiny_jobs: "\<exists>j. queued_jobs tiny_world tiny_config default_options = Inr [j]"
  by (simp add: queued_jobs_def tiny_world_def tiny_config_def initial_config_def default_options_def suite_list_def
      select_suites_def drop_performance_def suite_jobs_def example_jobs_def pyexample_jobs_def strip_def
      is_space_def collect_examples_def cpp_example_jobs_def python_example_jobs_def Let_def)

lemma tiny_not_skipped: "queued_jobs tiny_world tiny_config default_options = Inr [j] \<Longrightarrow> \<not> is_skip j \<and> \<not> is_example j \<and> \<not> is_pyexample j"
  by (auto simp: queued_jobs_def tiny_world_def tiny_config_def initial_config_def default_options_def suite_list_def
      select_suites_def drop_performance_def suite_jobs_def example_jobs_def pyexample_jobs_def strip_def
      is_space_def collect_examples_def cpp_example_jobs_def python_example_jobs_def Let_def suite_job_def
      core_nsc_missing_skip_tests_def)

theorem every_job_reported_once_witness:
  "\<exists>js s. queued_jobs tiny_world tiny_config default_options = Inr js \<and> length js = 1 \<and>
     reachable 2 js (launch (\<lambda>_ _. (0, [], [], 1)) tiny_config default_options) s \<and>
     image_mset job_core (mset (collected s)) \<subseteq># image_mset job_core (mset js)"
proof -
  obtain j where j: "queued_jobs tiny_world tiny_config default_options = Inr [j]" using tiny_jobs by blast
  have r: "reachable 2 [j] (launch (\<lambda>_ _. (0, [], [], 1)) tiny_config default_options) (start 2 [j])"
    by (rule reachable.init)
  have "PYTHON tiny_config \<noteq> []" by (simp add: tiny_config_def)
  from every_job_reported_once [OF j this r] j r show ?thesis by (intro exI [of _ "[j]"] exI [of _ "start 2 [j]"]) simp
qed



text \<open>
  C13: without an interrupt the collected results are those of running every queued job once:
  a skipped job comes back unchanged, any other with the return code and time of its process.
\<close>

theorem uninterrupted_results:
  assumes "queued_jobs w cfg opts = Inr js" "PYTHON cfg \<noteq> []"
    "reachable processors js (launch system cfg opts) s" "\<not> thread_exit s" "length (collected s) = length js"
  shows "\<exists>results. list_all2 (\<lambda>j r. work (launch system cfg opts) j = Inr r) js results \<and>
     mset (collected s) = mset results"
proof -
  let ?L = "launch system cfg opts"
  have nb: "\<forall>j \<in> set js. \<not> is_break j" using queued_not_break [OF assms(1)] by blast
  note nr = no_raise_launch [OF assms(2), of system opts js]
  have "mset (collected s) = mset (map (job_result ?L) js)"
    by (rule collected_results [OF assms(3) nb nr assms(4,5)])
  moreover have "list_all2 (\<lambda>j r. work ?L j = Inr r) js (map (job_result ?L) js)"
    using nr by (auto simp: list_all2_conv_all_nth no_raise_def job_result_def split: sum.splits)
  ultimately show ?thesis by blast
qed

theorem uninterrupted_results_witness:
  "\<exists>j (s :: threads) results. queued_jobs tiny_world tiny_config default_options = Inr [j] \<and>
     list_all2 (\<lambda>j r. work (launch (\<lambda>_ _. (7, [], [], 1)) tiny_config default_options) j = Inr r) [j] results \<and>
     length (collected s) = 1 \<and> mset (collected s) = mset results"
proof -
  let ?L = "launch (\<lambda>_ _. (7, [], [], 1)) tiny_config default_options"
  have py: "PYTHON tiny_config \<noteq> []" by (simp add: tiny_config_def)
  obtain j where j: "queued_jobs tiny_world tiny_config default_options = Inr [j]" using tiny_jobs by blast
  have nb: "\<not> is_break j" using queued_not_break [OF j] by simp
  obtain j' where j': "work ?L j = Inr j'"
    using no_raise_launch [OF py, of "\<lambda>_ _. (7, [], [], 1)" default_options "[j]"]
    by (cases "work ?L j") (auto simp: no_raise_def)
  obtain s where s: "reachable 1 [j] ?L s" "collected s = [j']" "\<not> thread_exit s" using single_run [OF nb j'] by blast
  from uninterrupted_results [OF j py s(1,3)] s(2) obtain results
    where res: "list_all2 (\<lambda>j r. work ?L j = Inr r) [j] results" "mset (collected s) = mset results" by auto
  have "length (collected s) = 1" by (simp add: s(2))
  with j res show ?thesis by blast
qed

end
