(* ===== verification/Test_Report.thy ===== *)
theory Test_Report
  imports Test_Workers
begin

text \<open>
  The reports of \<open>test.py\<close>: how the main thread classifies and counts the collected jobs,
  the XML results file it writes, the exit code, and the translate_results of the parsed XML to
  text and HTML. Output is modelled by the string that is written; the file system and the
  XML parser are parameters. A checker for balanced tags states when the files are well
  formed.
\<close>

abbreviation dq :: string where
  "dq \<equiv> [CHR 0x22]"

section \<open>Counting\<close>

definition job_status :: "job \<Rightarrow> string" where
  "job_status job =
     (if is_skip job then ''SKIP''
      else if returncode job = 0 then ''PASS''
      else if returncode job = 1 then ''FAIL''
      else if returncode job = 2 then ''VALGR''
      else ''CRASH'')"

record counters =
  passed_tests :: nat
  failed_tests :: nat
  crashed_tests :: nat
  valgrind_errors :: nat
  skipped_tests :: nat

definition zero_counters :: counters where
  "zero_counters = \<lparr>passed_tests = 0, failed_tests = 0, crashed_tests = 0, valgrind_errors = 0, skipped_tests = 0\<rparr>"

definition count_job :: "job \<Rightarrow> counters \<Rightarrow> counters" where
  "count_job job c =
     (if is_skip job then c\<lparr>skipped_tests := skipped_tests c + 1\<rparr>
      else if returncode job = 0 then c\<lparr>passed_tests := passed_tests c + 1\<rparr>
      else if returncode job = 1 then c\<lparr>failed_tests := failed_tests c + 1\<rparr>
      else if returncode job = 2 then c\<lparr>valgrind_errors := valgrind_errors c + 1\<rparr>
      else c\<lparr>crashed_tests := crashed_tests c + 1\<rparr>)"

text \<open>\<open>"%.3f"\<close> of a time in milliseconds.\<close>

definition seconds :: "nat \<Rightarrow> string" where
  "seconds ms = str_nat (ms div 1000) @ ''.'' @ str_nat (ms mod 1000 div 100) @
     str_nat (ms mod 100 div 10) @ str_nat (ms mod 10)"

definition job_kind :: "job \<Rightarrow> string" where
  "job_kind job = (if is_example job \<or> is_pyexample job then ''Example'' else ''TestSuite'')"

definition status_line :: "test_options \<Rightarrow> job \<Rightarrow> string" where
  "status_line opts job =
     (if duration opts \<or> constrain opts = ''performance''
      then job_status job @ '' ('' @ seconds (elapsed_time job) @ ''): '' @ job_kind job @ '' '' @ display_name job
      else job_status job @ '': '' @ job_kind job @ '' '' @ display_name job)"

section \<open>The results file\<close>

definition example_entry :: "job \<Rightarrow> string" where
  "example_entry job =
     ''<Example>'' @ nl @
     ''  <Name>'' @ display_name job @ ''</Name>'' @ nl @
     (if job_status job = ''PASS'' then ''  <Result>PASS</Result>'' @ nl
      else if job_status job = ''FAIL'' then ''  <Result>FAIL</Result>'' @ nl
      else if job_status job = ''VALGR'' then ''  <Result>VALGR</Result>'' @ nl
      else if job_status job = ''SKIP'' then ''  <Result>SKIP</Result>'' @ nl
      else ''  <Result>CRASH</Result>'' @ nl) @
     ''  <Time real='' @ dq @ seconds (elapsed_time job) @ dq @ ''/>'' @ nl @
     ''</Example>'' @ nl"

text \<open>
  \<open>tmp_file\<close> gives the contents of a temporary file, if it exists. The return code 2 is
  tested again inside the branch for the other codes.
\<close>

definition suite_entry :: "(string \<Rightarrow> string option) \<Rightarrow> job \<Rightarrow> string py" where
  "suite_entry tmp_file job =
     (if is_skip job
      then Inr (''<Test>'' @ nl @ ''  <Name>'' @ display_name job @ ''</Name>'' @ nl @
                ''  <Result>SKIP</Result>'' @ nl @ ''</Test>'' @ nl)
      else if returncode job = 0 \<or> returncode job = 1 \<or> returncode job = 2
      then (case tmp_file (tmp_file_name job) of None \<Rightarrow> Inl IOError | Some s \<Rightarrow> Inr s)
      else Inr (''<Test>'' @ nl @ ''  <Name>'' @ display_name job @ ''</Name>'' @ nl @
                ''  <Result>CRASH</Suite>'' @ nl @ ''</Test>'' @ nl @
                (if returncode job = 2
                 then ''<Test>'' @ nl @ ''  <Name>'' @ display_name job @ ''</Name>'' @ nl @
                      ''  <Result>VALGR</Result>'' @ nl @ ''</Test>'' @ nl
                 else [])))"

definition job_entry :: "(string \<Rightarrow> string option) \<Rightarrow> job \<Rightarrow> string py" where
  "job_entry tmp_file job =
     (if is_example job \<or> is_pyexample job then Inr (example_entry job) else suite_entry tmp_file job)"

record report =
  counts :: counters
  printed :: "string list"
  xml_results :: string

definition report_job :: "(string \<Rightarrow> string option) \<Rightarrow> test_options \<Rightarrow> report \<Rightarrow> job \<Rightarrow> report py" where
  "report_job tmp_file opts r job =
     (if is_break job then Inr r
      else py_bind (job_entry tmp_file job) (\<lambda>entry.
        Inr \<lparr>counts = count_job job (counts r), printed = printed r @ [status_line opts job],
             xml_results = xml_results r @ entry\<rparr>))"

definition summary_line :: "counters \<Rightarrow> nat \<Rightarrow> string" where
  "summary_line c total_tests =
     str_nat (passed_tests c) @ '' of '' @ str_nat total_tests @ '' tests passed ('' @
     str_nat (passed_tests c) @ '' passed, '' @ str_nat (skipped_tests c) @ '' skipped, '' @
     str_nat (failed_tests c) @ '' failed, '' @ str_nat (crashed_tests c) @ '' crashed, '' @
     str_nat (valgrind_errors c) @ '' valgrind errors)''"

definition final_notes :: "waf_config \<Rightarrow> test_options \<Rightarrow> string list" where
  "final_notes cfg opts =
     (if \<not> ENABLE_TESTS cfg \<or> \<not> ENABLE_EXAMPLES cfg
      then [[]] @
        (if \<not> ENABLE_TESTS cfg
         then [''***  Note: ns-3 tests are currently disabled. Enable them by adding'',
               ''***  '' @ dq @ ''--enable-tests'' @ dq @ '' to ./waf configure or modifying your .ns3rc file.'', []]
         else []) @
        (if \<not> ENABLE_EXAMPLES cfg
         then [''***  Note: ns-3 examples are currently disabled. Enable them by adding'',
               ''***  '' @ dq @ ''--enable-examples'' @ dq @ '' to ./waf configure or modifying your .ns3rc file.'', []]
         else [])
      else []) @
     (if valgrind opts \<and> \<not> VALGRIND_FOUND cfg
      then [[], ''***  Note: you are trying to use valgrind, but valgrind could not be found'',
            ''***  on your machine.  All tests and examples will crash or be skipped.'', []]
      else [])"

section \<open>Reading the results\<close>

datatype xml = Elem (xtag: string) (xtext: "string option") (xattrs: "(string, string) dict") (xchildren: "xml list")

definition xfind :: "xml \<Rightarrow> string \<Rightarrow> xml option" where
  "xfind e t = find (\<lambda>c. xtag c = t) (xchildren e)"

definition xfindall :: "xml \<Rightarrow> string \<Rightarrow> xml list" where
  "xfindall e t = filter (\<lambda>c. xtag c = t) (xchildren e)"

text \<open>\<open>'%s' % v\<close> for a text that may be \<open>None\<close>.\<close>

definition show_text :: "string option \<Rightarrow> string" where
  "show_text v = (case v of None \<Rightarrow> ''None'' | Some s \<Rightarrow> s)"

text \<open>\<open>e.find(t).text\<close>.\<close>

definition find_text :: "xml \<Rightarrow> string \<Rightarrow> string option py" where
  "find_text e t = (case xfind e t of None \<Rightarrow> Inl AttributeError | Some c \<Rightarrow> Inr (xtext c))"

definition read_test :: "xml \<Rightarrow> (string option \<times> string option \<times> string option) py" where
  "read_test test =
     py_bind (find_text test ''Result'') (\<lambda>result.
     py_bind (find_text test ''Name'') (\<lambda>name.
       Inr (result, name,
            case xfind test ''Time'' of Some t \<Rightarrow> map_of (xattrs t) ''real'' | None \<Rightarrow> Some [])))"

definition detail_line :: "xml \<Rightarrow> string \<Rightarrow> string \<Rightarrow> string py" where
  "detail_line details label t =
     py_bind (find_text details t) (\<lambda>v. Inr (''      '' @ label @ show_text v @ nl))"

definition details_to_text :: "xml \<Rightarrow> string py" where
  "details_to_text details =
     py_bind (py_map (\<lambda>(label, t). detail_line details label t)
       [(''Message:   '', ''Message''), (''Condition: '', ''Condition''), (''Actual:    '', ''Actual''),
        (''Limit:     '', ''Limit''), (''File:      '', ''File''), (''Line:      '', ''Line'')])
       (\<lambda>ls. Inr (''    Details:'' @ nl @ concat ls))"

definition node_header :: "xml \<Rightarrow> string py" where
  "node_header test =
     py_bind (read_test test) (\<lambda>(result, name, time_real).
       Inr (show_text result @ '': Test Suite '' @ dq @ show_text name @ dq @ '' ('' @ show_text time_real @ '')'' @ nl))"

fun node_to_text :: "xml \<Rightarrow> string py"
  and nodes_to_text :: "xml list \<Rightarrow> string py" where
  "node_to_text (Elem tg tx at cs) =
     py_bind (node_header (Elem tg tx at cs)) (\<lambda>output.
     py_bind (py_map details_to_text (xfindall (Elem tg tx at cs) ''FailureDetails'')) (\<lambda>ds.
     py_bind (nodes_to_text cs) (\<lambda>s. Inr (output @ concat ds @ s))))"
| "nodes_to_text [] = Inr []"
| "nodes_to_text (c # cs) =
     (if xtag c = ''Test''
      then py_bind (node_to_text c) (\<lambda>s. py_bind (nodes_to_text cs) (\<lambda>t. Inr (s @ t)))
      else nodes_to_text cs)"

definition example_to_text :: "xml \<Rightarrow> string py" where
  "example_to_text ex =
     py_bind (read_test ex) (\<lambda>(result, name, time_real).
       Inr (show_text result @ '': Example '' @ dq @ show_text name @ dq @ '' ('' @ show_text time_real @ '')'' @ nl))"

definition translate_to_text :: "xml \<Rightarrow> string py" where
  "translate_to_text et =
     py_bind (nodes_to_text (xchildren et)) (\<lambda>s.
     py_bind (py_map example_to_text (xfindall et ''Example'')) (\<lambda>es. Inr (s @ concat es)))"

section \<open>HTML\<close>

definition styled :: "string \<Rightarrow> string \<Rightarrow> string" where
  "styled tag color = ''<'' @ tag @ '' style='' @ dq @ ''color:'' @ color @ dq @ ''>''"

definition html_header :: "string option \<times> string option \<times> string option \<Rightarrow> string" where
  "html_header v = (case v of (result, name, time) \<Rightarrow>
     styled ''h3'' (if result = Some ''PASS'' then ''green''
                    else if result = Some ''SKIP'' then ''#ff6600'' else ''red'') @
     show_text result @ '': '' @ show_text name @ '' ('' @ show_text time @ '')</h3>'' @ nl)"

definition html_detail_cell :: "xml \<Rightarrow> string py" where
  "html_detail_cell details =
     py_bind (find_text details ''Message'') (\<lambda>m.
     py_bind (find_text details ''Condition'') (\<lambda>c.
     py_bind (find_text details ''Actual'') (\<lambda>a.
     py_bind (find_text details ''Limit'') (\<lambda>l.
     py_bind (find_text details ''File'') (\<lambda>f.
     py_bind (find_text details ''Line'') (\<lambda>n.
       Inr (''<td>'' @ ''<b>Message: </b>'' @ show_text m @ '', '' @ ''<b>Condition: </b>'' @ show_text c @ '', '' @
            ''<b>Actual: </b>'' @ show_text a @ '', '' @ ''<b>Limit: </b>'' @ show_text l @ '', '' @
            ''<b>File: </b>'' @ show_text f @ '', '' @ ''<b>Line: </b>'' @ show_text n @ ''</td>'' @ nl)))))))"

fun html_failures ::
  "bool \<Rightarrow> string option \<times> string option \<times> string option \<Rightarrow> xml list \<Rightarrow> string py" where
  "html_failures first_row v [] = Inr []"
| "html_failures first_row (result, name, time) (d # ds) =
     py_bind (html_detail_cell d) (\<lambda>cell.
     py_bind (html_failures False (result, name, time) ds) (\<lambda>rest.
       Inr (''<tr>'' @ nl @
            (if first_row
             then styled ''td'' ''red'' @ show_text result @ ''</td>'' @ nl @
                  ''<td>'' @ show_text name @ ''</td>'' @ nl @
                  ''<td>'' @ show_text time @ ''</td>'' @ nl
             else ''<td></td>'' @ nl @ ''<td></td>'' @ nl @ ''<td></td>'' @ nl) @
            cell @ ''</td>'' @ nl @ rest)))"

definition html_case :: "xml \<Rightarrow> string py" where
  "html_case c =
     py_bind (read_test c) (\<lambda>(result, name, time).
       if result = Some ''FAIL''
       then html_failures True (result, name, time) (xfindall c ''FailureDetails'')
       else Inr (''<tr>'' @ nl @
                 styled ''td'' ''green'' @ show_text result @ ''</td>'' @ nl @
                 ''<td>'' @ show_text name @ ''</td>'' @ nl @
                 ''<td>'' @ show_text time @ ''</td>'' @ nl @
                 ''<td></td>'' @ nl @
                 ''</tr>'' @ nl))"

definition html_suite :: "xml \<Rightarrow> string py" where
  "html_suite s =
     py_bind (read_test s) (\<lambda>(result, name, time).
       let start = html_header (result, name, time) @ ''<table border='' @ dq @ ''1'' @ dq @ ''>'' @ nl @
                   ''<th> Result </th>'' @ nl
       in if result \<in> {Some ''CRASH'', Some ''SKIP'', Some ''VALGR''}
          then Inr (start @ ''<tr>'' @ nl @
                    styled ''td'' (if result = Some ''SKIP'' then ''#ff6600'' else ''red'') @
                    show_text result @ ''</td>'' @ nl @ ''</tr>'' @ nl @ ''</table>'' @ nl)
          else py_bind (py_map html_case (xfindall s ''Test'')) (\<lambda>cases.
                 Inr (start @ ''<th>Test Case Name</th>'' @ nl @ ''<th> Time </th>'' @ nl @
                      (if result = Some ''FAIL'' then ''<th>Failure Details</th>'' @ nl else []) @
                      concat cases @ ''</table>'' @ nl)))"

definition html_example :: "xml \<Rightarrow> string py" where
  "html_example e =
     py_bind (read_test e) (\<lambda>(result, name, time).
       Inr (''<tr>'' @ nl @
            (if result = Some ''PASS'' then styled ''td'' ''green'' @ show_text result @ ''</td>'' @ nl
             else if result = Some ''SKIP'' then styled ''td'' ''#ff6600'' @ show_text result @ ''</fd>'' @ nl
             else styled ''td'' ''red'' @ show_text result @ ''</td>'' @ nl) @
            ''<td>'' @ show_text name @ ''</td>'' @ nl @
            ''<td>'' @ show_text time @ ''</td>'' @ nl @
            ''</tr>'' @ nl))"

definition translate_to_html :: "xml \<Rightarrow> string py" where
  "translate_to_html et =
     py_bind (py_map html_suite (xfindall et ''Test'')) (\<lambda>suites.
     py_bind (py_map html_example (xfindall et ''Example'')) (\<lambda>examples.
       Inr (''<html>'' @ nl @ ''<body>'' @ nl @ ''<center><h1>ns-3 Test Results</h1></center>'' @ nl @
            ''<h2>Test Suites</h2>'' @ nl @ concat suites @
            ''<h2>Examples</h2>'' @ nl @ ''<table border='' @ dq @ ''1'' @ dq @ ''>'' @ nl @
            ''<th> Result </th>'' @ nl @ ''<th>Example Name</th>'' @ nl @ ''<th>Elapsed Time</th>'' @ nl @
            concat examples @ ''</table>'' @ nl @ ''</body>'' @ nl @ ''</html>'' @ nl)))"

section \<open>The whole run\<close>

text \<open>
  The files written on request (\<open>--html\<close>, \<open>--text\<close>, \<open>--xml\<close>), in this order. The parser of
  the results file is a parameter; a translation that raises ends the program.
\<close>

definition translate_results :: "(string \<Rightarrow> xml py) \<Rightarrow> test_options \<Rightarrow> string \<Rightarrow> (string \<times> string) list py" where
  "translate_results parse_xml opts results =
     py_bind (if html_file opts = [] then Inr []
              else py_bind (parse_xml results) (\<lambda>et. py_bind (translate_to_html et) (\<lambda>s. Inr [(html_file opts, s)])))
       (\<lambda>html.
     py_bind (if text_file opts = [] then Inr []
              else py_bind (parse_xml results) (\<lambda>et. py_bind (translate_to_text et) (\<lambda>s. Inr [(text_file opts, s)])))
       (\<lambda>text. Inr (html @ text @ (if xml_file opts = [] then [] else [(xml_file opts, results)]))))"

text \<open>
  The exit code with the report and the requested files, for the jobs taken from the
  output queue.
\<close>

definition report_results ::
  "(string \<Rightarrow> string option) \<Rightarrow> (string \<Rightarrow> xml py) \<Rightarrow> waf_config \<Rightarrow> test_options \<Rightarrow> nat \<Rightarrow> job list \<Rightarrow>
     (report \<times> (string \<times> string) list \<times> int) py" where
  "report_results tmp_file parse_xml cfg opts total_tests jobs =
     py_bind
       (run_steps (report_job tmp_file opts)
          \<lparr>counts = zero_counters, printed = [],
           xml_results = ''<?xml version='' @ dq @ ''1.0'' @ dq @ ''?>'' @ nl @ ''<Results>'' @ nl\<rparr> jobs) (\<lambda>r.
     py_bind (translate_results parse_xml opts (xml_results r @ ''</Results>'' @ nl)) (\<lambda>files.
       Inr
         (r\<lparr>printed := printed r @ [summary_line (counts r) total_tests] @ final_notes cfg opts,
            xml_results := xml_results r @ ''</Results>'' @ nl\<rparr>,
          files,
          if passed_tests (counts r) + skipped_tests (counts r) = total_tests then 0 else 1)))"

datatype outcome = Returned int | ReturnedNone | Exited int | Raised py_exn

text \<open>
  \<open>run_tests\<close>: \<open>waf_code\<close> is the return code of the build, \<open>status_found\<close> whether the build
  status file exists, and \<open>collect\<close> what the threads deliver for the queued jobs.
\<close>

definition run_tests ::
  "(string \<Rightarrow> int) \<Rightarrow> bool \<Rightarrow> platform \<Rightarrow> test_world \<Rightarrow> waf_config \<Rightarrow> test_options \<Rightarrow>
     (job list \<Rightarrow> job list) \<Rightarrow> (string \<Rightarrow> string option) \<Rightarrow> (string \<Rightarrow> xml py) \<Rightarrow> outcome" where
  "run_tests waf_code status_found plat w cfg opts collect tmp_file parse_xml =
     (if \<not> nowaf opts \<and> waf_code (waf_cmd plat opts) \<noteq> 0 then Returned (waf_code (waf_cmd plat opts))
      else if \<not> status_found then Exited 2
      else if kinds opts \<or> list_tests opts then ReturnedNone
      else case queued_jobs w cfg opts of
        Inl code \<Rightarrow> Exited code
      | Inr js \<Rightarrow>
          (case report_results tmp_file parse_xml cfg opts (length js) (collect js) of
             Inl e \<Rightarrow> Raised e
           | Inr (r, files, code) \<Rightarrow> Returned code))"

section \<open>Balanced tags\<close>

text \<open>
  A checker of the tags of a document: it keeps the stack of open tags and, inside a tag,
  the characters read so far.
\<close>

type_synonym tag_state = "string list \<times> string option"

definition close_tag :: "string list \<Rightarrow> string \<Rightarrow> unit + string list" where
  "close_tag st t =
     (if startswith t ''?'' \<or> t \<noteq> [] \<and> last t = CHR ''/'' then Inr st
      else if startswith t ''/''
      then (case st of [] \<Rightarrow> Inl () | u # us \<Rightarrow> if u = tl t then Inr us else Inl ())
      else Inr (takeWhile (\<lambda>c. c \<noteq> CHR '' '') t # st))"

fun tag_step :: "tag_state \<Rightarrow> char \<Rightarrow> unit + tag_state" where
  "tag_step (st, None) c = Inr (st, if c = CHR ''<'' then Some [] else None)"
| "tag_step (st, Some t) c =
     (if c = CHR ''>'' then py_bind (close_tag st t) (\<lambda>st'. Inr (st', None)) else Inr (st, Some (t @ [c])))"

definition balanced :: "string \<Rightarrow> bool" where
  "balanced s \<longleftrightarrow> run_steps tag_step ([], None) s = Inr ([], None)"

text \<open>A fragment that closes every tag it opens, in any context.\<close>

definition fragment :: "string \<Rightarrow> bool" where
  "fragment s \<longleftrightarrow> (\<forall>st. run_steps tag_step (st, None) s = Inr (st, None))"

text \<open>A fragment on which the checker fails in any context.\<close>

definition misnested :: "string \<Rightarrow> bool" where
  "misnested s \<longleftrightarrow> (\<forall>st. run_steps tag_step (st, None) s = Inl ())"

lemma tags_plain: "CHR ''<'' \<notin> set s \<Longrightarrow> run_steps tag_step (st, None) s = Inr (st, None)"
  by (induction s) auto

lemma tags_attribute: "CHR ''>'' \<notin> set s \<Longrightarrow> run_steps tag_step (st, Some t) s = Inr (st, Some (t @ s))"
  by (induction s arbitrary: t) auto

lemma fragmentD: "fragment s \<Longrightarrow> run_steps tag_step (st, None) s = Inr (st, None)"
  by (simp add: fragment_def)

lemma misnestedD: "misnested s \<Longrightarrow> run_steps tag_step (st, None) s = Inl ()"
  by (simp add: misnested_def)

lemma fragmentI: "(\<And>st. run_steps tag_step (st, None) s = Inr (st, None)) \<Longrightarrow> fragment s"
  by (simp add: fragment_def)

lemma misnestedI: "(\<And>st. run_steps tag_step (st, None) s = Inl ()) \<Longrightarrow> misnested s"
  by (simp add: misnested_def)

lemmas tag_simps = run_steps_append tags_plain tags_attribute close_tag_def startswith_def fragmentD misnestedD

lemma fragment_Nil [simp]: "fragment []"
  by (simp add: fragment_def)

lemma fragment_append: "fragment a \<Longrightarrow> fragment b \<Longrightarrow> fragment (a @ b)"
  by (simp add: fragment_def run_steps_append)

lemma misnested_append: "misnested a \<Longrightarrow> misnested (a @ b)"
  by (simp add: misnested_def run_steps_append)

lemma fragment_misnested: "fragment a \<Longrightarrow> misnested b \<Longrightarrow> misnested (a @ b)"
  by (simp add: fragment_def misnested_def run_steps_append)

lemma fragment_not_misnested: "fragment s \<Longrightarrow> \<not> misnested s"
  by (simp add: fragment_def misnested_def)

lemma concat_fragments: "(\<And>s. s \<in> set ss \<Longrightarrow> fragment s) \<Longrightarrow> fragment (concat ss)"
  by (induction ss) (simp_all add: fragment_append)

lemma concat_misnested:
  "(\<And>s. s \<in> set ss \<Longrightarrow> fragment s \<or> misnested s) \<Longrightarrow> \<exists>s \<in> set ss. misnested s \<Longrightarrow> misnested (concat ss)"
  by (induction ss) (auto intro: misnested_append fragment_misnested)

text \<open>
  When every part is a fragment or misnested, the whole is a fragment exactly when all parts
  are, and misnested otherwise.
\<close>

lemma concat_verdict:
  assumes "\<And>s. s \<in> set ss \<Longrightarrow> if P s then fragment s else misnested s"
  shows "if \<forall>s \<in> set ss. P s then fragment (concat ss) else misnested (concat ss)"
proof (cases "\<forall>s \<in> set ss. P s")
  case True
  then show ?thesis using assms by (simp add: concat_fragments)
next
  case False
  then obtain s where "s \<in> set ss" "\<not> P s" by blast
  then have "\<exists>s \<in> set ss. misnested s" using assms by force
  moreover have "fragment s \<or> misnested s" if "s \<in> set ss" for s
    using assms [OF that] by (simp split: if_splits)
  ultimately have "misnested (concat ss)" by (intro concat_misnested)
  then show ?thesis by (simp only: if_not_P [OF False])
qed

lemma balanced_wrap:
  assumes "fragment a" "if P then fragment m else misnested m" "fragment b"
    and doc: "run_steps tag_step ([], None) pre = Inr (st, None)" "run_steps tag_step (st, None) post = Inr ([], None)"
  shows "balanced (pre @ a @ m @ b @ post) \<longleftrightarrow> P"
  using assms by (cases P) (simp_all add: balanced_def run_steps_append fragmentD misnestedD)

section \<open>Lemmas on the report\<close>

lemma seconds_plain: "CHR ''<'' \<notin> set (seconds n)" "CHR ''>'' \<notin> set (seconds n)"
  using str_nat_digits by (fastforce simp: seconds_def)+

lemma example_entry_fragment: "CHR ''<'' \<notin> set (display_name j) \<Longrightarrow> fragment (example_entry j)"
  by (simp add: fragment_def example_entry_def tag_simps seconds_plain)

text \<open>The jobs whose entry in the results file is well formed.\<close>

definition entry_ok :: "job \<Rightarrow> bool" where
  "entry_ok j \<longleftrightarrow> is_example j \<or> is_pyexample j \<or> is_skip j \<or> returncode j \<in> {0, 1, 2}"

lemma job_entry_verdict:
  assumes "job_entry tmp_file j = Inr e" "CHR ''<'' \<notin> set (display_name j)"
    "\<And>f s. tmp_file f = Some s \<Longrightarrow> fragment s"
  shows "if entry_ok j then fragment e else misnested e"
proof (cases "is_example j \<or> is_pyexample j")
  case True
  then show ?thesis using assms(1,2) example_entry_fragment by (auto simp: job_entry_def entry_ok_def)
next
  case False
  then have e: "suite_entry tmp_file j = Inr e" using assms(1) by (simp add: job_entry_def)
  consider "is_skip j" | "\<not> is_skip j" "returncode j \<in> {0, 1, 2}" | "\<not> is_skip j" "returncode j \<notin> {0, 1, 2}" by blast
  then show ?thesis
  proof cases
    case 1
    then have "fragment e" using e assms(2) by (auto simp: suite_entry_def fragment_def tag_simps)
    with 1 show ?thesis by (simp add: entry_ok_def)
  next
    case 2
    then have "fragment e" using e assms(3) by (auto simp: suite_entry_def split: option.splits)
    with 2 show ?thesis by (simp add: entry_ok_def)
  next
    case 3
    then have "misnested e" using e assms(2) by (auto simp: suite_entry_def misnested_def tag_simps)
    with 3 False show ?thesis by (simp add: entry_ok_def)
  qed
qed

text \<open>The loop over the collected jobs leaves out the break jobs and treats each other job once.\<close>

abbreviation real_jobs :: "job list \<Rightarrow> job list" where
  "real_jobs js \<equiv> filter (\<lambda>j. \<not> is_break j) js"

lemma report_jobs:
  "run_steps (report_job tmp_file opts) r js = Inr r' \<Longrightarrow>
   \<exists>entries. py_map (job_entry tmp_file) (real_jobs js) = Inr entries \<and>
     xml_results r' = xml_results r @ concat entries \<and>
     counts r' = fold count_job (real_jobs js) (counts r) \<and>
     printed r' = printed r @ map (status_line opts) (real_jobs js)"
proof (induction js arbitrary: r)
  case Nil
  then show ?case by simp
next
  case (Cons j js)
  then obtain r1 where r1: "report_job tmp_file opts r j = Inr r1"
    and rest: "run_steps (report_job tmp_file opts) r1 js = Inr r'" by auto
  show ?case
  proof (cases "is_break j")
    case True
    with r1 have "r1 = r" by (simp add: report_job_def)
    with True Cons.IH [OF rest] show ?thesis by simp
  next
    case False
    then obtain e where e: "job_entry tmp_file j = Inr e"
      and r1: "r1 = \<lparr>counts = count_job j (counts r), printed = printed r @ [status_line opts j],
        xml_results = xml_results r @ e\<rparr>"
      using r1 by (auto simp: report_job_def)
    with False Cons.IH [OF rest] show ?thesis by auto
  qed
qed

lemma py_map_verdict:
  assumes "py_map f xs = Inr ys" "\<And>x y. x \<in> set xs \<Longrightarrow> f x = Inr y \<Longrightarrow> if P x then fragment y else misnested y"
  shows "if \<forall>x \<in> set xs. P x then fragment (concat ys) else misnested (concat ys)"
  using assms
proof (induction xs arbitrary: ys)
  case Nil
  then show ?case by simp
next
  case (Cons x xs)
  then obtain y zs where y: "f x = Inr y" "py_map f xs = Inr zs" "ys = y # zs" by auto
  have v: "if P x then fragment y else misnested y" by (rule Cons.prems(2) [OF _ y(1)]) simp
  have "if \<forall>x \<in> set xs. P x then fragment (concat zs) else misnested (concat zs)"
    by (rule Cons.IH [OF y(2)], rule Cons.prems(2)) simp_all
  with v show ?case
    by (cases "P x") (auto simp: y(3) fragment_append misnested_append fragment_misnested split: if_splits)
qed

text \<open>An element none of whose texts and attribute values holds markup.\<close>

fun plain_xml :: "xml \<Rightarrow> bool" where
  "plain_xml (Elem tg tx at cs) \<longleftrightarrow>
     CHR ''<'' \<notin> set (show_text tx) \<and> (\<forall>(k, v) \<in> set at. CHR ''<'' \<notin> set v) \<and> (\<forall>c \<in> set cs. plain_xml c)"

definition result_of :: "xml \<Rightarrow> string option" where
  "result_of e = (case xfind e ''Result'' of None \<Rightarrow> None | Some c \<Rightarrow> xtext c)"

lemma plain_parts:
  assumes "plain_xml e"
  shows "CHR ''<'' \<notin> set (show_text (xtext e))" "map_of (xattrs e) k = Some v \<Longrightarrow> CHR ''<'' \<notin> set v"
    "c \<in> set (xchildren e) \<Longrightarrow> plain_xml c"
  using assms by (cases e; fastforce dest: map_of_SomeD)+

lemma xfind_child: "xfind e t = Some c \<Longrightarrow> c \<in> set (xchildren e)"
  by (auto simp: xfind_def find_Some_iff)

lemma find_text_plain: "find_text e t = Inr v \<Longrightarrow> plain_xml e \<Longrightarrow> CHR ''<'' \<notin> set (show_text v)"
  by (auto simp: find_text_def plain_parts(1) plain_parts(3) xfind_child split: option.splits)

lemma plain_findall: "plain_xml e \<Longrightarrow> c \<in> set (xfindall e t) \<Longrightarrow> plain_xml c"
  by (simp add: xfindall_def plain_parts(3))

lemma show_text_simps [simp]: "show_text None = ''None''" "show_text (Some s) = s"
  by (simp_all add: show_text_def)

lemma read_test_plain:
  assumes "read_test e = Inr (r, n, t)" "plain_xml e"
  shows "CHR ''<'' \<notin> set (show_text r)" "CHR ''<'' \<notin> set (show_text n)" "CHR ''<'' \<notin> set (show_text t)"
    "r = result_of e"
proof -
  have fr: "find_text e ''Result'' = Inr r" and fn: "find_text e ''Name'' = Inr n"
    and t: "t = (case xfind e ''Time'' of Some t \<Rightarrow> map_of (xattrs t) ''real'' | None \<Rightarrow> Some [])"
    using assms(1) by (auto simp: read_test_def)
  show "CHR ''<'' \<notin> set (show_text r)" "CHR ''<'' \<notin> set (show_text n)"
    by (rule find_text_plain [OF fr assms(2)], rule find_text_plain [OF fn assms(2)])
  show "r = result_of e" using fr by (auto simp: find_text_def result_of_def split: option.splits)
  show "CHR ''<'' \<notin> set (show_text t)"
  proof (cases "xfind e ''Time''")
    case None
    then show ?thesis by (simp add: t)
  next
    case (Some c)
    then have "plain_xml c"
      using assms(2) by (blast intro: plain_parts(3) xfind_child)
    then show ?thesis using Some by (cases t) (auto simp: t dest: plain_parts(2))
  qed
qed

lemma detail_cell_fragment: "html_detail_cell d = Inr s \<Longrightarrow> plain_xml d \<Longrightarrow> fragment s"
  by (auto simp: html_detail_cell_def fragment_def tag_simps dest!: find_text_plain)

lemma html_failures_misnested:
  assumes "html_failures b (r, n, t) (d # ds) = Inr s" "plain_xml d"
    "CHR ''<'' \<notin> set (show_text r)" "CHR ''<'' \<notin> set (show_text n)" "CHR ''<'' \<notin> set (show_text t)"
  shows "misnested s"
proof -
  obtain cell rest where "html_detail_cell d = Inr cell"
    and s: "s = ''<tr>'' @ nl @
            (if b
             then styled ''td'' ''red'' @ show_text r @ ''</td>'' @ nl @
                  ''<td>'' @ show_text n @ ''</td>'' @ nl @
                  ''<td>'' @ show_text t @ ''</td>'' @ nl
             else ''<td></td>'' @ nl @ ''<td></td>'' @ nl @ ''<td></td>'' @ nl) @
            cell @ ''</td>'' @ nl @ rest"
    using assms(1) by auto
  then have "fragment cell" using assms(2) detail_cell_fragment by blast
  then show ?thesis using assms(3-5) by (simp add: s misnested_def tag_simps styled_def)
qed

text \<open>A test case with failure details leaves a row open; any other row is closed.\<close>

definition case_ok :: "xml \<Rightarrow> bool" where
  "case_ok c \<longleftrightarrow> result_of c \<noteq> Some ''FAIL'' \<or> xfindall c ''FailureDetails'' = []"

definition suite_ok :: "xml \<Rightarrow> bool" where
  "suite_ok s \<longleftrightarrow> result_of s \<in> {Some ''CRASH'', Some ''SKIP'', Some ''VALGR''} \<or>
     (\<forall>c \<in> set (xfindall s ''Test''). case_ok c)"

lemma html_case_verdict:
  assumes "html_case c = Inr s" "plain_xml c"
  shows "if case_ok c then fragment s else misnested s"
proof -
  obtain r n t where rt: "read_test c = Inr (r, n, t)" using assms(1) by (auto simp: html_case_def)
  note plain = read_test_plain [OF rt assms(2)]
  show ?thesis
  proof (cases "r = Some ''FAIL''")
    case True
    then have f: "html_failures True (r, n, t) (xfindall c ''FailureDetails'') = Inr s"
      using assms(1) rt by (simp add: html_case_def)
    show ?thesis
    proof (cases "xfindall c ''FailureDetails''")
      case Nil
      then show ?thesis using f by (simp add: case_ok_def)
    next
      case (Cons d ds)
      then have "plain_xml d" using plain_findall [OF assms(2), of d "''FailureDetails''"] by simp
      from html_failures_misnested [OF f [unfolded Cons] this plain(1-3)] have "misnested s" .
      then show ?thesis using Cons True plain(4) by (simp add: case_ok_def)
    qed
  next
    case False
    then have "fragment s" using assms(1) rt plain(1-3)
      by (auto simp: html_case_def fragment_def tag_simps styled_def)
    then show ?thesis using False plain(4) by (simp add: case_ok_def)
  qed
qed

lemma html_example_verdict:
  assumes "html_example e = Inr s" "plain_xml e"
  shows "if result_of e \<noteq> Some ''SKIP'' then fragment s else misnested s"
proof -
  obtain r n t where rt: "read_test e = Inr (r, n, t)" using assms(1) by (auto simp: html_example_def)
  note plain = read_test_plain [OF rt assms(2)]
  show ?thesis
  proof (cases "r = Some ''SKIP''")
    case True
    then have "misnested s" using assms(1) rt plain(1-3)
      by (auto simp: html_example_def misnested_def tag_simps styled_def)
    then show ?thesis using True plain(4) by simp
  next
    case False
    then have "fragment s" using assms(1) rt plain(1-3)
      by (auto simp: html_example_def fragment_def tag_simps styled_def)
    then show ?thesis using False plain(4) by simp
  qed
qed

lemma html_header_fragment:
  assumes "CHR ''<'' \<notin> set (show_text r)" "CHR ''<'' \<notin> set (show_text n)" "CHR ''<'' \<notin> set (show_text t)"
  shows "fragment (html_header (r, n, t))"
  using assms by (simp add: html_header_def fragment_def styled_def tag_simps)

lemma html_table:
  assumes "fragment h" "if P then fragment m else misnested m"
  shows "if P then fragment (h @ ''<table border='' @ dq @ ''1'' @ dq @ ''>'' @ nl @ m @ ''</table>'' @ nl)
    else misnested (h @ ''<table border='' @ dq @ ''1'' @ dq @ ''>'' @ nl @ m @ ''</table>'' @ nl)"
proof (cases P)
  case True
  with assms have "fragment m" by simp
  then have "fragment (h @ ''<table border='' @ dq @ ''1'' @ dq @ ''>'' @ nl @ m @ ''</table>'' @ nl)"
    using assms(1) by (intro fragmentI) (simp add: tag_simps)
  with True show ?thesis by simp
next
  case False
  with assms have "misnested m" by simp
  then have "misnested (h @ ''<table border='' @ dq @ ''1'' @ dq @ ''>'' @ nl @ m @ ''</table>'' @ nl)"
    using assms(1) by (intro misnestedI) (simp add: tag_simps)
  with False show ?thesis by simp
qed

lemma verdict_prefix:
  assumes "fragment h" "if P then fragment m else misnested m"
  shows "if P then fragment (h @ m) else misnested (h @ m)"
  using assms by (cases P) (simp_all add: fragment_append fragment_misnested)

lemma verdict_both:
  assumes "if P then fragment a else misnested a" "if Q then fragment b else misnested b"
  shows "if P \<and> Q then fragment (a @ b) else misnested (a @ b)"
  using assms by (cases P; cases Q) (simp_all add: fragment_append misnested_append fragment_misnested)

lemma html_suite_verdict:
  assumes "html_suite e = Inr s" "plain_xml e"
  shows "if suite_ok e then fragment s else misnested s"
proof -
  obtain r n t where rt: "read_test e = Inr (r, n, t)" using assms(1) by (auto simp: html_suite_def)
  note plain = read_test_plain [OF rt assms(2)]
  note head = html_header_fragment [OF plain(1-3)]
  show ?thesis
  proof (cases "r \<in> {Some ''CRASH'', Some ''SKIP'', Some ''VALGR''}")
    case True
    let ?mid = "''<th> Result </th>'' @ nl @ ''<tr>'' @ nl @
      styled ''td'' (if r = Some ''SKIP'' then ''#ff6600'' else ''red'') @
      show_text r @ ''</td>'' @ nl @ ''</tr>'' @ nl"
    have s: "s = html_header (r, n, t) @ ''<table border='' @ dq @ ''1'' @ dq @ ''>'' @ nl @ ?mid @ ''</table>'' @ nl"
      using assms(1) True by (simp add: html_suite_def Let_def rt)
    have "fragment ?mid" using plain(1) by (simp add: fragment_def styled_def tag_simps)
    then have "if True then fragment s else misnested s" unfolding s by (intro html_table head) simp
    then show ?thesis using True plain(4) by (simp add: suite_ok_def)
  next
    case False
    let ?mid = "''<th> Result </th>'' @ nl @ ''<th>Test Case Name</th>'' @ nl @ ''<th> Time </th>'' @ nl @
      (if r = Some ''FAIL'' then ''<th>Failure Details</th>'' @ nl else [])"
    obtain cs where cs: "py_map html_case (xfindall e ''Test'') = Inr cs"
      and s: "s = html_header (r, n, t) @ ''<table border='' @ dq @ ''1'' @ dq @ ''>'' @ nl @
        (?mid @ concat cs) @ ''</table>'' @ nl"
      using False assms(1) rt by (auto simp: html_suite_def Let_def)
    have "if \<forall>c \<in> set (xfindall e ''Test''). case_ok c then fragment (concat cs) else misnested (concat cs)"
      by (rule py_map_verdict [OF cs], rule html_case_verdict) (simp_all add: plain_findall [OF assms(2)])
    moreover have "fragment ?mid" by (simp add: fragment_def tag_simps)
    ultimately have "if \<forall>c \<in> set (xfindall e ''Test''). case_ok c then fragment s else misnested s"
      unfolding s by (intro html_table head verdict_prefix)
    then show ?thesis using False plain(4) by (simp add: suite_ok_def)
  qed
qed

lemma count_jobs:
  "passed_tests (fold count_job js c) + skipped_tests (fold count_job js c) =
     passed_tests c + skipped_tests c + length (filter (\<lambda>j. is_skip j \<or> returncode j = 0) js)"
  by (induction js arbitrary: c) (auto simp: count_job_def)

lemma filter_all_length: "length (filter P xs) = length xs \<longleftrightarrow> (\<forall>x \<in> set xs. P x)"
  by (metis filter_True length_filter_less less_irrefl)

lemma report_exit_code:
  assumes "report_results tmp_file parse_xml cfg opts (length js) js = Inr (r, files, code)"
  shows "code = 0 \<longleftrightarrow> (\<forall>j \<in> set js. \<not> is_break j \<and> (is_skip j \<or> returncode j = 0))"
proof -
  obtain q where "run_steps (report_job tmp_file opts)
      \<lparr>counts = zero_counters, printed = [],
       xml_results = ''<?xml version='' @ dq @ ''1.0'' @ dq @ ''?>'' @ nl @ ''<Results>'' @ nl\<rparr> js = Inr q"
    and code: "code = (if passed_tests (counts q) + skipped_tests (counts q) = length js then 0 else 1)"
    using assms by (auto simp: report_results_def)
  then have "counts q = fold count_job (real_jobs js) zero_counters" by (auto dest: report_jobs)
  then have "passed_tests (counts q) + skipped_tests (counts q) =
      length (filter (\<lambda>j. \<not> is_break j \<and> (is_skip j \<or> returncode j = 0)) js)"
    by (simp add: count_jobs zero_counters_def conj_commute)
  then show ?thesis by (simp add: code filter_all_length)
qed

section \<open>Properties of the report\<close>

text \<open>
  C39: the results file. When the names hold no markup and the temporary files of the suites
  are balanced, the results file is balanced exactly when no test suite that was run
  returned a code other than 0, 1 and 2: the entry made up for a crashed suite opens
  \<open>Result\<close> and closes \<open>Suite\<close>.
\<close>

theorem results_file_balanced:
  assumes "report_results tmp_file parse_xml cfg opts total_tests js = Inr (r, files, code)"
    "\<And>j. j \<in> set js \<Longrightarrow> CHR ''<'' \<notin> set (display_name j)"
    "\<And>f s. tmp_file f = Some s \<Longrightarrow> fragment s"
  shows "balanced (xml_results r) \<longleftrightarrow>
    (\<forall>j \<in> set js. is_break j \<or> is_example j \<or> is_pyexample j \<or> is_skip j \<or> returncode j \<in> {0, 1, 2})"
proof -
  let ?head = "''<?xml version='' @ dq @ ''1.0'' @ dq @ ''?>'' @ nl @ ''<Results>'' @ nl"
  let ?foot = "''</Results>'' @ nl"
  obtain entries where entries: "py_map (job_entry tmp_file) (real_jobs js) = Inr entries"
    and r: "xml_results r = ?head @ concat entries @ ?foot"
    using assms(1) by (auto simp: report_results_def dest!: report_jobs)
  have "if \<forall>j \<in> set (real_jobs js). entry_ok j then fragment (concat entries) else misnested (concat entries)"
    by (rule py_map_verdict [OF entries]) (use assms(2,3) job_entry_verdict in auto)
  moreover have "run_steps tag_step ([], None) ?head = Inr ([''Results''], None)"
    by (simp add: tag_simps)
  moreover have "run_steps tag_step ([''Results''], None) ?foot = Inr ([], None)"
    by (simp add: tag_simps)
  ultimately have "balanced (?head @ [] @ concat entries @ [] @ ?foot) \<longleftrightarrow> (\<forall>j \<in> set (real_jobs js). entry_ok j)"
    by (intro balanced_wrap) simp_all
  then show ?thesis by (auto simp: r entry_ok_def)
qed

theorem results_file_balanced_witness:
  "\<exists>r files code. report_results (\<lambda>_. Some ''<Test></Test>'') (\<lambda>_. Inl IOError) tiny_config default_options 2
       [new_job\<lparr>display_name := ''a'', returncode := 1\<rparr>, new_job\<lparr>display_name := ''b'', returncode := 139\<rparr>] =
       Inr (r, files, code) \<and> \<not> balanced (xml_results r)"
proof -
  let ?js = "[new_job\<lparr>display_name := ''a'', returncode := 1\<rparr>, new_job\<lparr>display_name := ''b'', returncode := 139\<rparr>]"
  have "\<exists>r files code. report_results (\<lambda>_. Some ''<Test></Test>'') (\<lambda>_. Inl IOError) tiny_config default_options 2
      ?js = Inr (r, files, code)"
    by (simp add: report_results_def report_job_def job_entry_def suite_entry_def new_job_def
        translate_results_def default_options_def)
  then obtain r files code where r: "report_results (\<lambda>_. Some ''<Test></Test>'') (\<lambda>_. Inl IOError) tiny_config
      default_options 2 ?js = Inr (r, files, code)" by blast
  have f: "fragment s" if "Some ''<Test></Test>'' = Some s" for s
    using that by (auto simp: fragment_def tag_simps)
  have plain: "CHR ''<'' \<notin> set (display_name j)" if "j \<in> set ?js" for j
    using that by (auto simp: new_job_def)
  from results_file_balanced [OF r plain f]
  have "balanced (xml_results r) \<longleftrightarrow>
      (\<forall>j \<in> set ?js. is_break j \<or> is_example j \<or> is_pyexample j \<or> is_skip j \<or> returncode j \<in> {0, 1, 2})"
    by blast
  with r show ?thesis by (auto simp: new_job_def)
qed

text \<open>
  The HTML report. For a results tree whose texts hold no markup the report is balanced
  exactly when no reported test case has failure details and no example was skipped: the
  row of a failure is ended by a cell end, and the cell of a skipped example by \<open>fd\<close>.
\<close>

lemma html_report_balanced:
  assumes "translate_to_html et = Inr s" "plain_xml et"
  shows "balanced s \<longleftrightarrow>
    (\<forall>e \<in> set (xfindall et ''Test''). result_of e \<in> {Some ''CRASH'', Some ''SKIP'', Some ''VALGR''} \<or>
       (\<forall>c \<in> set (xfindall e ''Test''). result_of c = Some ''FAIL'' \<longrightarrow> xfindall c ''FailureDetails'' = [])) \<and>
    (\<forall>e \<in> set (xfindall et ''Example''). result_of e \<noteq> Some ''SKIP'')"
proof -
  let ?A = "\<forall>e \<in> set (xfindall et ''Test''). suite_ok e"
  let ?B = "\<forall>e \<in> set (xfindall et ''Example''). result_of e \<noteq> Some ''SKIP''"
  let ?pre = "''<html>'' @ nl @ ''<body>'' @ nl"
  let ?post = "''</body>'' @ nl @ ''</html>'' @ nl"
  let ?a = "''<center><h1>ns-3 Test Results</h1></center>'' @ nl @ ''<h2>Test Suites</h2>'' @ nl"
  let ?th = "''<th> Result </th>'' @ nl @ ''<th>Example Name</th>'' @ nl @ ''<th>Elapsed Time</th>'' @ nl"
  obtain ss es where ss: "py_map html_suite (xfindall et ''Test'') = Inr ss"
    and es: "py_map html_example (xfindall et ''Example'') = Inr es"
    and s: "s = ?pre @ ?a @ (concat ss @ (''<h2>Examples</h2>'' @ nl) @ ''<table border='' @ dq @ ''1'' @ dq @ ''>'' @ nl @
       (?th @ concat es) @ ''</table>'' @ nl) @ [] @ ?post"
    using assms(1) by (auto simp: translate_to_html_def)
  have a: "if ?A then fragment (concat ss) else misnested (concat ss)"
    by (rule py_map_verdict [OF ss], rule html_suite_verdict) (simp_all add: plain_findall [OF assms(2)])
  have b: "if ?B then fragment (concat es) else misnested (concat es)"
    by (rule py_map_verdict [OF es], rule html_example_verdict) (simp_all add: plain_findall [OF assms(2)])
  have "fragment ?th" "fragment (''<h2>Examples</h2>'' @ nl)" and fa: "fragment ?a"
    by (simp_all add: fragment_def tag_simps)
  note t = html_table [OF this(2) verdict_prefix [OF this(1) b]]
  have "balanced s \<longleftrightarrow> ?A \<and> ?B" unfolding s
    by (rule balanced_wrap [OF fa verdict_both [OF a t] fragment_Nil, where st = "[''body'', ''html'']"])
      (simp_all add: tag_simps)
  then show ?thesis by (simp add: suite_ok_def case_ok_def disj_imp)
qed

text \<open>
  C5: the exit code of a run. After a successful build \<open>run_tests\<close> returns 0 exactly when
  every result taken from the output queue is a real result and a skipped job or a process
  that returned 0. Without an interrupt this says that every queued job is skipped or its
  own process returned 0, however the threads were scheduled.
\<close>

theorem exit_code_zero:
  assumes "queued_jobs w cfg opts = Inr js" "PYTHON cfg \<noteq> []"
    "reachable processors js (launch system cfg opts) s" "finished (length js) s"
    "nowaf opts \<or> waf_code (waf_cmd plat opts) = 0"
    "run_tests waf_code status_found plat w cfg opts (\<lambda>_. collected s) tmp_file parse_xml = Returned code"
  shows "(code = 0 \<longleftrightarrow> (\<forall>j \<in> set (collected s). \<not> is_break j \<and> (is_skip j \<or> returncode j = 0))) \<and>
    (\<not> thread_exit s \<longrightarrow>
      (code = 0 \<longleftrightarrow> (\<forall>j \<in> set js. is_skip j \<or> (\<exists>j'. launch system cfg opts j = Inr j' \<and> returncode j' = 0))))"
proof -
  let ?L = "launch system cfg opts"
  have len: "length (collected s) = length js" using assms(4) by (simp add: finished_def)
  obtain r files where "report_results tmp_file parse_xml cfg opts (length js) (collected s) = Inr (r, files, code)"
    using assms(1,5,6) by (auto simp: run_tests_def split: if_splits sum.splits)
  from report_exit_code [OF this [folded len]]
  have c: "code = 0 \<longleftrightarrow> (\<forall>j \<in> set (collected s). \<not> is_break j \<and> (is_skip j \<or> returncode j = 0))" .
  moreover have "(\<forall>j \<in> set (collected s). \<not> is_break j \<and> (is_skip j \<or> returncode j = 0)) \<longleftrightarrow>
      (\<forall>j \<in> set js. is_skip j \<or> (\<exists>j'. ?L j = Inr j' \<and> returncode j' = 0))" if "\<not> thread_exit s"
  proof -
    have nb: "\<forall>j \<in> set js. \<not> is_break j" using queued_not_break [OF assms(1)] by blast
    note nr = no_raise_launch [OF assms(2), of system opts js]
    from collected_results [OF assms(3) nb nr that len]
    have "set (collected s) = job_result ?L ` set js" by (metis mset_eq_setD set_map)
    moreover have "\<not> is_break (job_result ?L j) \<and> (is_skip (job_result ?L j) \<or> returncode (job_result ?L j) = 0) \<longleftrightarrow>
        is_skip j \<or> (\<exists>j'. ?L j = Inr j' \<and> returncode j' = 0)" if mem: "j \<in> set js" for j
    proof -
      obtain j' where j': "work ?L j = Inr j'" using nr mem by (cases "work ?L j") (auto simp: no_raise_def)
      then have "is_break j' = is_break j" "is_skip j' = is_skip j"
        by (auto simp: work_def launch_def split: if_splits)
      then show ?thesis using j' nb mem by (auto simp: job_result_def work_def split: if_splits)
    qed
    ultimately show ?thesis by auto
  qed
  ultimately show ?thesis by blast
qed

theorem exit_code_zero_witness:
  "\<exists>j (s :: threads) code. queued_jobs tiny_world tiny_config default_options = Inr [j] \<and>
     run_tests (\<lambda>_. 0) True OtherPlatform tiny_world tiny_config default_options (\<lambda>_. collected s) (\<lambda>_. Some [])
       (\<lambda>_. Inl IOError) = Returned code \<and> code \<noteq> 0"
proof -
  let ?sys = "\<lambda>_ _. (7, [], [], 1)"
  let ?L = "launch ?sys tiny_config default_options"
  have py: "PYTHON tiny_config \<noteq> []" by (simp add: tiny_config_def)
  obtain j where j: "queued_jobs tiny_world tiny_config default_options = Inr [j]" using tiny_jobs by blast
  have nb: "\<not> is_break j" using queued_not_break [OF j] by simp
  obtain j' where j': "work ?L j = Inr j'"
    using no_raise_launch [OF py, of ?sys default_options "[j]"] by (cases "work ?L j") (auto simp: no_raise_def)
  obtain s where s: "reachable 1 [j] ?L s" "collected s = [j']" "\<not> thread_exit s" "finished (length [j]) s"
    using single_run [OF nb j'] by auto
  have o: "nowaf default_options = False" "kinds default_options = False" "list_tests default_options = False"
    "html_file default_options = []" "text_file default_options = []" by (simp_all add: default_options_def)
  have w: "\<not> is_skip j" "\<not> is_example j" "\<not> is_pyexample j" using tiny_not_skipped [OF j] by simp_all
  then have r: "\<not> is_skip j'" "\<not> is_break j'" "returncode j' = 7"
    using j' nb by (auto simp: work_def launch_def run_job_synchronously_def job_command_def Let_def)
  have "\<exists>code. run_tests (\<lambda>_. 0) True OtherPlatform tiny_world tiny_config default_options (\<lambda>_. collected s)
      (\<lambda>_. Some []) (\<lambda>_. Inl IOError) = Returned code"
    by (simp add: run_tests_def j s(2) o r report_results_def report_job_def job_entry_def suite_entry_def
        translate_results_def)
  then obtain code where code: "run_tests (\<lambda>_. 0) True OtherPlatform tiny_world tiny_config default_options
      (\<lambda>_. collected s) (\<lambda>_. Some []) (\<lambda>_. Inl IOError) = Returned code" by blast
  from exit_code_zero [OF j py s(1,4) _ code] s(2,3) r have "code \<noteq> 0" by simp
  with j code show ?thesis by blast
qed

end
