(* ===== verification/Check_Style.thy ===== *)
theory Check_Style
  imports Py_Prelude
begin

text \<open>
  \<open>utils/check-style.py\<close>: the patch sets it reads and writes, the removal of trailing white
  space changes, and the check of a list of files. A chunk refers to its lines by their
  position, so that a context line that is listed on both sides is one object, as in the
  code. \<open>uncrustify\<close>, \<open>patch\<close> and \<open>difflib.unified_diff\<close> are parameters.
\<close>

section \<open>Configuration\<close>

definition level0 :: "string list" where
  "level0 =
     [''sp_func_proto_paren=Add'', ''sp_func_def_paren=Add'', ''sp_func_call_paren=Add'',
      ''sp_after_semi_for=Ignore'', ''sp_before_sparen=Ignore'', ''sp_type_func=Ignore'',
      ''sp_after_type=Ignore'', ''nl_class_leave_one_liners=True'', ''nl_enum_leave_one_liners=True'',
      ''nl_func_leave_one_liners=True'', ''nl_assign_leave_one_liners=True'',
      ''#nl_collapse_empty_body=False'', ''nl_getset_leave_one_liners=True'',
      ''nl_if_leave_one_liners=True'', ''nl_fdef_brace=Ignore'',
      ''# finally, indentation configuration'', ''indent_with_tabs=0'', ''indent_namespace=false'',
      ''indent_columns=2'', ''indent_brace=2'', ''indent_case_brace=2'', ''indent_class=true'',
      ''indent_class_colon=True'', ''# alignment'', ''indent_align_assign=False'',
      ''align_left_shift=True'', ''# comment reformating disabled'',
      ''cmt_reflow_mode=1 # do not touch comments at all'',
      ''cmt_indent_multi=False # really, do not touch them'']"

definition level1 :: "string list" where
  "level1 =
     [''# extra spaces here and there'', ''sp_brace_typedef=Add'', ''sp_enum_assign=Add'',
      ''sp_before_sparen=Add'', ''sp_after_semi_for=Add'', ''sp_arith=Add'', ''sp_assign=Add'',
      ''sp_compare=Add'', ''sp_func_class_paren=Add'', ''sp_after_type=Add'', ''sp_type_func=Add'',
      ''sp_angle_paren=Add'']"

definition level2 :: "string list" where
  "level2 =
     [''nl_collapse_empty_body=False'', ''nl_if_brace=Add'', ''nl_brace_else=Add'',
      ''nl_elseif_brace=Add'', ''nl_else_brace=Add'', ''nl_while_brace=Add'', ''nl_do_brace=Add'',
      ''nl_for_brace=Add'', ''nl_brace_while=Add'', ''nl_switch_brace=Add'', ''nl_after_case=True'',
      ''nl_namespace_brace=Remove'', ''nl_after_brace_open=True'', ''nl_class_leave_one_liners=False'',
      ''nl_enum_leave_one_liners=False'', ''nl_func_leave_one_liners=False'',
      ''nl_if_leave_one_liners=False'', ''nl_class_colon=Ignore'', ''nl_after_access_spec=1'',
      ''nl_after_semicolon=True'', ''pos_class_colon=Lead'', ''pos_class_comma=Trail'',
      ''pos_bool=Lead'', ''nl_class_init_args=Add'', ''nl_template_class=Add'', ''nl_class_brace=Add'',
      ''# does not work very well'', ''nl_func_type_name=Ignore'', ''nl_func_scope_name=Ignore'',
      ''nl_func_type_name_class=Ignore'', ''nl_func_proto_type_name=Ignore'', ''# function'' @ [CHR 0x5C] @ ''n('',
      ''nl_func_paren=Remove'', ''nl_fdef_brace=Add'', ''nl_struct_brace=Add'', ''nl_enum_brace=Add'',
      ''nl_union_brace=Add'', ''mod_full_brace_do=Add'', ''mod_full_brace_for=Add'',
      ''mod_full_brace_if=Add'', ''mod_full_brace_while=Add'', ''mod_full_brace_for=Add'',
      ''mod_remove_extra_semicolon=True'', ''# max code width'', ''#code_width=128'',
      ''#ls_for_split_full=True'', ''#ls_func_split_full=True'']"

text \<open>The text starts with the line break after the opening quotes.\<close>

definition config_text :: "string list \<Rightarrow> string" where
  "config_text ls = nl @ concat (map (\<lambda>l. l @ nl) ls)"

definition uncrustify_config_file :: "int \<Rightarrow> string" where
  "uncrustify_config_file level =
     config_text level0 @ (if 1 \<le> level then config_text level1 else []) @
     (if 2 \<le> level then config_text level2 else [])"

section \<open>Lines, chunks and patches\<close>

datatype line_type = Unset | SRC | DST | BOTH

record patch_chunk_line =
  pl_type :: line_type
  pl_line :: string

definition new_chunk_line :: patch_chunk_line where
  "new_chunk_line = \<lparr>pl_type = Unset, pl_line = []\<rparr>"

definition set_src :: "string \<Rightarrow> patch_chunk_line \<Rightarrow> patch_chunk_line" where
  "set_src line l = l\<lparr>pl_type := SRC, pl_line := line\<rparr>"

definition set_dst :: "string \<Rightarrow> patch_chunk_line \<Rightarrow> patch_chunk_line" where
  "set_dst line l = l\<lparr>pl_type := DST, pl_line := line\<rparr>"

definition set_both :: "string \<Rightarrow> patch_chunk_line \<Rightarrow> patch_chunk_line" where
  "set_both line l = l\<lparr>pl_type := BOTH, pl_line := line\<rparr>"

definition append_to_line :: "string \<Rightarrow> patch_chunk_line \<Rightarrow> patch_chunk_line" where
  "append_to_line s l = l\<lparr>pl_line := pl_line l @ s\<rparr>"

definition is_src :: "patch_chunk_line \<Rightarrow> bool" where
  "is_src l \<longleftrightarrow> pl_type l = SRC \<or> pl_type l = BOTH"

definition is_dst :: "patch_chunk_line \<Rightarrow> bool" where
  "is_dst l \<longleftrightarrow> pl_type l = DST \<or> pl_type l = BOTH"

definition write_line :: "patch_chunk_line \<Rightarrow> string py" where
  "write_line l =
     (case pl_type l of
        SRC \<Rightarrow> Inr (''-'' @ pl_line l @ nl)
      | DST \<Rightarrow> Inr (''+'' @ pl_line l @ nl)
      | BOTH \<Rightarrow> Inr ('' '' @ pl_line l @ nl)
      | Unset \<Rightarrow> Inl PlainException)"

record patch_chunk =
  pc_lines :: "patch_chunk_line list"
  src_pos :: int
  dst_pos :: int

definition new_chunk :: "string \<Rightarrow> string \<Rightarrow> patch_chunk" where
  "new_chunk sp dp = \<lparr>pc_lines = [], src_pos = int_of_digits sp, dst_pos = int_of_digits dp\<rparr>"

definition add_line :: "patch_chunk_line \<Rightarrow> patch_chunk \<Rightarrow> patch_chunk" where
  "add_line l c = c\<lparr>pc_lines := pc_lines c @ [l]\<rparr>"

text \<open>The lists that \<open>src()\<close> and \<open>dst()\<close> return, as positions of the line objects in the chunk.\<close>

definition src_lines :: "patch_chunk_line list \<Rightarrow> nat list" where
  "src_lines ls = filter (\<lambda>i. is_src (ls ! i)) [0..<length ls]"

definition dst_lines :: "patch_chunk_line list \<Rightarrow> nat list" where
  "dst_lines ls = filter (\<lambda>i. is_dst (ls ! i)) [0..<length ls]"

definition src_len :: "patch_chunk \<Rightarrow> nat" where
  "src_len c = length (src_lines (pc_lines c))"

definition dst_len :: "patch_chunk \<Rightarrow> nat" where
  "dst_len c = length (dst_lines (pc_lines c))"

definition write_chunk :: "patch_chunk \<Rightarrow> string py" where
  "write_chunk c =
     py_bind (py_map write_line (pc_lines c)) (\<lambda>ls.
       Inr (''@@ -'' @ str_int (src_pos c) @ '','' @ str_nat (src_len c) @ '' +'' @
            str_int (dst_pos c) @ '','' @ str_nat (dst_len c) @ '' @@'' @ nl @ concat ls))"

record patch =
  p_src :: string
  p_dst :: string
  p_chunks :: "patch_chunk list"

definition new_patch :: patch where
  "new_patch = \<lparr>p_src = [], p_dst = [], p_chunks = []\<rparr>"

definition add_chunk :: "patch_chunk \<Rightarrow> patch \<Rightarrow> patch" where
  "add_chunk c p = p\<lparr>p_chunks := p_chunks p @ [c]\<rparr>"

definition write_patch :: "patch \<Rightarrow> string py" where
  "write_patch p =
     py_bind (py_map write_chunk (p_chunks p)) (\<lambda>cs.
       Inr (''--- '' @ p_src p @ nl @ ''+++ '' @ p_dst p @ nl @ concat cs))"

section \<open>Reading a patch set\<close>

text \<open>\<open>(.*)$\<close>: everything up to the end or to a final line break.\<close>

definition dot_star_end :: "string \<Rightarrow> string option" where
  "dot_star_end s =
     (if dropWhile (\<lambda>c. c \<noteq> CHR 0x0A) s \<in> {[], nl} then Some (takeWhile (\<lambda>c. c \<noteq> CHR 0x0A) s) else None)"

definition match_prefix :: "string \<Rightarrow> string \<Rightarrow> string option" where
  "match_prefix p line = Option.bind (literal p line) dot_star_end"

text \<open>\<open>([0-9]+)\<close> followed by a character that is not a digit.\<close>

definition match_digits :: "string \<Rightarrow> (string \<times> string) option" where
  "match_digits s = (if takeWhile is_digit s = [] then None else Some (takeWhile is_digit s, dropWhile is_digit s))"

definition match_chunk_start :: "string \<Rightarrow> (string \<times> string) option" where
  "match_chunk_start line =
     Option.bind (literal ''@@ -'' line) (\<lambda>s.
     Option.bind (match_digits s) (\<lambda>(g1, s).
     Option.bind (literal '','' s) (\<lambda>s.
     Option.bind (match_digits s) (\<lambda>(g2, s).
     Option.bind (literal '' +'' s) (\<lambda>s.
     Option.bind (match_digits s) (\<lambda>(g3, s).
     Option.bind (literal '','' s) (\<lambda>s.
     Option.bind (match_digits s) (\<lambda>(g4, s).
     Option.bind (literal '' @@'' s) (\<lambda>s. Some (g1, g3))))))))))"

text \<open>
  \<open>current_patch\<close> is the last patch of the set. \<open>current_chunk\<close> is unbound at first and then
  the chunk that was added last, by the position of its patch and its own: a new patch does
  not reset it.
\<close>

record patch_parser =
  patchset :: "patch list"
  current_chunk :: "(nat \<times> nat) option"

definition to_patch :: "(patch \<Rightarrow> patch) \<Rightarrow> patch_parser \<Rightarrow> patch_parser py" where
  "to_patch f st =
     (if patchset st = [] then Inl AttributeError
      else Inr (st\<lparr>patchset := update_nth (length (patchset st) - 1) f (patchset st)\<rparr>))"

definition to_chunk :: "(patch_chunk \<Rightarrow> patch_chunk) \<Rightarrow> patch_parser \<Rightarrow> patch_parser py" where
  "to_chunk f st =
     (case current_chunk st of
        None \<Rightarrow> Inl UnboundLocalError
      | Some (i, j) \<Rightarrow> Inr (st\<lparr>patchset := update_nth i (\<lambda>p. p\<lparr>p_chunks := update_nth j f (p_chunks p)\<rparr>) (patchset st)\<rparr>))"

definition parse_patch_line :: "patch_parser \<Rightarrow> string \<Rightarrow> patch_parser py" where
  "parse_patch_line st line =
     (case match_prefix ''--- '' line of
        Some g \<Rightarrow> Inr (st\<lparr>patchset := patchset st @ [new_patch\<lparr>p_src := g\<rparr>]\<rparr>)
      | None \<Rightarrow>
     (case match_prefix ''+++ '' line of
        Some g \<Rightarrow> to_patch (\<lambda>p. p\<lparr>p_dst := g\<rparr>) st
      | None \<Rightarrow>
     (case match_chunk_start line of
        Some (g1, g3) \<Rightarrow>
          py_bind (to_patch (add_chunk (new_chunk g1 g3)) st) (\<lambda>st'.
            Inr (st'\<lparr>current_chunk := Some (length (patchset st') - 1, length (p_chunks (last (patchset st'))) - 1)\<rparr>))
      | None \<Rightarrow>
     (case match_prefix ''-'' line of
        Some g \<Rightarrow> to_chunk (add_line (set_src g new_chunk_line)) st
      | None \<Rightarrow>
     (case match_prefix ''+'' line of
        Some g \<Rightarrow> to_chunk (add_line (set_dst g new_chunk_line)) st
      | None \<Rightarrow>
     (case match_prefix '' '' line of
        Some g \<Rightarrow> to_chunk (add_line (set_both g new_chunk_line)) st
      | None \<Rightarrow> Inl PlainException))))))"

definition parse_patchset :: "string list \<Rightarrow> patch list py" where
  "parse_patchset lines =
     py_bind (run_steps parse_patch_line \<lparr>patchset = [], current_chunk = None\<rparr> lines) (\<lambda>st. Inr (patchset st))"

section \<open>Trailing white space\<close>

text \<open>A text with a blank or tab at its end, as \<open>whitespace\<close> splits it: the first group is greedy and leaves one character to the second.\<close>

definition trailing_whitespace :: "string \<Rightarrow> (string \<times> string) option" where
  "trailing_whitespace s =
     Option.bind (dot_star_end s) (\<lambda>x.
       if x \<noteq> [] \<and> last x \<in> {CHR '' '', CHR 0x09} then Some (butlast x, [last x]) else None)"

definition restore_line :: "nat \<Rightarrow> nat \<Rightarrow> patch_chunk_line list \<Rightarrow> patch_chunk_line list" where
  "restore_line s d ls =
     (case trailing_whitespace (pl_line (ls ! s)) of
        None \<Rightarrow> ls
      | Some (g1, g2) \<Rightarrow> if g1 = pl_line (ls ! d) then update_nth d (append_to_line g2) ls else ls)"

text \<open>
  The loop over the source lines. \<open>dst[i]\<close> raises when there are fewer destination lines;
  the handler returns from the function, which is the result \<open>False\<close> here.
\<close>

fun restore_lines :: "patch_chunk_line list \<Rightarrow> nat list \<Rightarrow> nat list \<Rightarrow> bool \<times> patch_chunk_line list" where
  "restore_lines ls [] ds = (True, ls)"
| "restore_lines ls (s # ss) [] = (False, ls)"
| "restore_lines ls (s # ss) (d # ds) = restore_lines (restore_line s d ls) ss ds"

fun restore_chunks :: "patch_chunk list \<Rightarrow> bool \<times> patch_chunk list" where
  "restore_chunks [] = (True, [])"
| "restore_chunks (c # cs) =
     (case restore_lines (pc_lines c) (src_lines (pc_lines c)) (dst_lines (pc_lines c)) of
        (ok, ls) \<Rightarrow>
          if ok then (case restore_chunks cs of (ok', cs') \<Rightarrow> (ok', c\<lparr>pc_lines := ls\<rparr> # cs'))
          else (False, c\<lparr>pc_lines := ls\<rparr> # cs))"

fun restore_patches :: "patch list \<Rightarrow> patch list" where
  "restore_patches [] = []"
| "restore_patches (p # ps) =
     (case restore_chunks (p_chunks p) of
        (ok, cs) \<Rightarrow> p\<lparr>p_chunks := cs\<rparr> # (if ok then restore_patches ps else ps))"

definition remove_trailing_whitespace_changes :: "string list \<Rightarrow> patch list py" where
  "remove_trailing_whitespace_changes lines =
     py_bind (parse_patchset lines) (\<lambda>ps. Inr (restore_patches ps))"

section \<open>Indenting files\<close>

record style_tools =
  uncrustify :: "string \<Rightarrow> string option \<Rightarrow> string option"
  unified_diff :: "string list \<Rightarrow> string list \<Rightarrow> string \<Rightarrow> string list"
  patch_tool :: "string \<Rightarrow> string \<Rightarrow> string"

type_synonym files = "string \<Rightarrow> string option"

text \<open>\<open>f.readlines()\<close>: the lines with their line breaks.\<close>

fun readlines :: "string \<Rightarrow> string list" where
  "readlines [] = []"
| "readlines (c # s) =
     (if c = CHR 0x0A then [c] # readlines s
      else (case readlines s of [] \<Rightarrow> [[c]] | l # ls \<Rightarrow> (c # l) # ls))"

text \<open>
  The contents of the output file that \<open>indent\<close> returns. \<open>uncrustify\<close> is \<open>None\<close> when it
  cannot be started. The difference is a generator: with \<open>debug\<close> it is written to a file
  first and has no lines left for what follows.
\<close>

definition indent :: "style_tools \<Rightarrow> files \<Rightarrow> string \<Rightarrow> bool \<Rightarrow> int \<Rightarrow> string py" where
  "indent tools fs source debug level =
     (case uncrustify tools (uncrustify_config_file level) (fs source) of
        None \<Rightarrow> Inl PlainException
      | Some out \<Rightarrow>
     (case fs source of
        None \<Rightarrow> Inl IOError
      | Some contents \<Rightarrow>
          let diff = (if debug then [] else unified_diff tools (readlines contents) (readlines out) source)
          in py_bind
               (if level < 3
                then py_bind (remove_trailing_whitespace_changes diff) (\<lambda>ps.
                       case ps of [] \<Rightarrow> Inr [] | p # _ \<Rightarrow> write_patch p)
                else Inr (concat diff))
               (\<lambda>final_diff. Inr (patch_tool tools final_diff contents))))"

text \<open>The return value, the lines printed and the files afterwards.\<close>

definition indent_files ::
  "style_tools \<Rightarrow> files \<Rightarrow> string list \<Rightarrow> bool \<Rightarrow> bool \<Rightarrow> int \<Rightarrow> bool \<Rightarrow> (bool \<times> string list \<times> files) py" where
  "indent_files tools fs names diff debug level inplace =
     py_bind (py_map (\<lambda>f. py_bind (indent tools fs f debug level) (\<lambda>d. Inr (f, d))) names) (\<lambda>output.
       if inplace then Inr (True, [], fold (\<lambda>(f, d) fs. fs(f \<mapsto> d)) output fs)
       else
         let failed = filter (\<lambda>(f, d). fs f \<noteq> Some d) output
         in if failed = [] then Inr (True, [], fs)
            else if \<not> diff
            then Inr (False, (''Found '' @ str_nat (length failed) @ '' badly indented files:'') #
                              map (\<lambda>(f, d). ''  '' @ f) failed, fs)
            else Inr (False, concat (map (\<lambda>(f, d). unified_diff tools (readlines (the (fs f))) (readlines d) f) failed), fs))"

definition hg_modified_files :: "string list \<Rightarrow> string list" where
  "hg_modified_files output = map strip output"

text \<open>A true value makes Mercurial reject the transaction.\<close>

definition run_as_hg_hook :: "style_tools \<Rightarrow> files \<Rightarrow> string list \<Rightarrow> bool py" where
  "run_as_hg_hook tools fs hg_st =
     py_bind (indent_files tools fs (hg_modified_files hg_st) False False 0 False) (\<lambda>(ok, _, _). Inr (\<not> ok))"

record style_options =
  so_debug :: bool
  so_level :: int
  so_hg_hook :: bool
  so_hg :: bool
  so_file :: string
  so_diff :: bool
  so_in_place :: bool

text \<open>The exit code, the lines printed and the files afterwards.\<close>

definition run_as_main ::
  "style_tools \<Rightarrow> files \<Rightarrow> string list \<Rightarrow> style_options \<Rightarrow> (int \<times> string list \<times> files) py" where
  "run_as_main tools fs hg_st opts =
     (if so_hg_hook opts
      then py_bind (indent_files tools fs (hg_modified_files hg_st) False (so_debug opts) (so_level opts) False)
             (\<lambda>(ok, printed, fs'). Inr (if ok then 0 else 1, printed, fs'))
      else if so_hg opts
      then py_bind (indent_files tools fs (hg_modified_files hg_st) (so_diff opts) (so_debug opts) (so_level opts)
                      (so_in_place opts))
             (\<lambda>(ok, printed, fs'). Inr (0, printed, fs'))
      else if so_file opts \<noteq> []
      then (if fs (so_file opts) = None
            then Inr (1, [''file '' @ so_file opts @ '' does not exist''], fs)
            else py_bind (indent_files tools fs [so_file opts] (so_diff opts) (so_debug opts) (so_level opts)
                            (so_in_place opts))
                   (\<lambda>(ok, printed, fs'). Inr (0, printed, fs')))
      else Inr (0, [], fs))"

section \<open>Well-formed patch sets\<close>

text \<open>
  What can be read back: line breaks only at the ends of lines, and no changed line that
  would be taken for the name of a file once its sign is put in front of it.
\<close>

definition wf_line :: "patch_chunk_line \<Rightarrow> bool" where
  "wf_line l \<longleftrightarrow> pl_type l \<noteq> Unset \<and> CHR 0x0A \<notin> set (pl_line l) \<and>
     (pl_type l = SRC \<longrightarrow> \<not> startswith (pl_line l) ''-- '') \<and> (pl_type l = DST \<longrightarrow> \<not> startswith (pl_line l) ''++ '')"

definition wf_chunk :: "patch_chunk \<Rightarrow> bool" where
  "wf_chunk c \<longleftrightarrow> 0 \<le> src_pos c \<and> 0 \<le> dst_pos c \<and> list_all wf_line (pc_lines c)"

definition wf_patch :: "patch \<Rightarrow> bool" where
  "wf_patch p \<longleftrightarrow> CHR 0x0A \<notin> set (p_src p) \<and> CHR 0x0A \<notin> set (p_dst p) \<and> list_all wf_chunk (p_chunks p)"

definition line_text :: "patch_chunk_line \<Rightarrow> string" where
  "line_text l = (case pl_type l of SRC \<Rightarrow> ''-'' | DST \<Rightarrow> ''+'' | _ \<Rightarrow> '' '') @ pl_line l"

definition chunk_text :: "patch_chunk \<Rightarrow> string list" where
  "chunk_text c = (''@@ -'' @ str_int (src_pos c) @ '','' @ str_nat (src_len c) @ '' +'' @
     str_int (dst_pos c) @ '','' @ str_nat (dst_len c) @ '' @@'') # map line_text (pc_lines c)"

definition patch_text :: "patch \<Rightarrow> string list" where
  "patch_text p = [''--- '' @ p_src p, ''+++ '' @ p_dst p] @ concat (map chunk_text (p_chunks p))"

abbreviation with_breaks :: "string list \<Rightarrow> string list" where
  "with_breaks ls \<equiv> map (\<lambda>l. l @ nl) ls"

lemma write_line_text: "wf_line l \<Longrightarrow> write_line l = Inr (line_text l @ nl)"
  by (cases "pl_type l") (simp_all add: wf_line_def write_line_def line_text_def)

lemma write_chunk_text: "wf_chunk c \<Longrightarrow> write_chunk c = Inr (concat (with_breaks (chunk_text c)))"
proof -
  assume "wf_chunk c"
  then have "py_map write_line (pc_lines c) = Inr (map (\<lambda>l. line_text l @ nl) (pc_lines c))"
    by (intro py_map_Inr) (simp add: wf_chunk_def list_all_iff write_line_text)
  then show ?thesis by (simp add: write_chunk_def chunk_text_def o_def)
qed

lemma write_patch_text: "wf_patch p \<Longrightarrow> write_patch p = Inr (concat (with_breaks (patch_text p)))"
proof -
  assume "wf_patch p"
  then have "py_map write_chunk (p_chunks p) = Inr (map (\<lambda>c. concat (with_breaks (chunk_text c))) (p_chunks p))"
    by (intro py_map_Inr) (simp add: wf_patch_def list_all_iff write_chunk_text)
  moreover have "concat (map (\<lambda>c. concat (with_breaks (chunk_text c))) cs) =
      concat (with_breaks (concat (map chunk_text cs)))" for cs
    by (induction cs) simp_all
  ultimately show ?thesis by (simp add: write_patch_def patch_text_def)
qed

lemma readlines_Cons: "CHR 0x0A \<notin> set l \<Longrightarrow> readlines (l @ CHR 0x0A # s) = (l @ nl) # readlines s"
  by (induction l) auto

lemma readlines_concat:
  "list_all (\<lambda>l. CHR 0x0A \<notin> set l) ls \<Longrightarrow> readlines (concat (with_breaks ls)) = with_breaks ls"
  by (induction ls) (simp_all add: readlines_Cons)

lemma str_nat_no_break: "CHR 0x0A \<notin> set (str_nat n)"
  using str_nat_digits [of n] by auto

lemma patch_text_no_break: "wf_patch p \<Longrightarrow> list_all (\<lambda>l. CHR 0x0A \<notin> set l) (patch_text p)"
  by (auto simp: patch_text_def chunk_text_def line_text_def wf_patch_def wf_chunk_def wf_line_def list_all_iff
      str_int_def str_nat_no_break split: line_type.splits)

section \<open>Reading what was written\<close>

lemma dot_star_end_break: "CHR 0x0A \<notin> set x \<Longrightarrow> dot_star_end (x @ nl) = Some x"
  by (simp add: dot_star_end_def dropWhile_append takeWhile_append)

lemma match_digits_str_nat: "\<not> is_digit c \<Longrightarrow> match_digits (str_nat n @ c # s) = Some (str_nat n, c # s)"
  using str_nat_is_digit [of n]
  by (simp add: match_digits_def list_all_iff takeWhile_append dropWhile_append)

lemma match_chunk_start_text:
  "match_chunk_start (''@@ -'' @ str_nat a @ '','' @ str_nat b @ '' +'' @ str_nat c @ '','' @ str_nat d @ '' @@'' @ s) =
     Some (str_nat a, str_nat c)"
proof -
  have "literal ''@@ -'' (''@@ -'' @ t) = Some t" "literal '','' (CHR '','' # t) = Some t"
    "literal '' +'' (CHR '' '' # CHR ''+'' # t) = Some t"
    "literal '' @@'' (CHR '' '' # CHR ''@'' # CHR ''@'' # t) = Some t" for t
    by (simp_all add: literal_def startswith_def)
  then show ?thesis by (simp add: match_chunk_start_def match_digits_str_nat is_digit_def)
qed

lemma match_prefix_hit: "CHR 0x0A \<notin> set x \<Longrightarrow> match_prefix p (p @ x @ nl) = Some x"
  by (simp add: match_prefix_def dot_star_end_break)

lemma match_prefix_miss: "\<not> prefix p line \<Longrightarrow> match_prefix p line = None"
  by (simp add: match_prefix_def literal_def startswith_def)

lemma match_chunk_start_miss: "\<not> prefix ''@@ -'' line \<Longrightarrow> match_chunk_start line = None"
  by (simp add: match_chunk_start_def literal_def startswith_def)

lemma prefix_break: "CHR 0x0A \<notin> set p \<Longrightarrow> prefix p (x @ nl) \<longleftrightarrow> prefix p x"
  by auto

lemma parse_src_file:
  "CHR 0x0A \<notin> set x \<Longrightarrow> parse_patch_line st ((''--- '' @ x) @ nl) =
     Inr (st\<lparr>patchset := patchset st @ [new_patch\<lparr>p_src := x\<rparr>]\<rparr>)"
  using match_prefix_hit [of x "''--- ''"] by (simp add: parse_patch_line_def)

lemma parse_dst_file:
  "CHR 0x0A \<notin> set x \<Longrightarrow> parse_patch_line st ((''+++ '' @ x) @ nl) = to_patch (\<lambda>p. p\<lparr>p_dst := x\<rparr>) st"
  using match_prefix_hit [of x "''+++ ''"] by (simp add: parse_patch_line_def match_prefix_miss)

lemmas parse_file_names = parse_src_file [simplified] parse_dst_file [simplified]

lemma parse_chunk_line:
  assumes "wf_line l"
  shows "parse_patch_line st (line_text l @ nl) = to_chunk (add_line l) st"
proof -
  have nb: "CHR 0x0A \<notin> set (pl_line l)" using assms by (simp add: wf_line_def)
  note hit = match_prefix_hit [OF nb]
  show ?thesis
  proof (cases "pl_type l")
    case Unset
    then show ?thesis using assms by (simp add: wf_line_def)
  next
    case SRC
    then have "match_prefix ''--- '' (CHR ''-'' # pl_line l @ nl) = None"
      using assms by (intro match_prefix_miss) (simp add: wf_line_def startswith_def prefix_break)
    then show ?thesis using SRC hit [of "''-''"]
      by (cases l) (simp add: parse_patch_line_def line_text_def match_prefix_miss match_chunk_start_miss set_src_def new_chunk_line_def)
  next
    case DST
    then have "match_prefix ''+++ '' (CHR ''+'' # pl_line l @ nl) = None"
      using assms by (intro match_prefix_miss) (simp add: wf_line_def startswith_def prefix_break)
    then show ?thesis using DST hit [of "''+''"]
      by (cases l) (simp add: parse_patch_line_def line_text_def match_prefix_miss match_chunk_start_miss set_dst_def new_chunk_line_def)
  next
    case BOTH
    then show ?thesis using hit [of "'' ''"]
      by (cases l) (simp add: parse_patch_line_def line_text_def match_prefix_miss match_chunk_start_miss set_both_def new_chunk_line_def)
  qed
qed

lemma update_nth_last [simp]: "update_nth (length xs) f (xs @ [x]) = xs @ [f x]"
  by (simp add: update_nth_def)

lemma parse_chunk_lines:
  assumes "list_all wf_line ls"
  shows "run_steps parse_patch_line \<lparr>patchset = ps @ [p\<lparr>p_chunks := cs @ [c]\<rparr>], current_chunk = Some (length ps, length cs)\<rparr>
      (with_breaks (map line_text ls)) =
    Inr \<lparr>patchset = ps @ [p\<lparr>p_chunks := cs @ [c\<lparr>pc_lines := pc_lines c @ ls\<rparr>]\<rparr>], current_chunk = Some (length ps, length cs)\<rparr>"
  using assms
proof (induction ls arbitrary: c)
  case Nil
  then show ?case by simp
next
  case (Cons l ls)
  then show ?case
    using Cons.IH [of "add_line l c"] by (simp add: parse_chunk_line to_chunk_def add_line_def)
qed

lemma parse_chunk_text:
  assumes "wf_chunk c"
  shows "run_steps parse_patch_line \<lparr>patchset = ps @ [p], current_chunk = cc\<rparr> (with_breaks (chunk_text c)) =
    Inr \<lparr>patchset = ps @ [add_chunk c p], current_chunk = Some (length ps, length (p_chunks p))\<rparr>"
proof -
  let ?h = "''@@ -'' @ str_int (src_pos c) @ '','' @ str_nat (src_len c) @ '' +'' @
     str_int (dst_pos c) @ '','' @ str_nat (dst_len c) @ '' @@''"
  let ?c = "\<lparr>pc_lines = [], src_pos = src_pos c, dst_pos = dst_pos c\<rparr>"
  have pos: "str_int (src_pos c) = str_nat (nat (src_pos c))" "str_int (dst_pos c) = str_nat (nat (dst_pos c))"
    "0 \<le> src_pos c" "0 \<le> dst_pos c" and ls: "list_all wf_line (pc_lines c)"
    using assms by (simp_all add: wf_chunk_def str_int_def)
  have "match_chunk_start (?h @ nl) = Some (str_nat (nat (src_pos c)), str_nat (nat (dst_pos c)))"
    unfolding pos(1,2) append_assoc by (rule match_chunk_start_text)
  then have "parse_patch_line \<lparr>patchset = ps @ [p], current_chunk = cc\<rparr> (?h @ nl) =
      Inr \<lparr>patchset = ps @ [p\<lparr>p_chunks := p_chunks p @ [?c]\<rparr>], current_chunk = Some (length ps, length (p_chunks p))\<rparr>"
    using pos(3,4) by (simp add: parse_patch_line_def match_prefix_miss to_patch_def add_chunk_def new_chunk_def)
  then show ?thesis
    using parse_chunk_lines [OF ls, where ps = ps and p = p and cs = "p_chunks p" and c = ?c] by (simp add: chunk_text_def add_chunk_def o_def)
qed

lemma parse_chunk_texts:
  assumes "list_all wf_chunk cs"
  shows "\<exists>cc'. run_steps parse_patch_line \<lparr>patchset = ps @ [p], current_chunk = cc\<rparr> (with_breaks (concat (map chunk_text cs))) =
    Inr \<lparr>patchset = ps @ [p\<lparr>p_chunks := p_chunks p @ cs\<rparr>], current_chunk = cc'\<rparr>"
  using assms
proof (induction cs arbitrary: p cc)
  case Nil
  then show ?case by simp
next
  case (Cons c cs)
  then show ?case
    using Cons.IH [of "add_chunk c p" "Some (length ps, length (p_chunks p))"]
    by (simp add: run_steps_append parse_chunk_text add_chunk_def)
qed

lemma parse_patch_text:
  assumes "wf_patch p"
  shows "\<exists>cc'. run_steps parse_patch_line \<lparr>patchset = ps, current_chunk = cc\<rparr> (with_breaks (patch_text p)) =
    Inr \<lparr>patchset = ps @ [p], current_chunk = cc'\<rparr>"
proof -
  have "CHR 0x0A \<notin> set (p_src p)" "CHR 0x0A \<notin> set (p_dst p)" and cs: "list_all wf_chunk (p_chunks p)"
    using assms by (simp_all add: wf_patch_def)
  then have "run_steps parse_patch_line \<lparr>patchset = ps, current_chunk = cc\<rparr> (with_breaks [''--- '' @ p_src p, ''+++ '' @ p_dst p]) =
      Inr \<lparr>patchset = ps @ [\<lparr>p_src = p_src p, p_dst = p_dst p, p_chunks = []\<rparr>], current_chunk = cc\<rparr>"
    by (simp add: parse_file_names to_patch_def new_patch_def)
  moreover have eta: "\<lparr>p_src = p_src p, p_dst = p_dst p, p_chunks = p_chunks p\<rparr> = p" by (cases p) simp
  ultimately show ?thesis
    using parse_chunk_texts [OF cs, of ps "\<lparr>p_src = p_src p, p_dst = p_dst p, p_chunks = []\<rparr>" cc]
    by (simp only: patch_text_def map_append run_steps_append) (simp add: eta)
qed

lemma parse_patch_texts:
  assumes "list_all wf_patch ps"
  shows "\<exists>cc'. run_steps parse_patch_line \<lparr>patchset = qs, current_chunk = cc\<rparr> (with_breaks (concat (map patch_text ps))) =
    Inr \<lparr>patchset = qs @ ps, current_chunk = cc'\<rparr>"
  using assms
proof (induction ps arbitrary: qs cc)
  case Nil
  then show ?case by simp
next
  case (Cons p ps)
  then obtain cc1 where "run_steps parse_patch_line \<lparr>patchset = qs, current_chunk = cc\<rparr> (with_breaks (patch_text p)) =
      Inr \<lparr>patchset = qs @ [p], current_chunk = cc1\<rparr>" using parse_patch_text by fastforce
  with Cons.IH [of "qs @ [p]" cc1] Cons.prems show ?case by (simp add: run_steps_append)
qed

section \<open>Properties\<close>

text \<open>
  C12: a patch set survives writing and reading. For a well-formed patch set every patch can
  be written, and reading the lines of the text gives back the same patches, with their
  names, positions and lines in order. Well-formed excludes a removed line that starts
  with two dashes and a blank (and an added one with two plus signs and a blank), which
  the reader takes for the name of a file.
\<close>

theorem patch_roundtrip:
  assumes "list_all wf_patch ps"
  shows "\<exists>texts. py_map write_patch ps = Inr texts \<and> parse_patchset (readlines (concat texts)) = Inr ps"
proof -
  let ?ls = "concat (map patch_text ps)"
  have "py_map write_patch ps = Inr (map (\<lambda>p. concat (with_breaks (patch_text p))) ps)"
    using assms by (intro py_map_Inr) (simp add: list_all_iff write_patch_text)
  moreover have "concat (map (\<lambda>p. concat (with_breaks (patch_text p))) ps) = concat (with_breaks ?ls)"
    by (induction ps) simp_all
  moreover have "list_all (\<lambda>l. CHR 0x0A \<notin> set l) ?ls"
    using assms patch_text_no_break by (fastforce simp: list_all_iff)
  ultimately show ?thesis
    using parse_patch_texts [OF assms, of "[]" None] by (auto simp: readlines_concat parse_patchset_def)
qed

theorem patch_roundtrip_witness:
  "\<exists>texts. py_map write_patch [\<lparr>p_src = ''a'', p_dst = ''b'', p_chunks =
      [\<lparr>pc_lines = [\<lparr>pl_type = SRC, pl_line = ''x ''\<rparr>, \<lparr>pl_type = BOTH, pl_line = []\<rparr>], src_pos = 12, dst_pos = 3\<rparr>]\<rparr>] = Inr texts \<and>
    parse_patchset (readlines (concat texts)) = Inr [\<lparr>p_src = ''a'', p_dst = ''b'', p_chunks =
      [\<lparr>pc_lines = [\<lparr>pl_type = SRC, pl_line = ''x ''\<rparr>, \<lparr>pl_type = BOTH, pl_line = []\<rparr>], src_pos = 12, dst_pos = 3\<rparr>]\<rparr>]"
  by (rule patch_roundtrip) (simp add: wf_patch_def wf_chunk_def wf_line_def startswith_def)

section \<open>Restoring white space\<close>

text \<open>The line objects that \<open>src()\<close> and \<open>dst()\<close> share stand at the same index in both.\<close>

definition aligned :: "patch_chunk \<Rightarrow> bool" where
  "aligned c \<longleftrightarrow>
     (\<forall>k < src_len c. \<forall>l < dst_len c. src_lines (pc_lines c) ! k = dst_lines (pc_lines c) ! l \<longrightarrow> k = l)"

definition one_blank_more :: "string \<Rightarrow> string \<Rightarrow> bool" where
  "one_blank_more s d \<longleftrightarrow> s = d @ '' '' \<or> s = d @ [CHR 0x09]"

text \<open>
  The intended result: an added line that lacks exactly the last blank of its counterpart
  becomes its counterpart, and every other line stays as it is.
\<close>

definition restored_line :: "patch_chunk_line list \<Rightarrow> (nat \<times> nat) list \<Rightarrow> nat \<Rightarrow> patch_chunk_line" where
  "restored_line ls pairs i =
     (case map_of pairs i of
        Some s \<Rightarrow> if one_blank_more (pl_line (ls ! s)) (pl_line (ls ! i)) then (ls ! i)\<lparr>pl_line := pl_line (ls ! s)\<rparr> else ls ! i
      | None \<Rightarrow> ls ! i)"

definition restored_chunk :: "patch_chunk \<Rightarrow> patch_chunk" where
  "restored_chunk c = c\<lparr>pc_lines :=
     map (restored_line (pc_lines c) (zip (dst_lines (pc_lines c)) (src_lines (pc_lines c)))) [0..<length (pc_lines c)]\<rparr>"

lemma trailing_whitespace_iff:
  assumes "CHR 0x0A \<notin> set s"
  shows "trailing_whitespace s = Some (g1, g2) \<longleftrightarrow> s = g1 @ g2 \<and> g2 \<in> {'' '', [CHR 0x09]}"
proof -
  have "dot_star_end s = Some s" using assms by (simp add: dot_star_end_def takeWhile_eq_all_conv dropWhile_eq_Nil_conv) auto
  then show ?thesis by (cases s rule: rev_cases) (auto simp: trailing_whitespace_def)
qed

lemma restore_line_eq:
  assumes "d < length ls" "CHR 0x0A \<notin> set (pl_line (ls ! s))"
  shows "restore_line s d ls =
    (if one_blank_more (pl_line (ls ! s)) (pl_line (ls ! d)) then ls[d := (ls ! d)\<lparr>pl_line := pl_line (ls ! s)\<rparr>] else ls)"
proof (cases "trailing_whitespace (pl_line (ls ! s))")
  case None
  then have "\<not> one_blank_more (pl_line (ls ! s)) (pl_line (ls ! d))"
    using trailing_whitespace_iff [OF assms(2)] by (auto simp: one_blank_more_def)
  with None show ?thesis by (simp add: restore_line_def)
next
  case (Some g)
  then obtain g1 g2 where g: "trailing_whitespace (pl_line (ls ! s)) = Some (g1, g2)"
    "pl_line (ls ! s) = g1 @ g2" "g2 \<in> {'' '', [CHR 0x09]}"
    using trailing_whitespace_iff [OF assms(2)] by (cases g) blast
  then show ?thesis by (auto simp: restore_line_def one_blank_more_def update_nth_def append_to_line_def)
qed

text \<open>The loop, for sides whose shared lines stand at the same index.\<close>

lemma restore_lines_eq:
  assumes "length ss \<le> length ds" "distinct ss" "distinct ds" "set ds \<subseteq> {..<length ls}" "set ss \<subseteq> {..<length ls}"
    "\<And>k l. k < length ss \<Longrightarrow> l < length ds \<Longrightarrow> ss ! k = ds ! l \<Longrightarrow> k = l"
    "\<forall>i < length ls. CHR 0x0A \<notin> set (pl_line (ls ! i))"
  shows "restore_lines ls ss ds = (True, map (restored_line ls (zip ds ss)) [0..<length ls])"
  using assms
proof (induction ls ss ds rule: restore_lines.induct)
  case (1 ls ds)
  then show ?case by (simp add: restored_line_def map_nth)
next
  case (2 ls s ss)
  then show ?case by simp
next
  case (3 ls s ss d ds)
  let ?ls = "restore_line s d ls"
  have d: "d < length ls" "s < length ls" using "3.prems"(4,5) by auto
  have nb: "CHR 0x0A \<notin> set (pl_line (ls ! s))" using "3.prems"(7) d by simp
  note eq = restore_line_eq [OF d(1) nb]
  have len: "length ?ls = length ls" by (simp add: eq)
  have sd: "d \<notin> set ss"
  proof
    assume "d \<in> set ss"
    then obtain k where "k < length ss" "ss ! k = d" by (auto simp: in_set_conv_nth)
    then show False using "3.prems"(6) [of "Suc k" 0] by simp
  qed
  have dd: "d \<notin> set ds" using "3.prems"(3) by simp
  have same: "?ls ! i = ls ! i" if "i \<noteq> d" for i using that by (simp add: eq)
  have "restore_lines ?ls ss ds = (True, map (restored_line ?ls (zip ds ss)) [0..<length ?ls])"
  proof (rule "3.IH")
    show "k = l" if "k < length ss" "l < length ds" "ss ! k = ds ! l" for k l
      using "3.prems"(6) [of "Suc k" "Suc l"] that by simp
    show "\<forall>i < length ?ls. CHR 0x0A \<notin> set (pl_line (?ls ! i))"
    proof (intro allI impI)
      fix i
      assume "i < length ?ls"
      then have "i < length ls" by (simp only: len)
      then show "CHR 0x0A \<notin> set (pl_line (?ls ! i))"
        using "3.prems"(7) nb d same [of i] by (cases "i = d") (simp_all add: eq)
    qed
  qed (use "3.prems"(1-5) in \<open>auto simp: len\<close>)
  moreover have "restored_line ?ls (zip ds ss) i = restored_line ls (zip (d # ds) (s # ss)) i" if "i < length ls" for i
  proof (cases "i = d")
    case True
    have "map_of (zip ds ss) d = None" using dd by (auto simp: map_of_eq_None_iff dest: set_zip_leftD)
    then show ?thesis using True d by (simp add: restored_line_def eq)
  next
    case False
    have "?ls ! t = ls ! t" if "map_of (zip ds ss) i = Some t" for t
      using that sd by (intro same) (auto dest: map_of_SomeD set_zip_rightD)
    then show ?thesis using False same [OF False] by (auto simp: restored_line_def split: option.splits)
  qed
  ultimately show ?case by (simp add: len)
qed

lemma restore_chunk:
  assumes "aligned c" "src_len c \<le> dst_len c" "\<forall>l \<in> set (pc_lines c). CHR 0x0A \<notin> set (pl_line l)"
  shows "restore_lines (pc_lines c) (src_lines (pc_lines c)) (dst_lines (pc_lines c)) = (True, pc_lines (restored_chunk c))"
proof -
  let ?ls = "pc_lines c"
  have "restore_lines ?ls (src_lines ?ls) (dst_lines ?ls) =
      (True, map (restored_line ?ls (zip (dst_lines ?ls) (src_lines ?ls))) [0..<length ?ls])"
  proof (rule restore_lines_eq)
    show "k = l" if "k < length (src_lines ?ls)" "l < length (dst_lines ?ls)" "src_lines ?ls ! k = dst_lines ?ls ! l" for k l
      using assms(1) that by (auto simp: aligned_def src_len_def dst_len_def)
    show "\<forall>i < length ?ls. CHR 0x0A \<notin> set (pl_line (?ls ! i))" using assms(3) by simp
    show "length (src_lines ?ls) \<le> length (dst_lines ?ls)" using assms(2) by (simp add: src_len_def dst_len_def)
  qed (auto simp: src_lines_def dst_lines_def)
  then show ?thesis by (simp add: restored_chunk_def)
qed

lemma restore_chunks_eq:
  assumes "\<forall>c \<in> set cs. aligned c \<and> src_len c \<le> dst_len c \<and> (\<forall>l \<in> set (pc_lines c). CHR 0x0A \<notin> set (pl_line l))"
  shows "restore_chunks cs = (True, map restored_chunk cs)"
  using assms
proof (induction cs)
  case Nil
  then show ?case by simp
next
  case (Cons c cs)
  then have "restore_lines (pc_lines c) (src_lines (pc_lines c)) (dst_lines (pc_lines c)) = (True, pc_lines (restored_chunk c))"
    by (intro restore_chunk) auto
  with Cons show ?case by (simp add: restored_chunk_def)
qed

text \<open>
  The reader keeps every line typed and free of line breaks, and it raises only when a line
  comes before the patch or chunk it belongs to, or is none of the six kinds.
\<close>

definition read_ok :: "patch_chunk_line \<Rightarrow> bool" where
  "read_ok l \<longleftrightarrow> pl_type l \<noteq> Unset \<and> CHR 0x0A \<notin> set (pl_line l)"

definition parser_state_ok :: "patch_parser \<Rightarrow> bool" where
  "parser_state_ok st \<longleftrightarrow> (\<forall>p \<in> set (patchset st). \<forall>c \<in> set (p_chunks p). \<forall>l \<in> set (pc_lines c). read_ok l)"

definition parse_error :: "py_exn \<Rightarrow> bool" where
  "parse_error e \<longleftrightarrow> e \<in> {AttributeError, UnboundLocalError, PlainException}"

lemma update_nth_all:
  assumes "\<forall>x \<in> set xs. P x" "\<And>x. P x \<Longrightarrow> P (f x)"
  shows "\<forall>x \<in> set (update_nth i f xs). P x"
proof (cases "i < length xs")
  case True
  then have "P (f (xs ! i))" using assms by simp
  then show ?thesis
    using assms(1) set_update_subset_insert [of xs i "f (xs ! i)"] unfolding update_nth_def by blast
next
  case False
  then show ?thesis using assms(1) by (simp add: update_nth_def list_update_beyond)
qed

lemma match_prefix_no_break: "match_prefix p line = Some g \<Longrightarrow> CHR 0x0A \<notin> set g"
  by (auto simp: match_prefix_def dot_star_end_def Option.bind_eq_Some_conv dest: set_takeWhileD split: if_splits)

abbreviation patch_ok :: "patch \<Rightarrow> bool" where
  "patch_ok p \<equiv> \<forall>c \<in> set (p_chunks p). \<forall>l \<in> set (pc_lines c). read_ok l"

lemma to_patch_ok:
  assumes "parser_state_ok st" "to_patch f st = Inr st'" "\<And>p. patch_ok p \<Longrightarrow> patch_ok (f p)"
  shows "parser_state_ok st'"
proof -
  have "st' = st\<lparr>patchset := update_nth (length (patchset st) - 1) f (patchset st)\<rparr>"
    using assms(2) by (simp add: to_patch_def split: if_splits)
  moreover have "\<forall>p \<in> set (update_nth (length (patchset st) - 1) f (patchset st)). patch_ok p"
    by (rule update_nth_all [where P = patch_ok, OF _ assms(3)]) (use assms(1) in \<open>simp_all add: parser_state_ok_def\<close>)
  ultimately show ?thesis by (simp add: parser_state_ok_def)
qed

lemma to_chunk_ok:
  assumes "parser_state_ok st" "to_chunk (add_line l) st = Inr st'" "read_ok l"
  shows "parser_state_ok st'"
proof -
  let ?C = "\<lambda>c. \<forall>l \<in> set (pc_lines c). read_ok l"
  let ?P = "\<lambda>p. \<forall>c \<in> set (p_chunks p). ?C c"
  obtain i j where st': "st' = st\<lparr>patchset :=
      update_nth i (\<lambda>p. p\<lparr>p_chunks := update_nth j (add_line l) (p_chunks p)\<rparr>) (patchset st)\<rparr>"
    using assms(2) by (auto simp: to_chunk_def split: option.splits)
  have "?C (add_line l c)" if "?C c" for c using that assms(3) by (simp add: add_line_def)
  then have "?P (p\<lparr>p_chunks := update_nth j (add_line l) (p_chunks p)\<rparr>)" if "?P p" for p
    using update_nth_all [of "p_chunks p" ?C "add_line l" j] that by simp
  then have "\<forall>p \<in> set (update_nth i (\<lambda>p. p\<lparr>p_chunks := update_nth j (add_line l) (p_chunks p)\<rparr>) (patchset st)). ?P p"
    using assms(1) by (intro update_nth_all [where P = ?P]) (simp_all add: parser_state_ok_def)
  then show ?thesis by (simp add: st' parser_state_ok_def)
qed

lemma parse_patch_line_ok:
  assumes "parser_state_ok st" "parse_patch_line st line = Inr st'"
  shows "parser_state_ok st'"
proof -
  have add: "parser_state_ok st''" if "to_chunk (add_line \<lparr>pl_type = t, pl_line = g\<rparr>) st = Inr st''" "t \<noteq> Unset"
    "match_prefix p line = Some g" for t g p st''
    using to_chunk_ok [OF assms(1) that(1)] that(2) match_prefix_no_break [OF that(3)] by (simp add: read_ok_def)
  have dst: "parser_state_ok st''" if "to_patch (\<lambda>p. p\<lparr>p_dst := g\<rparr>) st = Inr st''" for g st''
    by (rule to_patch_ok [OF assms(1) that]) simp
  have chunk: "parser_state_ok (st''\<lparr>current_chunk := x\<rparr>)" if "to_patch (add_chunk (new_chunk g1 g3)) st = Inr st''" for g1 g3 st'' x
  proof -
    have "parser_state_ok st''"
      by (rule to_patch_ok [OF assms(1) that]) (auto simp: add_chunk_def new_chunk_def)
    then show ?thesis by (simp add: parser_state_ok_def)
  qed
  have new: "parser_state_ok (st\<lparr>patchset := patchset st @ [new_patch\<lparr>p_src := g\<rparr>]\<rparr>)" for g
    using assms(1) by (auto simp: parser_state_ok_def new_patch_def)
  show ?thesis using assms(2) unfolding parse_patch_line_def set_src_def set_dst_def set_both_def new_chunk_line_def
    by (auto split: option.splits intro: add dst chunk new)
qed

interpretation patch_reader: guarded_run parse_patch_line parser_state_ok parse_error
proof
  show "parser_state_ok st'" if "parser_state_ok st" "parse_patch_line st line = Inr st'" for st line st'
    using that by (rule parse_patch_line_ok)
  show "parse_error e" if "parser_state_ok st" "parse_patch_line st line = Inl e" for st line e
    using that by (auto simp: parse_patch_line_def to_patch_def to_chunk_def parse_error_def py_bind_eq_Inl
        split: option.splits if_splits)
qed

lemma parse_patchset_lines:
  "parse_patchset lines = Inr ps \<Longrightarrow> p \<in> set ps \<Longrightarrow> c \<in> set (p_chunks p) \<Longrightarrow> l \<in> set (pc_lines c) \<Longrightarrow> read_ok l"
proof -
  assume ps: "parse_patchset lines = Inr ps" and mem: "p \<in> set ps" "c \<in> set (p_chunks p)" "l \<in> set (pc_lines c)"
  from ps obtain st where st: "run_steps parse_patch_line \<lparr>patchset = [], current_chunk = None\<rparr> lines = Inr st" "ps = patchset st"
    by (auto simp: parse_patchset_def)
  have "parser_state_ok st" by (rule patch_reader.run_inv [OF _ st(1)]) (simp add: parser_state_ok_def)
  with mem st(2) show ?thesis by (auto simp: parser_state_ok_def)
qed

text \<open>
  C15: the removal of changes of trailing white space. When in every chunk the two sides have
  their common lines at the same index and there are at least as many new lines as old
  ones, it rewrites exactly the new lines that equal their old counterpart up to one
  missing blank or tab at the end, and leaves names, positions and all other lines alone.
  A difference of two or more blanks is kept.
\<close>

theorem trailing_whitespace_restored:
  assumes "parse_patchset lines = Inr ps"
    "\<forall>p \<in> set ps. \<forall>c \<in> set (p_chunks p). aligned c \<and> src_len c \<le> dst_len c"
  shows "remove_trailing_whitespace_changes lines =
    Inr (map (\<lambda>p. p\<lparr>p_chunks := map restored_chunk (p_chunks p)\<rparr>) ps)"
proof -
  have "restore_patches qs = map (\<lambda>p. p\<lparr>p_chunks := map restored_chunk (p_chunks p)\<rparr>) qs" if "set qs \<subseteq> set ps" for qs
    using that
  proof (induction qs)
    case Nil
    then show ?case by simp
  next
    case (Cons p qs)
    then have "restore_chunks (p_chunks p) = (True, map restored_chunk (p_chunks p))"
      using assms(2) parse_patchset_lines [OF assms(1)] by (intro restore_chunks_eq) (auto simp: read_ok_def)
    with Cons show ?case by simp
  qed
  then show ?thesis by (simp add: remove_trailing_whitespace_changes_def assms(1))
qed

theorem trailing_whitespace_restored_witness:
  "remove_trailing_whitespace_changes (with_breaks [''--- a'', ''+++ b'', ''@@ -1,2 +1,2 @@'', ''-x '', ''+x'', '' y'']) =
     Inr [\<lparr>p_src = ''a'', p_dst = ''b'', p_chunks = [\<lparr>pc_lines =
       [\<lparr>pl_type = SRC, pl_line = ''x ''\<rparr>, \<lparr>pl_type = DST, pl_line = ''x ''\<rparr>, \<lparr>pl_type = BOTH, pl_line = ''y''\<rparr>],
       src_pos = 1, dst_pos = 1\<rparr>]\<rparr>]"
proof -
  let ?c = "\<lparr>pc_lines =
       [\<lparr>pl_type = SRC, pl_line = ''x ''\<rparr>, \<lparr>pl_type = DST, pl_line = ''x''\<rparr>, \<lparr>pl_type = BOTH, pl_line = ''y''\<rparr>],
       src_pos = 1, dst_pos = 1\<rparr>"
  have p: "parse_patchset (with_breaks [''--- a'', ''+++ b'', ''@@ -1,2 +1,2 @@'', ''-x '', ''+x'', '' y'']) =
      Inr [\<lparr>p_src = ''a'', p_dst = ''b'', p_chunks = [?c]\<rparr>]" by code_simp
  have "aligned ?c \<and> src_len ?c \<le> dst_len ?c" by code_simp
  with trailing_whitespace_restored [OF p]
  have "remove_trailing_whitespace_changes (with_breaks [''--- a'', ''+++ b'', ''@@ -1,2 +1,2 @@'', ''-x '', ''+x'', '' y'']) =
      Inr [\<lparr>p_src = ''a'', p_dst = ''b'', p_chunks = [restored_chunk ?c]\<rparr>]" by simp
  moreover have "restored_chunk ?c = ?c\<lparr>pc_lines :=
       [\<lparr>pl_type = SRC, pl_line = ''x ''\<rparr>, \<lparr>pl_type = DST, pl_line = ''x ''\<rparr>, \<lparr>pl_type = BOTH, pl_line = ''y''\<rparr>]\<rparr>"
    by code_simp
  ultimately show ?thesis by simp
qed

lemma all_unchanged:
  "py_map (\<lambda>f. py_bind (ind f) (\<lambda>d. Inr (f, d))) names = Inr outs \<Longrightarrow>
   filter (\<lambda>(f, d). fs f \<noteq> Some d) outs = [] \<longleftrightarrow> (\<forall>f \<in> set names. \<exists>d. ind f = Inr d \<and> fs f = Some d)"
  by (induction names arbitrary: outs) (auto split: if_splits)

text \<open>
  Checking files. Without \<open>--in-place\<close> the files stay as they are, and the result is true
  exactly when the indented text of every file is the file itself. With \<open>--debug\<close> it is
  true for every file that exists, provided that \<open>uncrustify\<close> runs and an empty patch
  changes nothing: the differences are spent on the debugging file.
\<close>

lemma style_check_outcome:
  assumes "\<And>s. patch_tool tools [] s = s" "\<And>cfg contents. uncrustify tools cfg contents \<noteq> None"
    "\<forall>f \<in> set names. fs f \<noteq> None"
  shows "(\<forall>ok printed fs'. indent_files tools fs names diff debug level False = Inr (ok, printed, fs') \<longrightarrow>
      fs' = fs \<and> (ok \<longleftrightarrow> (\<forall>f \<in> set names. \<exists>d. indent tools fs f debug level = Inr d \<and> fs f = Some d))) \<and>
    indent_files tools fs names diff True level False = Inr (True, [], fs)"
proof (intro conjI allI impI)
  fix ok printed fs'
  assume r: "indent_files tools fs names diff debug level False = Inr (ok, printed, fs')"
  then obtain outs where outs: "py_map (\<lambda>f. py_bind (indent tools fs f debug level) (\<lambda>d. Inr (f, d))) names = Inr outs"
    by (auto simp: indent_files_def)
  then have r': "fs' = fs \<and> (ok \<longleftrightarrow> filter (\<lambda>(f, d). fs f \<noteq> Some d) outs = [])"
    using r by (auto simp: indent_files_def Let_def split: if_splits)
  then show "fs' = fs" by blast
  have "filter (\<lambda>(f, d). fs f \<noteq> Some d) outs = [] \<longleftrightarrow>
      (\<forall>f \<in> set names. \<exists>d. indent tools fs f debug level = Inr d \<and> fs f = Some d)"
    using outs by (rule all_unchanged)
  with r' show "ok \<longleftrightarrow> (\<forall>f \<in> set names. \<exists>d. indent tools fs f debug level = Inr d \<and> fs f = Some d)" by blast
next
  have "indent tools fs f True level = Inr (the (fs f))" if "f \<in> set names" for f
    using assms(1,3) assms(2) [of "uncrustify_config_file level" "fs f"] that
    by (auto simp: indent_def remove_trailing_whitespace_changes_def parse_patchset_def)
  then have "py_map (\<lambda>f. py_bind (indent tools fs f True level) (\<lambda>d. Inr (f, d))) names = Inr (map (\<lambda>f. (f, the (fs f))) names)"
    by (intro py_map_Inr) simp
  moreover have "filter (\<lambda>(f, d). fs f \<noteq> Some d) (map (\<lambda>f. (f, the (fs f))) names) = []"
    using assms(3) by (auto simp: filter_empty_conv)
  ultimately show "indent_files tools fs names diff True level False = Inr (True, [], fs)"
    by (simp add: indent_files_def Let_def)
qed

end
