(* ===== verification/Ns3_Config.thy ===== *)
theory Ns3_Config
  imports Py_Prelude
begin

text \<open>
  \<open>utils.py\<close>: the reader of the \<open>.ns3rc\<close> configuration file. A file is the list of its
  lines, or \<open>None\<close> when it does not exist; the evaluation of Python expressions is a
  parameter.
\<close>

section \<open>The scanners\<close>

definition uncomment :: "string \<Rightarrow> string" where
  "uncomment line = (if CHR ''#'' \<in> set line then hd (split_once CHR ''#'' line) else line)"

text \<open>\<open>s.split('=', 1)[1].strip()\<close>.\<close>

definition assigned_text :: "string \<Rightarrow> string py" where
  "assigned_text s = py_bind (py_nth (split_once CHR ''='' s) 1) (\<lambda>t. Inr (strip t))"

fun scan_list :: "(string \<Rightarrow> string list py) \<Rightarrow> string \<Rightarrow> string \<Rightarrow> bool \<Rightarrow> string list \<Rightarrow> string list py" where
  "scan_list eval_text list_name list_string parsing_multiline_list [] = Inr []"
| "scan_list eval_text list_name list_string parsing_multiline_list (line # lines) =
     (if contains (uncomment line) list_name \<or> parsing_multiline_list
      then (let list_string = list_string @ uncomment line
            in if CHR '']'' \<notin> set list_string then scan_list eval_text list_name list_string True lines
               else py_bind (assigned_text list_string) eval_text)
      else scan_list eval_text list_name list_string parsing_multiline_list lines)"

definition get_list_from_file ::
  "(string \<Rightarrow> string list py) \<Rightarrow> (string \<Rightarrow> string list option) \<Rightarrow> string \<Rightarrow> string \<Rightarrow> string list py" where
  "get_list_from_file eval_text files file_path list_name =
     (case files file_path of
        None \<Rightarrow> Inr []
      | Some lines \<Rightarrow> scan_list eval_text list_name [] False lines)"

text \<open>\<open>None\<close> stands for \<open>bool_found\<close> being false at the end.\<close>

fun scan_bool :: "(string \<Rightarrow> bool py) \<Rightarrow> string \<Rightarrow> string list \<Rightarrow> bool option py" where
  "scan_bool eval_text bool_name [] = Inr None"
| "scan_bool eval_text bool_name (line # lines) =
     (if contains (uncomment line) bool_name
      then py_bind (assigned_text (uncomment line)) (\<lambda>t. py_bind (eval_text t) (\<lambda>b. Inr (Some b)))
      else scan_bool eval_text bool_name lines)"

text \<open>\<open>bool_found\<close> is assigned only when the file exists.\<close>

definition get_bool_from_file ::
  "(string \<Rightarrow> bool py) \<Rightarrow> (string \<Rightarrow> string list option) \<Rightarrow> string \<Rightarrow> string \<Rightarrow> bool \<Rightarrow> bool py" where
  "get_bool_from_file eval_text files file_path bool_name value_if_missing =
     (case files file_path of
        None \<Rightarrow> Inl UnboundLocalError
      | Some lines \<Rightarrow>
          py_bind (scan_bool eval_text bool_name lines) (\<lambda>v.
            Inr (case v of None \<Rightarrow> value_if_missing | Some b \<Rightarrow> b)))"

text \<open>\<open>home\<close> is \<open>os.path.expanduser('~/')\<close>.\<close>

definition read_config_file ::
  "(string \<Rightarrow> string list py) \<Rightarrow> (string \<Rightarrow> bool py) \<Rightarrow> (string \<Rightarrow> string list option) \<Rightarrow> string \<Rightarrow>
     (bool \<times> string list \<times> bool \<times> bool) py" where
  "read_config_file eval_list eval_bool files home =
     (if files ''.ns3rc'' = None \<and> files (home @ ''.ns3rc'') = None
      then Inr (False, [''all_modules''], False, False)
      else
        let dot_ns3rc_path = (if files ''.ns3rc'' = None then home @ ''.ns3rc'' else ''.ns3rc'')
        in py_bind (get_list_from_file eval_list files dot_ns3rc_path ''modules_enabled'') (\<lambda>modules.
           py_bind (get_bool_from_file eval_bool files dot_ns3rc_path ''examples_enabled'' False) (\<lambda>examples.
           py_bind (get_bool_from_file eval_bool files dot_ns3rc_path ''tests_enabled'' False) (\<lambda>tests.
             Inr (True, if modules = [] then [''all_modules''] else modules, examples, tests)))))"

section \<open>What a file says\<close>

text \<open>
  The lines of a list: from the first line that names it to the first one after which a
  closing bracket has been read.
\<close>

definition list_block :: "string list \<Rightarrow> string \<Rightarrow> string list \<Rightarrow> bool" where
  "list_block lines name block \<longleftrightarrow>
     (\<exists>pre post. map uncomment lines = pre @ block @ post \<and> (\<forall>l \<in> set pre. \<not> contains l name) \<and>
        block \<noteq> [] \<and> contains (hd block) name \<and> CHR '']'' \<notin> set (concat (butlast block)) \<and> CHR '']'' \<in> set (last block))"

text \<open>The lines of the file that is used.\<close>

definition config_lines :: "(string \<Rightarrow> string list option) \<Rightarrow> string \<Rightarrow> string list option" where
  "config_lines files home = (if files ''.ns3rc'' = None then files (home @ ''.ns3rc'') else files ''.ns3rc'')"

definition value_text :: "string \<Rightarrow> string" where
  "value_text s = strip (tl (dropWhile (\<lambda>c. c \<noteq> CHR ''='') s))"

lemma assigned_text_value: "CHR ''='' \<in> set s \<Longrightarrow> assigned_text s = Inr (value_text s)"
  by (simp add: assigned_text_def split_once_def py_nth_def value_text_def)

lemma scan_list_skip:
  "\<forall>l \<in> set pre. \<not> contains l name \<Longrightarrow> map uncomment lines = pre @ rest \<Longrightarrow>
   \<exists>lines'. map uncomment lines' = rest \<and> scan_list ev name acc False lines = scan_list ev name acc False lines'"
proof (induction pre arbitrary: lines)
  case Nil
  then show ?case by auto
next
  case (Cons l pre)
  then obtain line ls where "lines = line # ls" "uncomment line = l" "map uncomment ls = pre @ rest"
    by (cases lines) auto
  with Cons show ?case by simp
qed

text \<open>Once the list has started its lines are collected up to the closing bracket.\<close>

lemma scan_list_collect:
  assumes "map uncomment lines = block @ post" "block \<noteq> []" "multi \<or> contains (hd block) name"
    "CHR '']'' \<notin> set (acc @ concat (butlast block))" "CHR '']'' \<in> set (last block)"
  shows "scan_list ev name acc multi lines = py_bind (assigned_text (acc @ concat block)) ev"
  using assms
proof (induction block arbitrary: lines acc multi)
  case Nil
  then show ?case by simp
next
  case (Cons l block)
  then obtain line ls where ls: "lines = line # ls" "uncomment line = l" "map uncomment ls = block @ post"
    by (cases lines) auto
  show ?case
  proof (cases "block = []")
    case True
    then show ?thesis using Cons.prems ls by (auto simp: Let_def)
  next
    case False
    then have "CHR '']'' \<notin> set (acc @ l)" using Cons.prems(4) by simp
    then have "scan_list ev name acc multi lines = scan_list ev name (acc @ l) True ls"
      using Cons.prems(3) ls by (auto simp: Let_def)
    also have "\<dots> = py_bind (assigned_text ((acc @ l) @ concat block)) ev"
      using False Cons.prems ls(3) by (intro Cons.IH) auto
    finally show ?thesis by simp
  qed
qed

lemma scan_list_block:
  assumes "list_block lines name block" "CHR ''='' \<in> set (concat block)"
  shows "scan_list ev name [] False lines = ev (value_text (concat block))"
proof -
  obtain pre post where b: "map uncomment lines = pre @ block @ post" "\<forall>l \<in> set pre. \<not> contains l name" "block \<noteq> []"
    "contains (hd block) name" "CHR '']'' \<notin> set (concat (butlast block))" "CHR '']'' \<in> set (last block)"
    using assms(1) by (auto simp: list_block_def)
  obtain lines' where "map uncomment lines' = block @ post"
    "scan_list ev name [] False lines = scan_list ev name [] False lines'"
    using scan_list_skip [OF b(2,1)] by blast
  with b(3-6) scan_list_collect [of lines' block post False name "[]" ev] show ?thesis
    by (simp add: assigned_text_value [OF assms(2)])
qed

lemma scan_list_absent: "\<forall>l \<in> set lines. \<not> contains (uncomment l) name \<Longrightarrow> scan_list ev name acc False lines = Inr []"
  by (induction lines) simp_all

lemma scan_list_open:
  "CHR '']'' \<notin> set (acc @ concat (map uncomment lines)) \<Longrightarrow> scan_list ev name acc multi lines = Inr []"
  by (induction lines arbitrary: acc multi) (auto simp: Let_def)

definition setting :: "string list \<Rightarrow> string \<Rightarrow> string option" where
  "setting lines name = find (\<lambda>l. contains l name) (map uncomment lines)"

lemma scan_bool_setting:
  "setting lines name = None \<Longrightarrow> scan_bool ev name lines = Inr None"
  "setting lines name = Some l \<Longrightarrow> CHR ''='' \<in> set l \<Longrightarrow>
     scan_bool ev name lines = py_bind (ev (value_text l)) (\<lambda>b. Inr (Some b))"
  by (induction lines) (auto simp: setting_def assigned_text_value split: if_splits)

section \<open>Properties\<close>

text \<open>
  The configuration file. Without a file the defaults are returned. With one, in the
  working directory or else in the home directory, the list of modules is the value of the
  text assigned in the lines from its name to the closing bracket, comments removed, and
  the two switches are the values assigned in the first line that names them, or false; an
  absent or never closed list, like an empty one, enables all modules.
\<close>

lemma read_config_file_values:
  assumes switches: "\<And>lines name l. config_lines files home = Some lines \<Longrightarrow> name \<in> {''examples_enabled'', ''tests_enabled''} \<Longrightarrow>
      setting lines name = Some l \<Longrightarrow> CHR ''='' \<in> set l \<and> eval_bool (value_text l) = Inr (truth (value_text l))"
    and modules: "\<And>lines. config_lines files home = Some lines \<Longrightarrow>
      list_block lines ''modules_enabled'' block \<and> CHR ''='' \<in> set (concat block) \<and>
        eval_list (value_text (concat block)) = Inr ms \<or>
      (setting lines ''modules_enabled'' = None \<or> CHR '']'' \<notin> set (concat (map uncomment lines))) \<and> ms = []"
  shows "read_config_file eval_list eval_bool files home =
    (case config_lines files home of
       None \<Rightarrow> Inr (False, [''all_modules''], False, False)
     | Some lines \<Rightarrow>
         Inr (True, if ms = [] then [''all_modules''] else ms,
              case setting lines ''examples_enabled'' of None \<Rightarrow> False | Some l \<Rightarrow> truth (value_text l),
              case setting lines ''tests_enabled'' of None \<Rightarrow> False | Some l \<Rightarrow> truth (value_text l)))"
proof (cases "config_lines files home")
  case None
  then show ?thesis by (auto simp: read_config_file_def config_lines_def split: if_splits)
next
  case (Some lines)
  define path where "path = (if files ''.ns3rc'' = None then home @ ''.ns3rc'' else ''.ns3rc'')"
  have f: "files path = Some lines" using Some by (auto simp: path_def config_lines_def)
  have ex: "\<not> (files ''.ns3rc'' = None \<and> files (home @ ''.ns3rc'') = None)"
    using Some by (auto simp: config_lines_def)
  have l: "get_list_from_file eval_list files path ''modules_enabled'' = Inr ms"
  proof -
    consider "list_block lines ''modules_enabled'' block" "CHR ''='' \<in> set (concat block)"
        "eval_list (value_text (concat block)) = Inr ms"
      | "setting lines ''modules_enabled'' = None" "ms = []"
      | "CHR '']'' \<notin> set (concat (map uncomment lines))" "ms = []"
      using modules [OF Some] by (elim disjE conjE)
    then have "scan_list eval_list ''modules_enabled'' [] False lines = Inr ms"
    proof cases
      case 1
      then show ?thesis by (simp only: scan_list_block)
    next
      case 2
      then show ?thesis by (simp add: scan_list_absent setting_def find_None_iff)
    next
      case 3
      then show ?thesis by (simp add: scan_list_open)
    qed
    then show ?thesis by (simp add: get_list_from_file_def f)
  qed
  have b: "get_bool_from_file eval_bool files path name False =
      Inr (case setting lines name of None \<Rightarrow> False | Some l \<Rightarrow> truth (value_text l))"
    if "name \<in> {''examples_enabled'', ''tests_enabled''}" for name
    using switches [OF Some that]
    by (cases "setting lines name") (simp_all add: get_bool_from_file_def f scan_bool_setting)
  show ?thesis
    using Some ex by (simp add: read_config_file_def Let_def path_def [symmetric] l b)
qed

end
