(* ===== verification/Build_Flags.thy ===== *)
theory Build_Flags
  imports Py_Prelude
begin

text \<open>
  \<open>waf-tools/cflags.py\<close>: the compiler flags of the build profiles.
\<close>

section \<open>Compiler traits\<close>

datatype traits = GccTraits | IccTraits | MsvcTraits

definition warnings_flags :: "traits \<Rightarrow> string list list" where
  "warnings_flags t =
     (case t of
        GccTraits \<Rightarrow> [[''-Wall''], [''-Werror''], [''-Wextra'']]
      | IccTraits \<Rightarrow> [[], [], [''-Wall'']]
      | MsvcTraits \<Rightarrow> [[''/W2''], [''/WX''], [''/Wall'']])"

text \<open>The loop over \<open>range(level)\<close>, which stops at the end of the table.\<close>

fun extend_warnings :: "string list list \<Rightarrow> string list \<Rightarrow> nat list \<Rightarrow> string list" where
  "extend_warnings table warnings [] = warnings"
| "extend_warnings table warnings (l # ls) =
     (if l < length table then extend_warnings table (warnings @ table ! l) ls else warnings)"

definition get_warnings_flags :: "traits \<Rightarrow> int \<Rightarrow> string list" where
  "get_warnings_flags t level = extend_warnings (warnings_flags t) [] [0..<nat level]"

text \<open>\<open>None\<close> is the value of a function that ends without \<open>return\<close>.\<close>

definition get_optimization_flags :: "traits \<Rightarrow> int \<Rightarrow> string list option" where
  "get_optimization_flags t level =
     (case t of
        MsvcTraits \<Rightarrow>
          (if level = 0 then Some [''/Od''] else if level = 1 then Some []
           else if level = 2 then Some [''/O2''] else if level = 3 then Some [''/Ox''] else None)
      | _ \<Rightarrow>
          (if level = 0 then Some [''-O0''] else if level = 1 then Some [''-O'']
           else if level = 2 then Some [''-O2''] else if level = 3 then Some [''-O3''] else None))"

definition get_debug_flags :: "traits \<Rightarrow> int \<Rightarrow> (string list \<times> string list) option" where
  "get_debug_flags t level =
     (case t of
        MsvcTraits \<Rightarrow>
          (if level = 0 then Some ([], [''NDEBUG'']) else if level = 1 then Some ([''/ZI'', ''/RTC1''], [])
           else if 2 \<le> level then Some ([''/ZI'', ''/RTC1''], [''_DEBUG'']) else None)
      | _ \<Rightarrow>
          (if level = 0 then Some ([''-g0''], [''NDEBUG'']) else if level = 1 then Some ([''-g''], [])
           else if 2 \<le> level then Some ([''-ggdb'', ''-g3''], [''_DEBUG'']) else None))"

definition compiler_mapping :: "(string, traits) dict" where
  "compiler_mapping = [(''gcc'', GccTraits), (''g++'', GccTraits), (''msvc'', MsvcTraits),
     (''icc'', IccTraits), (''icpc'', IccTraits)]"

definition profiles :: "(string, int \<times> int \<times> int) dict" where
  "profiles = [(''default'', (2, 1, 1)), (''debug'', (0, 2, 3)), (''release'', (3, 1, 0))]"

definition default_profile :: string where
  "default_profile = ''default''"

section \<open>Configuration\<close>

text \<open>An unset item of the environment is empty.\<close>

record build_env =
  COMPILER_CC :: string
  COMPILER_CXX :: string
  CCFLAGS :: "string list"
  CCDEFINES :: "string list"
  CXXFLAGS :: "string list"
  CXXDEFINES :: "string list"

definition select_compiler :: "string \<Rightarrow> string \<Rightarrow> traits option" where
  "select_compiler cc cxx =
     (case map_of compiler_mapping cc of Some t \<Rightarrow> Some t | None \<Rightarrow> map_of compiler_mapping cxx)"

definition set_cc_flags :: "string list \<Rightarrow> string list \<Rightarrow> string list \<Rightarrow> string list \<Rightarrow> build_env \<Rightarrow> build_env" where
  "set_cc_flags optimizations debug warnings debug_defs env =
     (if COMPILER_CC env \<noteq> [] \<and> CCFLAGS env = []
      then env\<lparr>CCFLAGS := CCFLAGS env @ optimizations @ debug @ warnings, CCDEFINES := CCDEFINES env @ debug_defs\<rparr>
      else env)"

definition set_cxx_flags :: "string list \<Rightarrow> string list \<Rightarrow> string list \<Rightarrow> string list \<Rightarrow> build_env \<Rightarrow> build_env" where
  "set_cxx_flags optimizations debug warnings debug_defs env =
     (if COMPILER_CXX env \<noteq> [] \<and> CXXFLAGS env = []
      then env\<lparr>CXXFLAGS := CXXFLAGS env @ optimizations @ debug @ warnings, CXXDEFINES := CXXDEFINES env @ debug_defs\<rparr>
      else env)"

definition configure :: "string \<Rightarrow> build_env \<Rightarrow> build_env py" where
  "configure build_profile env =
     (if COMPILER_CC env = [] \<and> COMPILER_CXX env = [] then Inl WafError
      else case select_compiler (COMPILER_CC env) (COMPILER_CXX env) of
        None \<Rightarrow> Inr env
      | Some compiler \<Rightarrow>
          py_bind (dict_get profiles build_profile) (\<lambda>(opt_level, warn_level, dbg_level).
            case get_debug_flags compiler dbg_level of
              None \<Rightarrow> Inl TypeError
            | Some (debug, debug_defs) \<Rightarrow>
                (case get_optimization_flags compiler opt_level of
                   None \<Rightarrow> Inl TypeError
                 | Some optimizations \<Rightarrow>
                     let warnings = get_warnings_flags compiler warn_level
                     in Inr (set_cxx_flags optimizations debug warnings debug_defs
                              (set_cc_flags optimizations debug warnings debug_defs env)))))"

section \<open>Properties\<close>

text \<open>The loop collects the rows below the level.\<close>

lemma extend_warnings_take:
  "extend_warnings table acc [k..<n] = acc @ concat (drop k (take n table))"
proof (induction "n - k" arbitrary: k acc)
  case 0
  then show ?case by simp
next
  case (Suc d)
  then have k: "k < n" by simp
  then have upt: "[k..<n] = k # [Suc k..<n]" by (rule upt_conv_Cons)
  show ?case
  proof (cases "k < length table")
    case True
    then have "drop k (take n table) = table ! k # drop (Suc k) (take n table)"
      using k by (simp add: Cons_nth_drop_Suc [symmetric])
    then show ?thesis using True Suc.hyps(1) [of "Suc k"] Suc.hyps(2) upt by simp
  next
    case False
    then show ?thesis using upt by simp
  qed
qed

lemma warnings_cumulative: "get_warnings_flags t level = concat (take (nat level) (warnings_flags t))"
  by (simp add: get_warnings_flags_def extend_warnings_take)

lemma known_profile:
  "dict_get profiles p = Inr (ol, wl, dl) \<Longrightarrow> 0 \<le> ol \<and> ol \<le> 3 \<and> 0 \<le> dl \<and> 1 \<le> wl \<and> wl \<le> 2"
  by (auto simp: dict_get_def profiles_def split: if_splits option.splits)

lemma flags_defined:
  "0 \<le> level \<Longrightarrow> level \<le> 3 \<Longrightarrow> \<exists>fs. get_optimization_flags t level = Some fs"
  "0 \<le> level \<Longrightarrow> \<exists>fs. get_debug_flags t level = Some fs"
  by (cases t; auto simp: get_optimization_flags_def get_debug_flags_def)+

text \<open>The flags that a profile stands for.\<close>

definition profile_flags :: "traits \<Rightarrow> string \<Rightarrow> (string list \<times> string list) py" where
  "profile_flags t p =
     py_bind (dict_get profiles p) (\<lambda>(ol, wl, dl).
       Inr (the (get_optimization_flags t ol) @ fst (the (get_debug_flags t dl)) @
              concat (take (nat wl) (warnings_flags t)),
            snd (the (get_debug_flags t dl))))"


end
