(* ===== verification/Waf_Run.thy ===== *)
theory Waf_Run
  imports Shell_Cmd
begin

text \<open>
  \<open>wutils.py\<close>: how \<open>waf --run\<close> finds a program of the build, sets up its environment and
  runs it. The build and the operating system are parameters; the splitting of a command
  line is the one of the shell interpreter. The text of an error message is left out.
\<close>

section \<open>Finding a program\<close>

text \<open>\<open>command_template\<close> of the options is empty when it is not given.\<close>

record run_options =
  command_template :: string
  use_valgrind :: bool
  cwd_launch :: string

definition get_command_template :: "run_options \<Rightarrow> string list \<Rightarrow> string" where
  "get_command_template opts arguments =
     foldl (\<lambda>cmd arg. cmd @ '' '' @ arg) (if command_template opts = [] then ''%s'' else command_template opts) arguments"

text \<open>\<open>relpath\<close>, on the result of \<open>os.path.abspath\<close>.\<close>

definition relpath :: "(string \<Rightarrow> string) \<Rightarrow> string \<Rightarrow> string \<Rightarrow> string py" where
  "relpath abspath path start =
     (if path = [] then Inl ValueError
      else
        let start_list = split_char CHR ''/'' (abspath start);
            path_list = split_char CHR ''/'' (abspath path);
            i = length (longest_common_prefix start_list path_list);
            rel_list = replicate (length start_list - i) ''..'' @ drop i path_list
        in Inr (case rel_list of [] \<Rightarrow> ''.'' | r # rs \<Rightarrow> foldl path_join r rs))"

record task_gen =
  is_ns3_program :: bool
  tg_path :: string
  tg_bld_path :: string
  tg_name :: string
  tg_node :: string

text \<open>The name of a program and its name relative to the launch directory.\<close>

definition program_names :: "(string \<Rightarrow> string) \<Rightarrow> string \<Rightarrow> task_gen \<Rightarrow> string list py" where
  "program_names abspath launch_dir obj =
     py_bind (relpath abspath (tg_path obj) launch_dir) (\<lambda>r. Inr [tg_name obj, path_join r (tg_name obj)])"

definition in_launch_dir :: "string \<Rightarrow> task_gen \<Rightarrow> bool" where
  "in_launch_dir launch_dir obj \<longleftrightarrow>
     startswith (tg_path obj) launch_dir \<or> startswith (tg_bld_path obj) launch_dir"

fun find_program :: "(string \<Rightarrow> string) \<Rightarrow> string \<Rightarrow> task_gen list \<Rightarrow> string \<Rightarrow> task_gen py" where
  "find_program abspath launch_dir [] program_name = Inl ValueError"
| "find_program abspath launch_dir (obj # objs) program_name =
     (if \<not> is_ns3_program obj \<or> \<not> in_launch_dir launch_dir obj
      then find_program abspath launch_dir objs program_name
      else py_bind (program_names abspath launch_dir obj) (\<lambda>names.
             if program_name \<in> set names then Inr obj
             else find_program abspath launch_dir objs program_name))"

section \<open>The environment of a process\<close>

record waf_build =
  all_task_gen :: "task_gen list"
  launch_directory :: string
  module_path :: "string list"
  executable_path :: "string list"
  pymoddir :: string
  pyvizdir :: string
  valgrind_program :: string
  python_program :: "string list"

definition library_path_variable :: "string \<Rightarrow> string" where
  "library_path_variable sys_platform =
     (if sys_platform = ''linux2'' then ''LD_LIBRARY_PATH''
      else if sys_platform = ''darwin'' then ''DYLD_LIBRARY_PATH''
      else if sys_platform = ''win32'' then ''PATH''
      else if sys_platform = ''cygwin'' then ''PATH''
      else if startswith sys_platform ''freebsd'' then ''LD_LIBRARY_PATH''
      else ''LD_LIBRARY_PATH'')"

text \<open>\<open>env[k] = pathsep.join(dirs + [env[k]])\<close>, or without the last part when \<open>k\<close> is missing.\<close>

definition prepend_path :: "string \<Rightarrow> string \<Rightarrow> string list \<Rightarrow> (string, string) dict \<Rightarrow> (string, string) dict" where
  "prepend_path pathsep k dirs env =
     AList.update k
       (case map_of env k of Some v \<Rightarrow> py_join pathsep (dirs @ [v]) | None \<Rightarrow> py_join pathsep dirs) env"

definition get_proc_env ::
  "string \<Rightarrow> string \<Rightarrow> waf_build \<Rightarrow> (string, string) dict \<Rightarrow> (string, string) dict option \<Rightarrow> (string, string) dict" where
  "get_proc_env sys_platform pathsep bld os_environ os_env =
     (let proc_env = (case os_env of None \<Rightarrow> os_environ
                      | Some d \<Rightarrow> foldl (\<lambda>env (k, v). AList.update k v env) os_environ d)
      in prepend_path pathsep ''PATH'' (executable_path bld)
           (prepend_path pathsep ''PYTHONPATH'' [pymoddir bld, pyvizdir bld]
             (prepend_path pathsep (library_path_variable sys_platform) (module_path bld) proc_env)))"

section \<open>Running\<close>

text \<open>
  \<open>popen argv env work_dir\<close> is the exit status of the process and the lines of its standard
  error, or an exception when it cannot be started.
\<close>

type_synonym popen = "string list \<Rightarrow> (string, string) dict \<Rightarrow> string option \<Rightarrow> (int \<times> string list) py"

record run_world =
  sys_platform :: string
  pathsep :: string
  has_windows_error :: bool
  os_environ :: "(string, string) dict"
  abspath :: "string \<Rightarrow> string"
  process :: popen

definition valgrind_args :: "waf_build \<Rightarrow> string list" where
  "valgrind_args bld = [valgrind_program bld, ''--leak-check=full'', ''--show-reachable=yes'', ''--error-exitcode=1'']"

definition run_argv ::
  "run_world \<Rightarrow> waf_build \<Rightarrow> run_options \<Rightarrow> string list \<Rightarrow> (string, string) dict option \<Rightarrow> string option \<Rightarrow> bool \<Rightarrow> int py" where
  "run_argv w bld opts argv os_env work_dir force_no_valgrind =
     (let proc_env = get_proc_env (sys_platform w) (pathsep w) bld (os_environ w) os_env
      in py_bind
        (if use_valgrind opts \<and> \<not> force_no_valgrind
         then
           (if command_template opts \<noteq> [] then Inl WafError
            else if valgrind_program bld = [] then Inl WafError
            else py_bind (process w (valgrind_args bld @ argv) proc_env work_dir) (\<lambda>(retval, lines).
                   let error = list_ex (\<lambda>line. contains line ''== LEAK SUMMARY'') lines
                   in Inr (if retval = 0 \<and> error then 1 else retval)))
         else
           (case process w argv proc_env work_dir of
              Inl e \<Rightarrow> if has_windows_error w then Inl WafError else Inl e
            | Inr (retval, lines) \<Rightarrow> Inr retval))
        (\<lambda>retval. if retval \<noteq> 0 then Inl WafError else Inr retval))"

text \<open>
  \<open>template % (path,)\<close> for the conversions \<open>%s\<close> and \<open>%%\<close>; any other conversion, and a
  number of \<open>%s\<close> other than one, raises.
\<close>

fun py_format :: "string \<Rightarrow> string option \<Rightarrow> string py" where
  "py_format [] None = Inr []"
| "py_format [] (Some arg) = Inl TypeError"
| "py_format (c # s) arg =
     (if c \<noteq> CHR ''%'' then py_bind (py_format s arg) (\<lambda>r. Inr (c # r))
      else case s of
        [] \<Rightarrow> Inl ValueError
      | d # s' \<Rightarrow>
          if d = CHR ''%'' then py_bind (py_format s' arg) (\<lambda>r. Inr (c # r))
          else if d = CHR ''s''
          then (case arg of None \<Rightarrow> Inl TypeError | Some a \<Rightarrow> py_bind (py_format s' None) (\<lambda>r. Inr (a @ r)))
          else Inl ValueError)"

text \<open>A \<open>ValueError\<close> of \<open>find_program\<close> becomes a \<open>WafError\<close>.\<close>

definition lookup_program :: "run_world \<Rightarrow> waf_build \<Rightarrow> string \<Rightarrow> task_gen py" where
  "lookup_program w bld program_name =
     (case find_program (abspath w) (abspath w (launch_directory bld)) (all_task_gen bld) program_name of
        Inl e \<Rightarrow> if e = ValueError then Inl WafError else Inl e
      | Inr obj \<Rightarrow> Inr obj)"

definition double_backslash :: "string \<Rightarrow> string" where
  "double_backslash s = concat (map (\<lambda>c. if c = backslash then [c, c] else [c]) s)"

definition get_run_program :: "run_world \<Rightarrow> waf_build \<Rightarrow> string \<Rightarrow> string option \<Rightarrow> (string \<times> string list) py" where
  "get_run_program w bld program_string template =
     (if template \<in> {None, Some ''%s''}
      then
        py_bind (shlex_split program_string) (\<lambda>argv.
        py_bind (py_nth argv 0) (\<lambda>program_name.
        py_bind (lookup_program w bld program_name) (\<lambda>program_obj.
          Inr (program_name, tg_node program_obj # tl argv))))
      else
        py_bind (lookup_program w bld program_string) (\<lambda>program_obj.
        py_bind (py_format (the template) (Some (tg_node program_obj))) (\<lambda>tmpl.
        py_bind (shlex_split (double_backslash tmpl)) (\<lambda>execvec.
          Inr (program_string, execvec)))))"

definition visualizer_args :: "bool \<Rightarrow> string list" where
  "visualizer_args visualize =
     (if visualize then [''--SimulatorImplementationType=ns3::VisualSimulatorImpl''] else [])"

text \<open>\<open>default_cwd\<close> is \<open>Options.cwd_launch\<close>.\<close>

definition launch_cwd :: "string \<Rightarrow> run_options \<Rightarrow> string" where
  "launch_cwd default_cwd opts = (if cwd_launch opts \<noteq> [] then cwd_launch opts else default_cwd)"

definition run_program ::
  "run_world \<Rightarrow> waf_build \<Rightarrow> run_options \<Rightarrow> string \<Rightarrow> string \<Rightarrow> string option \<Rightarrow> string option \<Rightarrow> bool \<Rightarrow> int py" where
  "run_program w bld opts default_cwd program_string template work_dir visualize =
     py_bind (get_run_program w bld program_string template) (\<lambda>(dummy_program_name, execvec).
       let work_dir = (case work_dir of None \<Rightarrow> Some (launch_cwd default_cwd opts) | Some c \<Rightarrow> Some c)
       in run_argv w bld opts (execvec @ visualizer_args visualize) None work_dir False)"

definition run_python_program ::
  "run_world \<Rightarrow> waf_build \<Rightarrow> run_options \<Rightarrow> string \<Rightarrow> string \<Rightarrow> bool \<Rightarrow> int py" where
  "run_python_program w bld opts default_cwd program_string visualize =
     py_bind (shlex_split program_string) (\<lambda>execvec.
     py_bind (py_nth (python_program bld) 0) (\<lambda>python.
       run_argv w bld opts (python # execvec @ visualizer_args visualize) None (Some (launch_cwd default_cwd opts)) False))"

section \<open>Properties\<close>

lemma find_program_Inr:
  "find_program ap dir objs name = Inr obj \<Longrightarrow>
   obj \<in> set objs \<and> is_ns3_program obj \<and> in_launch_dir dir obj \<and>
   (\<exists>names. program_names ap dir obj = Inr names \<and> name \<in> set names)"
  by (induction objs) (auto split: if_splits)

text \<open>The search takes the first match: the objects before it are skipped or have other names.\<close>

lemma find_program_first:
  "find_program ap dir (pre @ obj # post) name = Inr obj" if
  "\<forall>x \<in> set pre. \<not> is_ns3_program x \<or> \<not> in_launch_dir dir x \<or> (\<exists>names. program_names ap dir x = Inr names \<and> name \<notin> set names)"
  "is_ns3_program obj" "in_launch_dir dir obj" "program_names ap dir obj = Inr names" "name \<in> set names"
  using that by (induction pre) auto

lemma run_argv_Inr:
  "run_argv w bld opts argv os_env work_dir False = Inr r \<longleftrightarrow>
     r = 0 \<and> (use_valgrind opts \<longrightarrow> command_template opts = [] \<and> valgrind_program bld \<noteq> []) \<and>
     (\<exists>lines. process w ((if use_valgrind opts then valgrind_args bld else []) @ argv)
          (get_proc_env (sys_platform w) (pathsep w) bld (os_environ w) os_env) work_dir = Inr (0, lines) \<and>
        (use_valgrind opts \<longrightarrow> \<not> list_ex (\<lambda>line. contains line ''== LEAK SUMMARY'') lines))"
  by (auto simp: run_argv_def Let_def split: if_splits sum.splits prod.splits)

lemma map_of_prepend_path:
  "map_of (prepend_path sep k dirs env) =
     (map_of env)(k \<mapsto> (case map_of env k of Some v \<Rightarrow> py_join sep (dirs @ [v]) | None \<Rightarrow> py_join sep dirs))"
  by (simp add: prepend_path_def dict_simps)

text \<open>
  On a platform whose library path is not \<open>PATH\<close> the three variables get the directories of
  the build in front of their old values, and no other variable changes.
\<close>

lemma proc_env_values:
  assumes "library_path_variable plat \<noteq> ''PATH''"
  shows "map_of (get_proc_env plat sep bld env None) k =
    (if k \<in> {library_path_variable plat, ''PYTHONPATH'', ''PATH''}
     then let dirs = (if k = ''PATH'' then executable_path bld
                      else if k = ''PYTHONPATH'' then [pymoddir bld, pyvizdir bld] else module_path bld)
          in Some (case map_of env k of Some v \<Rightarrow> py_join sep (dirs @ [v]) | None \<Rightarrow> py_join sep dirs)
     else map_of env k)"
proof -
  have "library_path_variable plat \<noteq> ''PYTHONPATH''" by (simp add: library_path_variable_def)
  then show ?thesis using assms by (simp add: get_proc_env_def Let_def map_of_prepend_path)
qed

lemma get_run_program_Inr:
  assumes "get_run_program w bld ps template = Inr (name, argv)"
  shows "\<exists>obj \<in> set (all_task_gen bld). is_ns3_program obj \<and> in_launch_dir (abspath w (launch_directory bld)) obj \<and>
    (template \<in> {None, Some ''%s''} \<longrightarrow> shlex_split ps = Inr (name # tl argv) \<and> argv = tg_node obj # tl argv)"
proof (cases "template \<in> {None, Some ''%s''}")
  case True
  then obtain av obj where "shlex_split ps = Inr av" "py_nth av 0 = Inr name" "lookup_program w bld name = Inr obj"
    "argv = tg_node obj # tl av"
    using assms by (auto simp: get_run_program_def)
  moreover from this(2) have "av = name # tl av" by (cases av) (auto simp: py_nth_def split: if_splits)
  ultimately show ?thesis
    by (auto simp: lookup_program_def dest!: find_program_Inr split: sum.splits if_splits)
next
  case False
  then obtain obj where "lookup_program w bld ps = Inr obj" using assms by (auto simp: get_run_program_def)
  with False show ?thesis
    by (auto simp: lookup_program_def dest!: find_program_Inr split: sum.splits if_splits)
qed

text \<open>
  C25: \<open>run_program\<close> returns only 0, and it does so exactly when the command could be formed,
  \<open>valgrind\<close> (when asked for) is installed and not combined with a command template, and the
  process that was started, with the environment of the build, in the launch directory
  unless another one is given and under \<open>valgrind\<close> when asked for, exited with 0 and
  \<open>valgrind\<close> reported no leak. The command always belongs to a program of the build below the
  launch directory, and without a template it is the path of that program with the
  remaining words of the command line. In every other case an exception is raised.
\<close>

theorem run_program_success:
  "(run_program w bld opts default_cwd ps template work_dir visualize = Inr r \<longleftrightarrow>
     r = 0 \<and>
     (\<exists>name argv lines. get_run_program w bld ps template = Inr (name, argv) \<and>
        (use_valgrind opts \<longrightarrow> command_template opts = [] \<and> valgrind_program bld \<noteq> []) \<and>
        process w ((if use_valgrind opts then valgrind_args bld else []) @ argv @ visualizer_args visualize)
          (get_proc_env (sys_platform w) (pathsep w) bld (os_environ w) None)
          (Some (case work_dir of None \<Rightarrow> launch_cwd default_cwd opts | Some d \<Rightarrow> d)) = Inr (0, lines) \<and>
        (use_valgrind opts \<longrightarrow> \<not> list_ex (\<lambda>line. contains line ''== LEAK SUMMARY'') lines))) \<and>
   (\<forall>name argv. get_run_program w bld ps template = Inr (name, argv) \<longrightarrow>
     (\<exists>obj \<in> set (all_task_gen bld). is_ns3_program obj \<and> in_launch_dir (abspath w (launch_directory bld)) obj \<and>
        (template \<in> {None, Some ''%s''} \<longrightarrow> shlex_split ps = Inr (name # tl argv) \<and> argv = tg_node obj # tl argv)))"
proof -
  have "(case work_dir of None \<Rightarrow> Some (launch_cwd default_cwd opts) | Some c \<Rightarrow> Some c) =
      Some (case work_dir of None \<Rightarrow> launch_cwd default_cwd opts | Some d \<Rightarrow> d)" by (cases work_dir) simp_all
  then have "run_program w bld opts default_cwd ps template work_dir visualize = Inr r \<longleftrightarrow>
      (\<exists>name argv. get_run_program w bld ps template = Inr (name, argv) \<and>
        run_argv w bld opts (argv @ visualizer_args visualize) None
          (Some (case work_dir of None \<Rightarrow> launch_cwd default_cwd opts | Some d \<Rightarrow> d)) False = Inr r)"
    by (auto simp: run_program_def Let_def)
  then show ?thesis
    using get_run_program_Inr by (simp only: run_argv_Inr) blast
qed

definition demo_build :: waf_build where
  "demo_build = \<lparr>all_task_gen = [\<lparr>is_ns3_program = True, tg_path = ''/ns3/scratch'', tg_bld_path = ''/ns3/build/scratch'',
       tg_name = ''first'', tg_node = ''/ns3/build/scratch/first''\<rparr>],
     launch_directory = ''/ns3'', module_path = [''/ns3/build''], executable_path = [], pymoddir = ''/p'', pyvizdir = ''/v'',
     valgrind_program = [], python_program = [''python'']\<rparr>"

definition demo_world :: run_world where
  "demo_world = \<lparr>sys_platform = ''linux2'', pathsep = '':'', has_windows_error = False, os_environ = [(''PATH'', ''/bin'')],
     abspath = \<lambda>p. p, process = \<lambda>argv env d. Inr (if argv = [''/ns3/build/scratch/first'', ''a b''] then 0 else 1, [])\<rparr>"

theorem run_program_success_witness:
  "run_program demo_world demo_build \<lparr>command_template = [], use_valgrind = False, cwd_launch = []\<rparr> ''/ns3''
     (''scratch/first '' @ [CHR 0x22] @ ''a b'' @ [CHR 0x22]) None None False = Inr 0"
proof -
  have g: "get_run_program demo_world demo_build (''scratch/first '' @ [CHR 0x22] @ ''a b'' @ [CHR 0x22]) None =
      Inr (''scratch/first'', [''/ns3/build/scratch/first'', ''a b''])" by code_simp
  show ?thesis
    using g run_program_success [of demo_world demo_build "\<lparr>command_template = [], use_valgrind = False, cwd_launch = []\<rparr>"
        "''/ns3''" "''scratch/first '' @ [CHR 0x22] @ ''a b'' @ [CHR 0x22]" None None False 0]
    by (simp add: demo_world_def visualizer_args_def)
qed

end
