(* ===== verification/Grid_View.thy ===== *)
theory Grid_View
  imports Complex_Main Timeline
begin

text \<open>
  The view of \<open>utils/grid.py\<close>: layout of the legend and of the names, the scales, the
  displayed range, and the handlers of the window (zooming, dragging, resizing). The
  extents of a text are a parameter, and drawing is left out. A number is an integer or a
  float, since \<open>/\<close> is floor division on the former; floats are modelled by rationals,
  without rounding.
\<close>

section \<open>Numbers\<close>

datatype pynum = PyInt int | PyFloat rat

fun num_val :: "pynum \<Rightarrow> rat" where
  "num_val (PyInt i) = of_int i"
| "num_val (PyFloat r) = r"

definition num_op :: "(int \<Rightarrow> int \<Rightarrow> int) \<Rightarrow> (rat \<Rightarrow> rat \<Rightarrow> rat) \<Rightarrow> pynum \<Rightarrow> pynum \<Rightarrow> pynum" where
  "num_op f g a b =
     (case (a, b) of (PyInt i, PyInt j) \<Rightarrow> PyInt (f i j) | _ \<Rightarrow> PyFloat (g (num_val a) (num_val b)))"

definition num_add :: "pynum \<Rightarrow> pynum \<Rightarrow> pynum" where
  "num_add = num_op (+) (+)"

definition num_sub :: "pynum \<Rightarrow> pynum \<Rightarrow> pynum" where
  "num_sub = num_op (-) (-)"

definition num_mult :: "pynum \<Rightarrow> pynum \<Rightarrow> pynum" where
  "num_mult = num_op (*) (*)"

definition num_div :: "pynum \<Rightarrow> pynum \<Rightarrow> pynum py" where
  "num_div a b = (if num_val b = 0 then Inl ZeroDivisionError else Inr (num_op (div) (/) a b))"

definition num_mod :: "pynum \<Rightarrow> pynum \<Rightarrow> pynum py" where
  "num_mod a b =
     (if num_val b = 0 then Inl ZeroDivisionError
      else Inr (num_op (mod) (\<lambda>x y. x - y * of_int \<lfloor>x / y\<rfloor>) a b))"

text \<open>\<open>max\<close> and \<open>min\<close> return their first argument unless the second is better.\<close>

definition num_max :: "pynum \<Rightarrow> pynum \<Rightarrow> pynum" where
  "num_max a b = (if num_val a < num_val b then b else a)"

definition num_min :: "pynum \<Rightarrow> pynum \<Rightarrow> pynum" where
  "num_min a b = (if num_val b < num_val a then b else a)"

text \<open>\<open>int(x)\<close> truncates towards zero.\<close>

definition num_int :: "pynum \<Rightarrow> int" where
  "num_int a = (case a of PyInt i \<Rightarrow> i | PyFloat r \<Rightarrow> if r < 0 then \<lceil>r\<rceil> else \<lfloor>r\<rfloor>)"

definition num_float :: "pynum \<Rightarrow> pynum" where
  "num_float a = PyFloat (num_val a)"

text \<open>\<open>range(start, stop, step)\<close> for a positive step.\<close>

function range_from :: "int \<Rightarrow> int \<Rightarrow> int \<Rightarrow> int list" where
  "range_from start stop step =
     (if 0 < step \<and> start < stop then start # range_from (start + step) stop step else [])"
  by pat_completeness auto
termination
  by (relation "measure (\<lambda>(start, stop, step). nat (stop - start))") auto

declare range_from.simps [simp del]

section \<open>The legend\<close>

text \<open>Width and height of a text.\<close>

type_synonym extents = "string \<Rightarrow> pynum \<times> pynum"

text \<open>One item of \<open>TopLegendRenderer.layout\<close>: line height, height so far, part of the line used.\<close>

definition legend_item ::
  "extents \<Rightarrow> pynum \<Rightarrow> pynum \<Rightarrow> pynum \<times> pynum \<times> pynum \<Rightarrow> string \<Rightarrow> pynum \<times> pynum \<times> pynum" where
  "legend_item ext padding width st legend =
     (case st of (line_height, total_height, line_used) \<Rightarrow>
        let (t_width, t_height) = ext legend;
            item_width = num_add (num_add (num_add padding padding) t_width) padding;
            item_height = num_add t_height padding;
            line_height = (if num_val line_height < num_val item_height then item_height else line_height)
        in if num_val width < num_val (num_add line_used item_width)
           then (line_height, num_add total_height line_height, num_add padding item_width)
           else (line_height, total_height, num_add line_used item_width))"

definition legend_height :: "extents \<Rightarrow> pynum \<Rightarrow> string list \<Rightarrow> pynum \<Rightarrow> pynum" where
  "legend_height ext padding legends width =
     (case foldl (legend_item ext padding width) (PyInt 0, padding, padding) legends of
        (line_height, total_height, line_used) \<Rightarrow> num_add total_height line_height)"

section \<open>The names of the timelines\<close>

record data_layout =
  left_width :: pynum
  right_width :: pynum
  dl_height :: pynum

definition widest :: "extents \<Rightarrow> string list \<Rightarrow> pynum" where
  "widest ext names = foldl (\<lambda>w name. num_max w (fst (ext name))) (PyInt 0) names"

definition right_names :: "timeline \<Rightarrow> string list" where
  "right_names t = map dr_name (tl_ranges t) @ map te_name (tl_event_int t) @ map te_name (tl_event_str t)"

text \<open>\<open>TimelinesRenderer.layout\<close>; the padding is 10.\<close>

definition timelines_layout :: "extents \<Rightarrow> pynum \<Rightarrow> timeline list \<Rightarrow> data_layout" where
  "timelines_layout ext max_text_height ts =
     (let padding = PyInt 10;
          left_n_lines = length ts;
          range_n = length (concat (map tl_ranges ts));
          event_n = length (concat (map tl_event_int ts)) + length (concat (map tl_event_str ts));
          right_n_lines = range_n + event_n;
          times = (\<lambda>n x. num_mult (PyInt n) x);
          left_height = num_add (times (int left_n_lines) max_text_height) (times (int left_n_lines - 1) padding);
          right_height = num_add (times (int right_n_lines - 1) padding) (times (int right_n_lines) max_text_height);
          right_data_height =
            num_add (num_add (times (int event_n) (num_add max_text_height (PyInt 5))) (PyInt (int range_n * 10)))
              (times (int right_n_lines - 1) padding);
          height = num_max (num_max left_height right_height) right_data_height
      in \<lparr>left_width = widest ext (map tl_name ts),
          right_width = widest ext (concat (map right_names ts)),
          dl_height = num_add height padding\<rparr>)"

text \<open>\<open>padding / 2 + left_width + padding + right_width + padding / 2\<close>, where \<open>10 / 2\<close> is 5.\<close>

definition get_data_x_start :: "data_layout \<Rightarrow> pynum" where
  "get_data_x_start l =
     num_add (num_add (num_add (num_add (PyInt 5) (left_width l)) (PyInt 10)) (right_width l)) (PyInt 5)"

section \<open>Scales\<close>

record scale =
  sc_lo :: pynum
  sc_hi :: pynum
  sc_delta :: int
  sc_width :: pynum

definition set_bounds :: "pynum \<Rightarrow> pynum \<Rightarrow> scale \<Rightarrow> scale" where
  "set_bounds lo hi s = s\<lparr>sc_lo := lo, sc_hi := hi\<rparr>"

definition get_position :: "scale \<Rightarrow> pynum \<Rightarrow> pynum py" where
  "get_position s x = num_div (num_mult (num_sub x (sc_lo s)) (sc_width s)) (num_sub (sc_hi s) (sc_lo s))"

text \<open>The largest power of ten whose tenfold is not below the width of the data; it starts at 1.\<close>

function closest_power :: "rat \<Rightarrow> int \<Rightarrow> int" where
  "closest_power data_delta closest =
     (if 0 < closest \<and> of_int (closest * 10) < data_delta then closest_power data_delta (closest * 10) else closest)"
  by pat_completeness auto
termination
proof (relation "measure (\<lambda>(d, c). nat (\<lceil>d\<rceil> - c))", goal_cases)
  case 1
  then show ?case by simp
next
  case (2 d c)
  then have "of_int (c * 10) < d" "0 < c" by auto
  then have "c * 10 < \<lceil>d\<rceil>" by (simp add: less_ceiling_iff)
  with \<open>0 < c\<close> show ?case by simp
qed

declare closest_power.simps [simp del]

definition scale_delta :: "pynum \<Rightarrow> pynum \<Rightarrow> int py" where
  "scale_delta lo hi =
     (let data_delta = num_sub hi lo;
          closest = closest_power (num_val data_delta) 1
      in py_bind (num_div data_delta (PyInt closest)) (\<lambda>q.
           Inr (if num_val q = 0 then closest else if num_val q = 1 then closest div 10 else closest)))"

text \<open>\<open>lo - (lo % delta) + delta\<close> and \<open>hi - (hi % delta)\<close>.\<close>

definition scale_ends :: "scale \<Rightarrow> int \<Rightarrow> (pynum \<times> pynum) py" where
  "scale_ends s delta =
     py_bind (num_mod (sc_lo s) (PyInt delta)) (\<lambda>m.
     py_bind (num_mod (sc_hi s) (PyInt delta)) (\<lambda>n.
       Inr (num_add (num_sub (sc_lo s) m) (PyInt delta), num_sub (sc_hi s) n)))"

definition scale_layout :: "pynum \<Rightarrow> scale \<Rightarrow> scale py" where
  "scale_layout width s =
     py_bind (scale_delta (sc_lo s) (sc_hi s)) (\<lambda>delta.
     py_bind (scale_ends s delta) (\<lambda>_.
       Inr (s\<lparr>sc_delta := delta, sc_width := width\<rparr>)))"

text \<open>The values at which \<open>draw\<close> puts a tick for a given distance.\<close>

definition tick_values :: "scale \<Rightarrow> int \<Rightarrow> int list py" where
  "tick_values s delta =
     py_bind (scale_ends s delta) (\<lambda>(start, end').
       Inr (range_from (num_int start) (num_int (num_add end' (PyInt delta))) delta))"

text \<open>The ticks with a number and the small ones between them.\<close>

definition scale_marks :: "scale \<Rightarrow> (int list \<times> int list) py" where
  "scale_marks s =
     py_bind (tick_values s (sc_delta s)) (\<lambda>ticks.
     py_bind (if 0 < sc_delta s div 10 then tick_values s (sc_delta s div 10) else Inr []) (\<lambda>subticks.
       Inr (ticks, subticks)))"

section \<open>The displayed range\<close>

text \<open>The parts of the layout that \<open>GraphicRenderer\<close> asks for.\<close>

record panes =
  legend_of_width :: "pynum \<Rightarrow> pynum"
  data_x_start :: pynum
  data_height :: pynum
  scale_height :: pynum

record graphic =
  g_start :: pynum
  g_end :: pynum
  mid_scale :: scale
  bot_scale :: scale
  g_width :: pynum
  g_height :: pynum
  r_lo :: pynum
  r_hi :: pynum

definition new_scale :: scale where
  "new_scale = \<lparr>sc_lo = PyInt 0, sc_hi = PyInt 0, sc_delta = 0, sc_width = PyInt 0\<rparr>"

text \<open>The range is set before it is used.\<close>

definition new_graphic :: "int \<Rightarrow> int \<Rightarrow> graphic" where
  "new_graphic start end' =
     \<lparr>g_start = num_float (PyInt start), g_end = num_float (PyInt end'), mid_scale = new_scale,
      bot_scale = set_bounds (PyInt start) (PyInt end') new_scale, g_width = PyInt 1, g_height = PyInt 1,
      r_lo = PyInt 0, r_hi = PyInt 0\<rparr>"

definition layout_graphic :: "panes \<Rightarrow> pynum \<Rightarrow> pynum \<Rightarrow> graphic \<Rightarrow> graphic py" where
  "layout_graphic ps width height g =
     py_bind (scale_layout (num_sub width (data_x_start ps)) (mid_scale g)) (\<lambda>m.
     py_bind (scale_layout width (bot_scale g)) (\<lambda>b.
       Inr (g\<lparr>g_width := width, g_height := height, mid_scale := m, bot_scale := b\<rparr>)))"

definition set_range :: "panes \<Rightarrow> pynum \<Rightarrow> pynum \<Rightarrow> graphic \<Rightarrow> graphic py" where
  "set_range ps start end' g =
     (let s = num_min start end';
          e = num_max start end';
          start = num_max (g_start g) s;
          end' = num_min (g_end g) e
      in layout_graphic ps (g_width g) (g_height g)
           (g\<lparr>r_lo := start, r_hi := end', mid_scale := set_bounds start end' (mid_scale g)\<rparr>))"

text \<open>Rectangles are \<open>x, y, width, height\<close>.\<close>

definition get_data_rectangle :: "panes \<Rightarrow> graphic \<Rightarrow> pynum \<times> pynum \<times> pynum \<times> pynum" where
  "get_data_rectangle ps g =
     (data_x_start ps, legend_of_width ps (g_width g), num_sub (g_width g) (data_x_start ps), data_height ps)"

definition scale_data :: "panes \<Rightarrow> pynum \<Rightarrow> graphic \<Rightarrow> pynum py" where
  "scale_data ps x g =
     py_bind (num_div x (num_sub (g_width g) (data_x_start ps))) (\<lambda>q.
       Inr (num_mult q (num_sub (r_hi g) (r_lo g))))"

definition get_selection_rectangle :: "panes \<Rightarrow> graphic \<Rightarrow> (pynum \<times> pynum \<times> pynum \<times> pynum) py" where
  "get_selection_rectangle ps g =
     py_bind (get_position (bot_scale g) (r_lo g)) (\<lambda>x_start.
     py_bind (get_position (bot_scale g) (r_hi g)) (\<lambda>x_end.
       Inr (x_start,
            num_add (num_add (num_add (legend_of_width ps (g_width g)) (data_height ps)) (scale_height ps)) (PyInt 20),
            num_sub x_end x_start, num_add (scale_height ps) (PyInt 20))))"

definition scale_selection :: "pynum \<Rightarrow> graphic \<Rightarrow> pynum py" where
  "scale_selection x g =
     py_bind (num_div x (g_width g)) (\<lambda>q. Inr (num_mult q (num_sub (g_end g) (g_start g))))"

section \<open>The handlers of the window\<close>

text \<open>An attribute that has not been assigned yet is \<open>None\<close>; reading it raises.\<close>

record view =
  data :: graphic
  moving_left :: bool
  moving_right :: bool
  moving_both :: bool
  moving_top :: bool
  force_full_redraw :: bool
  moving_left_cur :: "pynum option"
  moving_right_cur :: "pynum option"
  moving_both_start :: "pynum option"
  moving_both_cur :: "pynum option"
  moving_top_start :: "pynum option"
  moving_top_cur :: "pynum option"
  v_width :: "pynum option"
  v_height :: "pynum option"

definition new_view :: "graphic \<Rightarrow> view" where
  "new_view g = \<lparr>data = g, moving_left = False, moving_right = False, moving_both = False, moving_top = False,
     force_full_redraw = True, moving_left_cur = None, moving_right_cur = None, moving_both_start = None,
     moving_both_cur = None, moving_top_start = None, moving_top_cur = None, v_width = None, v_height = None\<rparr>"

definition attr :: "'a option \<Rightarrow> 'a py" where
  "attr v = (case v of None \<Rightarrow> Inl AttributeError | Some x \<Rightarrow> Inr x)"

text \<open>\<open>set_range\<close> on the data, and a redraw.\<close>

definition view_range :: "panes \<Rightarrow> pynum \<Rightarrow> pynum \<Rightarrow> view \<Rightarrow> view py" where
  "view_range ps start end' v =
     py_bind (set_range ps start end' (data v)) (\<lambda>g. Inr (v\<lparr>data := g, force_full_redraw := True\<rparr>))"

definition set_smaller_zoom :: "panes \<Rightarrow> view \<Rightarrow> view py" where
  "set_smaller_zoom ps v =
     (let start = r_lo (data v); end' = r_hi (data v)
      in view_range ps start (num_add start (num_mult (num_sub end' start) (PyInt 2))) v)"

definition set_bigger_zoom :: "panes \<Rightarrow> view \<Rightarrow> view py" where
  "set_bigger_zoom ps v =
     (let start = r_lo (data v); end' = r_hi (data v)
      in py_bind (num_div (num_sub end' start) (PyInt 2)) (\<lambda>half. view_range ps start (num_add start half) v))"

definition strictly_in :: "pynum \<Rightarrow> pynum \<Rightarrow> pynum \<Rightarrow> bool" where
  "strictly_in p lo len \<longleftrightarrow> num_val lo < num_val p \<and> num_val p < num_val lo + num_val len"

definition near :: "pynum \<Rightarrow> rat \<Rightarrow> bool" where
  "near p q \<longleftrightarrow> \<bar>num_val p - q\<bar> < 5"

definition in_data :: "panes \<Rightarrow> graphic \<Rightarrow> pynum \<Rightarrow> pynum \<Rightarrow> bool" where
  "in_data ps g ex ey \<longleftrightarrow>
     (case get_data_rectangle ps g of (x, y, width, height) \<Rightarrow> strictly_in ey y height \<and> strictly_in ex x width)"

text \<open>The handlers return whether the event is handled.\<close>

definition button_press :: "panes \<Rightarrow> pynum \<Rightarrow> pynum \<Rightarrow> view \<Rightarrow> (bool \<times> view) py" where
  "button_press ps ex ey v =
     py_bind (get_selection_rectangle ps (data v)) (\<lambda>(x, y, width, height).
       if strictly_in ey y height \<and> near ex (num_val x) then Inr (True, v\<lparr>moving_left := True\<rparr>)
       else if strictly_in ey y height \<and> near ex (num_val x + num_val width) then Inr (True, v\<lparr>moving_right := True\<rparr>)
       else if strictly_in ey y height \<and> strictly_in ex x width
       then Inr (True, v\<lparr>moving_both := True, moving_both_start := Some ex, moving_both_cur := Some ex\<rparr>)
       else if in_data ps (data v) ex ey
       then Inr (True, v\<lparr>moving_top := True, moving_top_start := Some ex, moving_top_cur := Some ex\<rparr>)
       else Inr (False, v))"

definition button_release :: "panes \<Rightarrow> view \<Rightarrow> (bool \<times> view) py" where
  "button_release ps v =
     (if moving_left v then
        py_bind (attr (moving_left_cur v)) (\<lambda>cur.
        py_bind (scale_selection cur (data v)) (\<lambda>left.
        py_bind (view_range ps left (r_hi (data v)) (v\<lparr>moving_left := False\<rparr>)) (\<lambda>v. Inr (True, v))))
      else if moving_right v then
        py_bind (attr (moving_right_cur v)) (\<lambda>cur.
        py_bind (scale_selection cur (data v)) (\<lambda>right.
        py_bind (view_range ps (r_lo (data v)) right (v\<lparr>moving_right := False\<rparr>)) (\<lambda>v. Inr (True, v))))
      else if moving_both v then
        py_bind (attr (moving_both_cur v)) (\<lambda>cur.
        py_bind (attr (moving_both_start v)) (\<lambda>start.
        py_bind (scale_selection (num_sub cur start) (data v)) (\<lambda>delta.
        py_bind (view_range ps (num_add (r_lo (data v)) delta) (num_add (r_hi (data v)) delta) (v\<lparr>moving_both := False\<rparr>))
          (\<lambda>v. Inr (True, v)))))
      else Inr (False, v\<lparr>moving_top := False\<rparr>))"

text \<open>
  The branches of \<open>motion_notify\<close>. At the right edge the position is assigned to the flag
  \<open>moving_right\<close> itself, whose truth value it then gives.
\<close>

definition motion_left :: "pynum \<Rightarrow> pynum \<Rightarrow> pynum \<Rightarrow> view \<Rightarrow> (bool \<times> view) py" where
  "motion_left x width ex v =
     (let cur = (if num_val ex \<le> 0 then PyInt 0
                 else if num_val x + num_val width \<le> num_val ex then num_add x width else ex)
      in py_bind (attr (v_width v)) (\<lambda>_. Inr (True, v\<lparr>moving_left_cur := Some cur\<rparr>)))"

definition motion_right :: "pynum \<Rightarrow> pynum \<Rightarrow> view \<Rightarrow> (bool \<times> view) py" where
  "motion_right x ex v =
     py_bind (attr (v_width v)) (\<lambda>w.
       Inr (True,
            if num_val w \<le> num_val ex then v\<lparr>moving_right := num_val w \<noteq> 0\<rparr>
            else if num_val ex < num_val x then v\<lparr>moving_right_cur := Some x\<rparr>
            else v\<lparr>moving_right_cur := Some ex\<rparr>))"

definition motion_both :: "pynum \<Rightarrow> pynum \<Rightarrow> pynum \<Rightarrow> view \<Rightarrow> (bool \<times> view) py" where
  "motion_both x width ex v =
     py_bind (attr (v_width v)) (\<lambda>w.
     py_bind (attr (moving_both_start v)) (\<lambda>start.
       let cur_e = num_sub w (num_sub (num_add x width) start);
           cur_s = num_sub start x;
           cur = (if num_val ex < num_val cur_s then cur_s else if num_val cur_e < num_val ex then cur_e else ex)
       in Inr (True, v\<lparr>moving_both_cur := Some cur\<rparr>)))"

definition motion_top :: "panes \<Rightarrow> pynum \<Rightarrow> view \<Rightarrow> (bool \<times> view) py" where
  "motion_top ps ex v =
     py_bind (attr (moving_top_start v)) (\<lambda>start.
     py_bind (scale_data ps (num_sub start ex) (data v)) (\<lambda>delta.
     py_bind (view_range ps (num_add (r_lo (data v)) delta) (num_add (r_hi (data v)) delta)
                (v\<lparr>moving_top_cur := Some ex\<rparr>)) (\<lambda>v.
       Inr (True, v\<lparr>moving_top_start := Some ex\<rparr>))))"

definition motion_notify :: "panes \<Rightarrow> pynum \<Rightarrow> pynum \<Rightarrow> view \<Rightarrow> (bool \<times> view) py" where
  "motion_notify ps ex ey v =
     py_bind (get_selection_rectangle ps (data v)) (\<lambda>(x, y, width, height).
       if moving_left v then motion_left x width ex v
       else if moving_right v then motion_right x ex v
       else if moving_both v then motion_both x width ex v
       else if moving_top v then motion_top ps ex v
       else
         Inr (strictly_in ey y height \<and>
                (near ex (num_val x) \<or> near ex (num_val x + num_val width) \<or> strictly_in ex x width) \<or>
              in_data ps (data v) ex ey, v))"

definition size_allocate :: "panes \<Rightarrow> int \<Rightarrow> int \<Rightarrow> view \<Rightarrow> view py" where
  "size_allocate ps width height v =
     py_bind (layout_graphic ps (PyInt width) (PyInt height) (data v)) (\<lambda>g.
       Inr (v\<lparr>v_width := Some (PyInt width), v_height := Some (PyInt height), data := g, force_full_redraw := True\<rparr>))"

section \<open>The program\<close>

datatype ui_event =
    ZoomOut
  | ZoomIn
  | Press pynum pynum
  | Release
  | Motion pynum pynum
  | Resize int int

definition handle :: "panes \<Rightarrow> view \<Rightarrow> ui_event \<Rightarrow> view py" where
  "handle ps v ev =
     (case ev of
        ZoomOut \<Rightarrow> set_smaller_zoom ps v
      | ZoomIn \<Rightarrow> set_bigger_zoom ps v
      | Press x y \<Rightarrow> py_bind (button_press ps x y v) (\<lambda>(_, v). Inr v)
      | Release \<Rightarrow> py_bind (button_release ps v) (\<lambda>(_, v). Inr v)
      | Motion x y \<Rightarrow> py_bind (motion_notify ps x y v) (\<lambda>(_, v). Inr v)
      | Resize w h \<Rightarrow> size_allocate ps w h v)"

text \<open>The window that \<open>main\<close> opens on the timelines of a trace.\<close>

definition open_view :: "panes \<Rightarrow> int \<times> int \<Rightarrow> view py" where
  "open_view ps bounds =
     (case bounds of (lower_bound, upper_bound) \<Rightarrow>
        let range_mid = (upper_bound - lower_bound) div 2;
            range_width = (upper_bound - lower_bound) div 10;
            range_lo = range_mid - range_width div 2;
            range_hi = range_mid + range_width div 2
        in py_bind (set_range ps (PyInt range_lo) (PyInt range_hi) (new_graphic lower_bound upper_bound)) (\<lambda>g.
             Inr (new_view g)))"

text \<open>
  The panes of a trace: the legend lists the values of the ranges. The height of a scale is
  that of its text and 10.
\<close>

definition trace_panes :: "extents \<Rightarrow> pynum \<Rightarrow> string list \<Rightarrow> timeline list \<Rightarrow> panes" where
  "trace_panes ext max_text_height legends ts =
     (let l = timelines_layout ext max_text_height ts
      in \<lparr>legend_of_width = legend_height ext (PyInt 10) legends, data_x_start = get_data_x_start l,
          data_height = dl_height l, scale_height = num_add max_text_height (PyInt 10)\<rparr>)"

text \<open>\<open>main\<close>, followed by the events of the user; \<open>ko\<close> is the order of the dictionary of the values.\<close>

definition show_trace ::
  "(string list \<Rightarrow> string list) \<Rightarrow> extents \<Rightarrow> pynum \<Rightarrow> string list \<Rightarrow> ui_event list \<Rightarrow> view py" where
  "show_trace ko ext max_text_height lines evs =
     (case read_data lines of (colors, timelines) \<Rightarrow>
        let range_values = get_all_range_values ko timelines;
            ps = trace_panes ext max_text_height range_values timelines
        in py_bind (lookup_all range_values colors) (\<lambda>_.
           py_bind (open_view ps (timelines_get_bounds timelines)) (\<lambda>v. run_steps (handle ps) v evs)))"

section \<open>Lemmas on numbers\<close>

lemma num_op_val:
  assumes "\<And>i j. of_int (f i j) = g (of_int i) (of_int j)"
  shows "num_val (num_op f g a b) = g (num_val a) (num_val b)"
  using assms by (cases a; cases b) (simp_all add: num_op_def)

lemma num_arith_val [simp]:
  "num_val (num_add a b) = num_val a + num_val b"
  "num_val (num_sub a b) = num_val a - num_val b"
  "num_val (num_mult a b) = num_val a * num_val b"
  by (simp_all add: num_add_def num_sub_def num_mult_def num_op_val)

lemma num_max_val [simp]: "num_val (num_max a b) = max (num_val a) (num_val b)"
  by (simp add: num_max_def max_def)

lemma num_min_val [simp]: "num_val (num_min a b) = min (num_val a) (num_val b)"
  by (simp add: num_min_def min_def)

lemma num_mod_val:
  assumes "d \<noteq> 0"
  shows "\<exists>m. num_mod a (PyInt d) = Inr m \<and> num_val m = num_val a - of_int d * of_int \<lfloor>num_val a / of_int d\<rfloor>"
proof (cases a)
  case (PyInt i)
  have "of_int (i mod d) = (of_int i :: rat) - of_int d * of_int (i div d)"
    by (metis minus_mult_div_eq_mod of_int_diff of_int_mult)
  then show ?thesis using PyInt assms by (simp add: num_mod_def num_op_def floor_divide_of_int_eq)
next
  case (PyFloat r)
  then show ?thesis using assms by (simp add: num_mod_def num_op_def)
qed

lemma num_int_of_int: "num_val a = of_int k \<Longrightarrow> num_int a = k"
  by (cases a) (auto simp: num_int_def)

section \<open>Ticks\<close>

lemma range_from_multiples:
  "0 < d \<Longrightarrow> range_from (d * a) (d * b) d = map ((*) d) [a..b - 1]"
proof (induction "nat (b - a)" arbitrary: a)
  case 0
  then have "b \<le> a" by simp
  then have "d * b \<le> d * a" using 0(2) by (simp add: mult_left_mono)
  then show ?case using \<open>b \<le> a\<close> by (subst range_from.simps) simp
next
  case (Suc n)
  then have ab: "a < b" by simp
  then have "d * a < d * b" using Suc(3) by (simp add: mult_strict_left_mono)
  moreover have "d * a + d = d * (a + 1)" by (simp add: algebra_simps)
  moreover have "[a..b - 1] = a # [a + 1..b - 1]" using ab by (simp add: upto_rec1)
  ultimately show ?case using Suc(1) [of "a + 1"] Suc(2,3) by (subst range_from.simps) simp
qed

lemma scale_ends_val:
  assumes "0 < d"
  shows "\<exists>a b. scale_ends s d = Inr (a, b) \<and>
    num_val a = of_int (d * (\<lfloor>num_val (sc_lo s) / of_int d\<rfloor> + 1)) \<and>
    num_val b = of_int (d * \<lfloor>num_val (sc_hi s) / of_int d\<rfloor>)"
proof -
  have "d \<noteq> 0" using assms by simp
  obtain m n where "num_mod (sc_lo s) (PyInt d) = Inr m" "num_mod (sc_hi s) (PyInt d) = Inr n"
    and v: "num_val m = num_val (sc_lo s) - of_int d * of_int \<lfloor>num_val (sc_lo s) / of_int d\<rfloor>"
      "num_val n = num_val (sc_hi s) - of_int d * of_int \<lfloor>num_val (sc_hi s) / of_int d\<rfloor>"
    using num_mod_val [OF \<open>d \<noteq> 0\<close>] by metis
  then show ?thesis by (simp add: scale_ends_def algebra_simps)
qed

lemma tick_values_eq:
  assumes "0 < d"
  shows "tick_values s d =
    Inr (map ((*) d) [\<lfloor>num_val (sc_lo s) / of_int d\<rfloor> + 1..\<lfloor>num_val (sc_hi s) / of_int d\<rfloor>])"
proof -
  obtain a b where ab: "scale_ends s d = Inr (a, b)"
    "num_val a = of_int (d * (\<lfloor>num_val (sc_lo s) / of_int d\<rfloor> + 1))"
    "num_val b = of_int (d * \<lfloor>num_val (sc_hi s) / of_int d\<rfloor>)"
    using scale_ends_val [OF assms] by blast
  have "num_val (num_add b (PyInt d)) = of_int (d * (\<lfloor>num_val (sc_hi s) / of_int d\<rfloor> + 1))"
    by (simp add: ab(3) algebra_simps)
  then show ?thesis
    by (simp only: tick_values_def ab(1) py_bind_simps prod.case num_int_of_int [OF ab(2)] num_int_of_int
        range_from_multiples [OF assms]) simp
qed

lemma multiples_between:
  fixes lo hi :: rat
  assumes "0 < d"
  shows "set (map ((*) d) [\<lfloor>lo / of_int d\<rfloor> + 1..\<lfloor>hi / of_int d\<rfloor>]) = {k. d dvd k \<and> lo < of_int k \<and> of_int k \<le> hi}"
proof -
  have "lo < of_int (d * i) \<longleftrightarrow> \<lfloor>lo / of_int d\<rfloor> + 1 \<le> i" "of_int (d * i) \<le> hi \<longleftrightarrow> i \<le> \<lfloor>hi / of_int d\<rfloor>" for i
    using assms by (simp_all add: floor_less_iff [symmetric] le_floor_iff pos_divide_less_eq pos_le_divide_eq mult.commute
        flip: floor_less_iff) (simp add: floor_less_iff pos_divide_less_eq mult.commute add1_zle_eq)
  then show ?thesis by (auto simp: dvd_def)
qed

lemma multiples_sorted: "0 < d \<Longrightarrow> sorted_wrt (<) (map ((*) d) [a..b :: int])"
  by (simp add: sorted_wrt_map)

lemma multiples_count:
  fixes lo hi :: rat
  assumes "0 < d" "hi - lo \<le> 20 * of_int d"
  shows "length (map ((*) d) [\<lfloor>lo / of_int d\<rfloor> + 1..\<lfloor>hi / of_int d\<rfloor>]) \<le> 20"
proof -
  have "hi / of_int d \<le> lo / of_int d + 20" using assms by (simp add: field_simps)
  then have "\<lfloor>hi / of_int d\<rfloor> \<le> \<lfloor>lo / of_int d + 20\<rfloor>" by (rule floor_mono)
  then show ?thesis by simp
qed

text \<open>What the loop for the power of ten finds.\<close>

lemma closest_power_spec:
  "0 < c \<Longrightarrow> c \<le> closest_power d c \<and> (closest_power d c = c \<or> 10 dvd closest_power d c) \<and> d \<le> of_int (closest_power d c * 10) \<and>
     (closest_power d c = c \<or> of_int (closest_power d c) < d)"
proof (induction d c rule: closest_power.induct)
  case (1 d c)
  show ?case
  proof (cases "of_int (c * 10) < d")
    case True
    then have "closest_power d c = closest_power d (c * 10)" using 1(2) by (subst closest_power.simps) simp
    then show ?thesis using 1(1) [OF conjI [OF 1(2) True]] 1(2) True by auto
  next
    case False
    then have "closest_power d c = c" by (subst closest_power.simps) simp
    then show ?thesis using False by simp
  qed
qed

lemma scale_delta_spec:
  assumes "num_val lo \<le> num_val hi"
  shows "\<exists>d. scale_delta lo hi = Inr d \<and>
    (if num_val hi - num_val lo = 1 then d = 0 else 0 < d \<and> num_val hi - num_val lo \<le> 20 * of_int d)"
proof -
  define dd where "dd = num_sub hi lo"
  define c where "c = closest_power (num_val dd) 1"
  have c: "1 \<le> c" "c = 1 \<or> 10 dvd c" "num_val dd \<le> of_int (c * 10)" "c = 1 \<or> of_int c < num_val dd"
    using closest_power_spec [of 1 "num_val dd"] by (simp_all add: c_def)
  have pos: "0 \<le> num_val dd" using assms by (simp add: dd_def)
  obtain q where q: "num_div dd (PyInt c) = Inr q" using c(1) by (auto simp: num_div_def)
  have eq: "scale_delta lo hi = Inr (if num_val q = 0 then c else if num_val q = 1 then c div 10 else c)"
    using q by (simp add: scale_delta_def dd_def [symmetric] c_def [symmetric] Let_def)
  have q1: "of_int c \<le> num_val dd \<and> num_val dd < 2 * of_int c" if "num_val q = 1"
  proof (cases dd)
    case (PyInt i)
    then have "i div c = 1" using q that c(1) by (auto simp: num_div_def num_op_def)
    then have "i = c + i mod c" using div_mult_mod_eq [of i c] by simp
    moreover have "0 \<le> i mod c" "i mod c < c" using c(1) by simp_all
    ultimately have "c \<le> i" "i < 2 * c" by linarith+
    then have "(of_int c :: rat) \<le> of_int i" "(of_int i :: rat) < of_int (2 * c)" by (simp_all only: of_int_le_iff of_int_less_iff)
    then show ?thesis using PyInt by simp
  next
    case (PyFloat r)
    then show ?thesis using q that c(1) by (auto simp: num_div_def num_op_def)
  qed
  have one: "num_val q = 1 \<and> c = 1" if "num_val dd = 1"
  proof -
    have "c = 1" using c(1,4) that by auto
    then show ?thesis using q that by (cases dd) (auto simp: num_div_def num_op_def)
  qed
  show ?thesis
  proof (cases "num_val q = 1")
    case False
    then have "num_val dd \<noteq> 1" using one by blast
    moreover have "num_val dd \<le> 20 * of_int c" using c(1,3) by simp
    ultimately show ?thesis using False c(1) by (simp add: eq dd_def)
  next
    case True
    show ?thesis
    proof (cases "c = 1")
      case c1: True
      then have "num_val dd = 1"
        using q True by (cases dd) (auto simp: num_div_def num_op_def)
      then show ?thesis using True c1 by (simp add: eq dd_def)
    next
      case False
      then have ten: "c = 10 * (c div 10)" using c(2) by simp
      then have "num_val dd < 20 * of_int (c div 10)" using q1 [OF True] by (metis mult.assoc of_int_mult of_int_numeral mult_2 numeral_Bit0 distrib_right)
      moreover have "0 < c div 10" using ten c(1) by linarith
      moreover have "num_val dd \<noteq> 1" using one False by blast
      ultimately show ?thesis using True by (simp add: eq dd_def)
    qed
  qed
qed

section \<open>Lemmas on the range\<close>

lemma layout_graphic_fields:
  "layout_graphic ps w h g = Inr g' \<Longrightarrow>
     g_start g' = g_start g \<and> g_end g' = g_end g \<and> r_lo g' = r_lo g \<and> r_hi g' = r_hi g \<and> g_width g' = w \<and>
     sc_lo (bot_scale g') = sc_lo (bot_scale g) \<and> sc_hi (bot_scale g') = sc_hi (bot_scale g) \<and>
     sc_width (bot_scale g') = w"
  by (auto simp: layout_graphic_def scale_layout_def)

lemma set_range_fields:
  assumes "set_range ps a b g = Inr g'"
  shows "g_start g' = g_start g" "g_end g' = g_end g" "g_width g' = g_width g"
    "r_lo g' = num_max (g_start g) (num_min a b)" "r_hi g' = num_min (g_end g) (num_max a b)"
    "sc_lo (bot_scale g') = sc_lo (bot_scale g)" "sc_hi (bot_scale g') = sc_hi (bot_scale g)"
    "sc_width (bot_scale g') = g_width g"
  using assms by (auto simp: set_range_def Let_def dest!: layout_graphic_fields)

text \<open>The data bounds are those of the trace, and the displayed range is clamped on both sides.\<close>

definition view_ok :: "int \<times> int \<Rightarrow> view \<Rightarrow> bool" where
  "view_ok bounds v \<longleftrightarrow>
     num_val (g_start (data v)) = of_int (fst bounds) \<and> num_val (g_end (data v)) = of_int (snd bounds) \<and>
     num_val (g_start (data v)) \<le> num_val (r_lo (data v)) \<and> num_val (r_hi (data v)) \<le> num_val (g_end (data v))"

definition view_error :: "py_exn \<Rightarrow> bool" where
  "view_error e \<longleftrightarrow> e \<in> {ZeroDivisionError, AttributeError}"

lemma view_ok_cong: "data v' = data v \<Longrightarrow> view_ok b v' = view_ok b v"
  by (simp add: view_ok_def)

lemma view_range_ok:
  assumes "view_range ps a c v = Inr v'" "view_ok b v0" "data v = data v0"
  shows "view_ok b v'"
proof -
  obtain g where g: "set_range ps a c (data v) = Inr g" and v': "data v' = g"
    using assms(1) by (auto simp: view_range_def)
  then show ?thesis using assms(2,3) set_range_fields [OF g] by (simp add: view_ok_def)
qed

lemma motion_ok:
  assumes "motion_notify ps x y v = Inr (r, v')" "view_ok b v"
  shows "view_ok b v'"
proof -
  have cong: "view_ok b v'" if "data v' = data v" using view_ok_cong [OF that] assms(2) by simp
  have top: "view_ok b v'" if t: "motion_top ps x v = Inr (r, v')"
  proof -
    obtain a c u where "view_range ps a c (v\<lparr>moving_top_cur := Some x\<rparr>) = Inr u" and v': "v' = u\<lparr>moving_top_start := Some x\<rparr>"
      using t by (auto simp: motion_top_def)
    then have "view_ok b u" using view_range_ok [OF _ assms(2)] by simp
    then show ?thesis using v' view_ok_cong [of v' u] by simp
  qed
  obtain X Y W H where "get_selection_rectangle ps (data v) = Inr (X, Y, W, H)"
    using assms(1) by (auto simp: motion_notify_def)
  then consider "motion_left X W x v = Inr (r, v')" | "motion_right X x v = Inr (r, v')"
    | "motion_both X W x v = Inr (r, v')" | "motion_top ps x v = Inr (r, v')" | "v' = v"
    using assms(1) by (simp add: motion_notify_def split: if_splits)
  then show ?thesis
  proof cases
    case 1
    then have "data v' = data v" by (auto simp: motion_left_def Let_def)
    then show ?thesis by (rule cong)
  next
    case 2
    then have "data v' = data v" by (auto simp: motion_right_def)
    then show ?thesis by (rule cong)
  next
    case 3
    then have "data v' = data v" by (auto simp: motion_both_def Let_def)
    then show ?thesis by (rule cong)
  next
    case 4
    then show ?thesis by (rule top)
  next
    case 5
    then show ?thesis using assms(2) by simp
  qed
qed

lemma release_ok:
  assumes "button_release ps v = Inr (r, v')" "view_ok b v"
  shows "view_ok b v'"
proof (cases "moving_left v \<or> moving_right v \<or> moving_both v")
  case True
  then obtain a c u where "view_range ps a c u = Inr v'" "data u = data v"
    using assms(1) by (auto simp: button_release_def split: if_splits)
  then show ?thesis using view_range_ok assms(2) by blast
next
  case False
  then show ?thesis using assms by (auto simp: button_release_def view_ok_def)
qed

lemma handle_ok:
  assumes "handle ps v ev = Inr v'" "view_ok b v"
  shows "view_ok b v'"
proof (cases ev)
  case ZoomOut
  then show ?thesis using assms(1) view_range_ok [OF _ assms(2) refl] by (auto simp: handle_def set_smaller_zoom_def Let_def)
next
  case ZoomIn
  then show ?thesis using assms(1) view_range_ok [OF _ assms(2) refl] by (auto simp: handle_def set_bigger_zoom_def Let_def)
next
  case (Press x y)
  then obtain r where "button_press ps x y v = Inr (r, v')" using assms(1) by (auto simp: handle_def)
  then have "data v' = data v" by (auto simp: button_press_def split: if_splits)
  then show ?thesis using view_ok_cong assms(2) by blast
next
  case Release
  then show ?thesis using assms(1) release_ok [OF _ assms(2)] by (auto simp: handle_def)
next
  case (Motion x y)
  then show ?thesis using assms(1) motion_ok [OF _ assms(2)] by (auto simp: handle_def)
next
  case (Resize w h)
  then obtain g where "layout_graphic ps (PyInt w) (PyInt h) (data v) = Inr g" "data v' = g"
    using assms(1) by (auto simp: handle_def size_allocate_def)
  then show ?thesis using assms(2) by (auto simp: view_ok_def dest!: layout_graphic_fields)
qed

text \<open>The operations that can raise, and what.\<close>

lemma num_errors:
  "num_div a c = Inl e \<Longrightarrow> view_error e"
  "num_mod a c = Inl e \<Longrightarrow> view_error e"
  "attr x = Inl e \<Longrightarrow> view_error e"
  by (auto simp: num_div_def num_mod_def attr_def view_error_def split: if_splits option.splits)

lemma layout_error: "layout_graphic ps w h g = Inl e \<Longrightarrow> view_error e"
  by (auto simp: layout_graphic_def scale_layout_def scale_delta_def scale_ends_def Let_def py_bind_eq_Inl
      dest: num_errors)

lemma range_errors:
  "set_range ps a c g = Inl e \<Longrightarrow> view_error e"
  "view_range ps a c v = Inl e \<Longrightarrow> view_error e"
  by (auto simp: set_range_def view_range_def Let_def py_bind_eq_Inl dest: layout_error)

lemma geometry_errors:
  "get_selection_rectangle ps g = Inl e \<Longrightarrow> view_error e"
  "scale_selection x g = Inl e \<Longrightarrow> view_error e"
  "scale_data ps x g = Inl e \<Longrightarrow> view_error e"
  by (auto simp: get_selection_rectangle_def get_position_def scale_selection_def scale_data_def py_bind_eq_Inl
      dest: num_errors)

lemma motion_error: "motion_notify ps x y v = Inl e \<Longrightarrow> view_error e"
  by (auto simp: motion_notify_def motion_left_def motion_right_def motion_both_def motion_top_def Let_def py_bind_eq_Inl
      split: if_splits dest: num_errors range_errors geometry_errors)

lemma release_error: "button_release ps v = Inl e \<Longrightarrow> view_error e"
  by (auto simp: button_release_def py_bind_eq_Inl split: if_splits dest: num_errors range_errors geometry_errors)

lemma handle_error: "handle ps v ev = Inl e \<Longrightarrow> view_error e"
  by (cases ev)
    (auto simp: handle_def set_smaller_zoom_def set_bigger_zoom_def button_press_def size_allocate_def Let_def py_bind_eq_Inl
      split: if_splits dest: num_errors range_errors geometry_errors layout_error motion_error release_error)

interpretation viewer: guarded_run "handle ps" "view_ok b" view_error for ps b
  by unfold_locales (auto intro: handle_ok handle_error)

lemma lookup_all_error: "lookup_all ns cs = Inl e \<Longrightarrow> e = IndexError"
proof (induction ns arbitrary: cs)
  case Nil
  then show ?case by simp
next
  case (Cons n ns)
  have "colors_lookup n cs = Inl e \<Longrightarrow> e = IndexError"
    using colors_lookup_known [of cs n] colors_lookup_new [of cs n]
    by (cases "has_key (col_dict cs) n") (auto split: if_splits)
  with Cons show ?case by (auto simp: py_bind_eq_Inl split: prod.splits)
qed

section \<open>Exact divisions\<close>

definition is_float :: "pynum \<Rightarrow> bool" where
  "is_float a \<longleftrightarrow> (\<exists>r. a = PyFloat r)"

lemma is_float_op [simp]:
  "is_float a \<Longrightarrow> is_float (num_sub a b)" "is_float a \<Longrightarrow> is_float (num_mult a b)" "is_float a \<Longrightarrow> is_float (num_add a b)"
  by (auto simp: is_float_def num_sub_def num_mult_def num_add_def num_op_def)

lemma num_div_exact:
  assumes "num_val b \<noteq> 0" "is_float a \<or> num_val a = 0"
  shows "\<exists>q. num_div a b = Inr q \<and> num_val q = num_val a / num_val b \<and> (is_float a \<longrightarrow> is_float q)"
  using assms by (cases a; cases b) (auto simp: num_div_def num_op_def is_float_def)

text \<open>The bottom scale shows the whole trace, which starts at time 0, on the whole width.\<close>

definition zero_based :: "graphic \<Rightarrow> bool" where
  "zero_based g \<longleftrightarrow> num_val (g_start g) = 0 \<and> num_val (sc_lo (bot_scale g)) = 0 \<and>
     num_val (sc_hi (bot_scale g)) = num_val (g_end g) \<and> sc_width (bot_scale g) = g_width g \<and>
     0 < num_val (g_end g) \<and> 0 < num_val (g_width g)"

lemma position_exact:
  assumes "zero_based g" "is_float x \<or> num_val x = 0"
  shows "\<exists>p. get_position (bot_scale g) x = Inr p \<and> num_val p = num_val x * num_val (g_width g) / num_val (g_end g) \<and>
    (is_float x \<longrightarrow> is_float p)"
proof -
  let ?s = "bot_scale g"
  have "is_float (num_mult (num_sub x (sc_lo ?s)) (sc_width ?s)) \<or> num_val (num_mult (num_sub x (sc_lo ?s)) (sc_width ?s)) = 0"
    using assms by (auto simp: zero_based_def)
  from num_div_exact [OF _ this, of "num_sub (sc_hi ?s) (sc_lo ?s)"] assms show ?thesis
    by (auto simp: get_position_def zero_based_def)
qed

lemma selection_exact:
  assumes "zero_based g" "is_float x \<or> num_val x = 0"
  shows "\<exists>q. scale_selection x g = Inr q \<and> num_val q = num_val x / num_val (g_width g) * num_val (g_end g) \<and>
    (is_float x \<longrightarrow> is_float q)"
  using num_div_exact [OF _ assms(2), of "g_width g"] assms(1) by (auto simp: scale_selection_def zero_based_def)

lemma zero_based_set_range:
  "set_range ps a b g = Inr g' \<Longrightarrow> zero_based g \<Longrightarrow> zero_based g'"
  by (simp add: zero_based_def set_range_fields)

text \<open>Where the left edge is put for a pointer at \<open>e\<close>.\<close>

lemma drag_left_selection:
  assumes z: "zero_based g" and "is_float (r_lo g)" "is_float (r_hi g)"
    and r: "get_selection_rectangle ps g = Inr (x, y, w, h)"
    and hi: "0 \<le> num_val (r_hi g)" "num_val (r_hi g) \<le> num_val (g_end g)"
    and cur: "cur = (if e \<le> 0 then PyInt 0 else if num_val x + num_val w \<le> e then num_add x w else PyFloat e)"
    and left: "scale_selection cur g = Inr l" and g': "set_range ps l (r_hi g) g = Inr g'"
  shows "num_val (r_hi g') = num_val (r_hi g) \<and>
    (\<exists>p. get_position (bot_scale g') (r_lo g') = Inr p \<and> num_val p = max 0 (min (num_val x + num_val w) e))"
proof -
  let ?W = "num_val (g_width g)" and ?E = "num_val (g_end g)"
  have pos: "0 < ?W" "0 < ?E" and start: "num_val (g_start g) = 0" using z by (auto simp: zero_based_def)
  obtain p q where "get_position (bot_scale g) (r_lo g) = Inr p" "is_float p"
      "get_position (bot_scale g) (r_hi g) = Inr q" "num_val q = num_val (r_hi g) * ?W / ?E"
    using position_exact [OF z] assms(2,3) by blast
  then have xw: "num_val x + num_val w = num_val (r_hi g) * ?W / ?E" "is_float x"
    using r by (auto simp: get_selection_rectangle_def)
  then have xw0: "0 \<le> num_val x + num_val w" using hi(1) pos by simp
  have c: "num_val cur = max 0 (min (num_val x + num_val w) e)" using xw0 by (auto simp: cur)
  have cf: "is_float cur \<or> num_val cur = 0" using xw(2) by (simp add: cur) (simp add: is_float_def)
  have l: "num_val l = num_val cur / ?W * ?E" "is_float cur \<longrightarrow> is_float l"
    using selection_exact [OF z cf] left by auto
  have "num_val cur \<le> num_val (r_hi g) * ?W / ?E" "0 \<le> num_val cur" using c xw(1) xw0 by simp_all
  then have lb: "0 \<le> num_val l" "num_val l \<le> num_val (r_hi g)" using pos by (simp_all add: l(1) field_simps)
  have lf: "is_float l \<or> num_val l = 0" using cf l by auto
  note f = set_range_fields [OF g']
  have lo: "num_val (r_lo g') = num_val l" using lb start by (simp add: f)
  have "is_float (r_lo g') \<or> num_val (r_lo g') = 0"
    using lf lb start assms(3) by (auto simp: f num_max_def num_min_def)
  from position_exact [OF zero_based_set_range [OF g' z] this] obtain p where
    "get_position (bot_scale g') (r_lo g') = Inr p" "num_val p = num_val l * ?W / ?E"
    unfolding lo f(2,3) by blast
  moreover have "num_val l * ?W / ?E = num_val cur" using pos by (simp add: l(1))
  ultimately show ?thesis using c hi lb by (auto simp: f)
qed

section \<open>Properties\<close>


text \<open>
  The ticks of a scale. Unless the bounds are exactly 1 apart the layout succeeds, and
  the numbered ticks are the multiples of its distance after the lower bound up to the
  upper one, in order, and never more than twenty. With bounds 1 apart the distance is 0
  and the layout raises \<open>ZeroDivisionError\<close>.
\<close>

lemma scale_layout_ticks:
  assumes "num_val (sc_lo s) \<le> num_val (sc_hi s)"
  shows "if num_val (sc_hi s) - num_val (sc_lo s) = 1 then scale_layout w s = Inl ZeroDivisionError
    else \<exists>s' ticks subticks. scale_layout w s = Inr s' \<and> 0 < sc_delta s' \<and> scale_marks s' = Inr (ticks, subticks) \<and>
      set ticks = {k. sc_delta s' dvd k \<and> num_val (sc_lo s) < of_int k \<and> of_int k \<le> num_val (sc_hi s)} \<and>
      sorted_wrt (<) ticks \<and> length ticks \<le> 20"
proof -
  obtain d where d: "scale_delta (sc_lo s) (sc_hi s) = Inr d"
    "if num_val (sc_hi s) - num_val (sc_lo s) = 1 then d = 0
     else 0 < d \<and> num_val (sc_hi s) - num_val (sc_lo s) \<le> 20 * of_int d"
    using scale_delta_spec [OF assms] by blast
  show ?thesis
  proof (cases "num_val (sc_hi s) - num_val (sc_lo s) = 1")
    case True
    then show ?thesis using d by (simp add: scale_layout_def scale_ends_def num_mod_def)
  next
    case False
    then have pos: "0 < d" and wide: "num_val (sc_hi s) - num_val (sc_lo s) \<le> 20 * of_int d" using d(2) by auto
    let ?s = "s\<lparr>sc_delta := d, sc_width := w\<rparr>"
    let ?ticks = "map ((*) d) [\<lfloor>num_val (sc_lo s) / of_int d\<rfloor> + 1..\<lfloor>num_val (sc_hi s) / of_int d\<rfloor>]"
    have "scale_layout w s = Inr ?s" using d(1) scale_ends_val [OF pos, of s] by (auto simp: scale_layout_def)
    moreover have "\<exists>subticks. scale_marks ?s = Inr (?ticks, subticks)"
      by (cases "0 < d div 10") (simp_all add: scale_marks_def tick_values_eq pos)
    ultimately show ?thesis
      using False pos multiples_between [OF pos] multiples_sorted [OF pos] multiples_count [OF pos wide]
      by (auto simp: exI [of _ ?s])
  qed
qed

text \<open>
  Dragging the left edge of the selection. For a trace that starts at time 0, pressing
  the button near the left edge, moving to a position and releasing it puts the left edge
  exactly there, or at the border of the window or the right edge when the position is
  beyond them, and leaves the end of the displayed range where it was.
\<close>

lemma drag_left_edge:
  assumes "zero_based (data v)" "is_float (r_lo (data v))" "is_float (r_hi (data v))"
    "0 \<le> num_val (r_hi (data v))" "num_val (r_hi (data v)) \<le> num_val (g_end (data v))"
    "get_selection_rectangle ps (data v) = Inr (x, y, w, h)" "strictly_in py y h" "near px (num_val x)"
    "run_steps (handle ps) v [Press px py, Motion (PyFloat e) ey, Release] = Inr v'"
  shows "num_val (r_hi (data v')) = num_val (r_hi (data v)) \<and>
    (\<exists>p. get_position (bot_scale (data v')) (r_lo (data v')) = Inr p \<and> num_val p = max 0 (min (num_val x + num_val w) e))"
proof -
  let ?cur = "if e \<le> 0 then PyInt 0 else if num_val x + num_val w \<le> e then num_add x w else PyFloat e"
  let ?v1 = "v\<lparr>moving_left := True\<rparr>"
  let ?v2 = "?v1\<lparr>moving_left_cur := Some ?cur\<rparr>"
  have "handle ps v (Press px py) = Inr ?v1" using assms(6-8) by (simp add: handle_def button_press_def)
  moreover have "handle ps ?v1 (Motion (PyFloat e) ey) = Inr u \<Longrightarrow> u = ?v2" for u
    using assms(6) by (auto simp: handle_def motion_notify_def motion_left_def Let_def)
  ultimately have "handle ps ?v2 Release = Inr v'" using assms(9) by auto
  then obtain l g' where "scale_selection ?cur (data v) = Inr l" "set_range ps l (r_hi (data v)) (data v) = Inr g'"
    "data v' = g'"
    by (auto simp: handle_def button_release_def attr_def view_range_def)
  with drag_left_selection [OF assms(1-3,6,4,5) refl] show ?thesis by blast
qed

definition demo_panes :: panes where
  "demo_panes = \<lparr>legend_of_width = \<lambda>_. PyInt 20, data_x_start = PyInt 50, data_height = PyInt 60, scale_height = PyInt 20\<rparr>"

definition demo_view :: view where
  "demo_view = (new_view ((new_graphic 0 200)\<lparr>r_lo := PyFloat 50, r_hi := PyFloat 150, g_width := PyInt 400,
      g_height := PyInt 200, mid_scale := set_bounds (PyFloat 50) (PyFloat 150) new_scale,
      bot_scale := \<lparr>sc_lo = PyInt 0, sc_hi = PyInt 200, sc_delta = 100, sc_width = PyInt 400\<rparr>\<rparr>))
     \<lparr>v_width := Some (PyInt 400)\<rparr>"


end
