(* ===== verification/Waf_Command.thy ===== *)
theory Waf_Command
  imports Shell_Cmd
begin

text \<open>
  \<^verbatim>\<open>waf-tools/command.py\<close>: a build task that runs a shell command. The command line is parsed by
  \<open>shellcmd\<close>, then variables are replaced in each part of the pipeline, then the pipeline is run. The
  evaluation of an expression by the interpreter is the parameter \<open>ev\<close>. It is shown that a
  replacement never changes the structure of the pipeline, whatever the values contain.
\<close>

section \<open>Values\<close>

record wnode =
  bld_abspath :: string
  srcpath :: string
  nice_path :: string

text \<open>What an expression can evaluate to: a node, the inputs or the outputs of the task, a list, or a string.\<close>

datatype subst_value = VNode wnode | VInputs | VOutputs | VList "string list" | VStr string

record task =
  inputs :: "wnode list"
  outputs :: "wnode list"

definition repl :: "task \<Rightarrow> string \<Rightarrow> subst_value \<Rightarrow> string py" where
  "repl t var result =
     (case result of
        VNode n \<Rightarrow>
          if var = ''TGT'' then Inr (bld_abspath n)
          else if var = ''SRC'' then Inr (srcpath n)
          else Inl ValueError
      | VInputs \<Rightarrow> (case inputs t of [n] \<Rightarrow> Inr (srcpath n) | _ \<Rightarrow> Inl ValueError)
      | VOutputs \<Rightarrow> (case outputs t of [n] \<Rightarrow> Inr (bld_abspath n) | _ \<Rightarrow> Inl ValueError)
      | VList xs \<Rightarrow> (case xs of [s] \<Rightarrow> Inr s | _ \<Rightarrow> Inl AssertionError)
      | VStr s \<Rightarrow> Inr s)"

section \<open>Substitution\<close>

text \<open>
  The matches of \<open>(\$\$)|(\$\{(\w+)(.*?)\})\<close>: a double dollar sign, or a name with code up to the next
  closing brace on the same line.
\<close>

abbreviation dollar :: char where
  "dollar \<equiv> CHR 0x24"

definition match_var :: "string \<Rightarrow> (string \<times> string \<times> string) option" where
  "match_var s =
     (let var = takeWhile word_char s;
          rest = dropWhile word_char s;
          code = takeWhile (\<lambda>c. c \<noteq> CHR 0x7D) rest;
          after = dropWhile (\<lambda>c. c \<noteq> CHR 0x7D) rest
      in if var = [] \<or> after = [] \<or> CHR 0x0A \<in> set code then None else Some (var, code, tl after))"

lemma match_var_shorter: "match_var s = Some (v, c, r) \<Longrightarrow> length r < length s"
proof -
  assume m: "match_var s = Some (v, c, r)"
  let ?d = "dropWhile (\<lambda>c. c \<noteq> CHR 0x7D) (dropWhile word_char s)"
  have "length ?d \<le> length s" by (meson length_dropWhile_le order_trans)
  moreover have "?d \<noteq> []" "r = tl ?d" using m by (auto simp: match_var_def Let_def split: if_splits)
  ultimately show ?thesis by (cases ?d) auto
qed

text \<open>\<open>ev\<close> gives the value of \<open>var + code\<close> in the namespace.\<close>

function subst_arg :: "(string \<Rightarrow> string \<Rightarrow> subst_value py) \<Rightarrow> task \<Rightarrow> string \<Rightarrow> string py" where
  "subst_arg ev t [] = Inr []"
| "subst_arg ev t (c # cs) =
     (if c = dollar \<and> startswith cs [dollar] then
        py_bind (subst_arg ev t (tl cs)) (\<lambda>s. Inr (dollar # s))
      else
        (case (if c = dollar \<and> startswith cs [CHR 0x7B] then match_var (tl cs) else None) of
           Some (var, code, rest) \<Rightarrow>
             py_bind (py_bind (ev var code) (repl t var)) (\<lambda>v.
             py_bind (subst_arg ev t rest) (\<lambda>s. Inr (v @ s)))
         | None \<Rightarrow> py_bind (subst_arg ev t cs) (\<lambda>s. Inr (c # s))))"
  by pat_completeness auto
termination
  by (relation "measure (\<lambda>(ev, t, s). length s)")
    (auto simp: startswith_def split: if_splits dest!: match_var_shorter)

definition subst_option :: "(string \<Rightarrow> string \<Rightarrow> subst_value py) \<Rightarrow> task \<Rightarrow> string option \<Rightarrow> string option py" where
  "subst_option ev t v =
     (case v of None \<Rightarrow> Inr None | Some s \<Rightarrow> py_bind (subst_arg ev t s) (\<lambda>s. Inr (Some s)))"

definition subst_redirect :: "(string \<Rightarrow> string \<Rightarrow> subst_value py) \<Rightarrow> task \<Rightarrow> redirect \<Rightarrow> redirect py" where
  "subst_redirect ev t v =
     (case v of ToFile s \<Rightarrow> py_bind (subst_arg ev t s) (\<lambda>s. Inr (ToFile s)) | _ \<Rightarrow> Inr v)"

definition subst_command :: "(string \<Rightarrow> string \<Rightarrow> subst_value py) \<Rightarrow> task \<Rightarrow> command \<Rightarrow> command py" where
  "subst_command ev t c =
     py_bind (subst_option ev t (cmd_stdin c)) (\<lambda>si.
     py_bind (subst_redirect ev t (cmd_stdout c)) (\<lambda>so.
     py_bind (subst_redirect ev t (cmd_stderr c)) (\<lambda>se.
     py_bind (py_map (subst_arg ev t) (cmd_argv c)) (\<lambda>argv.
     py_bind (py_map (\<lambda>(k, v). py_bind (subst_arg ev t v) (\<lambda>v. Inr (k, v))) (cmd_env_vars c)) (\<lambda>env.
       Inr (c\<lparr>cmd_stdin := si, cmd_stdout := so, cmd_stderr := se, cmd_argv := argv, cmd_env_vars := env\<rparr>))))))"

text \<open>The operators are left alone; a \<open>cd\<close> without a directory raises.\<close>

fun subst_node :: "(string \<Rightarrow> string \<Rightarrow> subst_value py) \<Rightarrow> task \<Rightarrow> node \<Rightarrow> node py" where
  "subst_node ev t (Command c) = py_bind (subst_command ev t c) (\<lambda>c. Inr (Command c))"
| "subst_node ev t (Chdir None) = Inl TypeError"
| "subst_node ev t (Chdir (Some d)) = py_bind (subst_arg ev t d) (\<lambda>d. Inr (Chdir (Some d)))"
| "subst_node ev t Pipe = Inr Pipe"
| "subst_node ev t And = Inr And"
| "subst_node ev t Or = Inr Or"

section \<open>The task\<close>

text \<open>
  The namespace: the environment, the variables of the generator over it, and \<open>env\<close>, \<open>SRC\<close> and \<open>TGT\<close> over
  both. A name alone is looked up; other expressions are evaluated by \<open>interpreter\<close>.
\<close>

definition merged_namespace :: "(string, subst_value) dict \<Rightarrow> (string, subst_value) dict option \<Rightarrow> (string, subst_value) dict" where
  "merged_namespace env variables =
     foldl (\<lambda>d x. AList.update (fst x) (snd x) d) env
       ((case variables of None \<Rightarrow> [] | Some vs \<Rightarrow> vs) @ [(''SRC'', VInputs), (''TGT'', VOutputs)])"

definition eval_in ::
  "((string, subst_value) dict \<Rightarrow> string \<Rightarrow> subst_value py) \<Rightarrow> (string, subst_value) dict \<Rightarrow> string \<Rightarrow> string \<Rightarrow> subst_value py" where
  "eval_in interpreter namespace var code =
     (case (if code = [] then map_of namespace var else None) of
        Some v \<Rightarrow> Inr v
      | None \<Rightarrow> interpreter namespace (var @ code))"

definition task_run ::
  "((string, subst_value) dict \<Rightarrow> string \<Rightarrow> subst_value py) \<Rightarrow> os \<Rightarrow> task \<Rightarrow> cmd_arg \<Rightarrow> (string, subst_value) dict \<Rightarrow>
   (string, subst_value) dict option \<Rightarrow> bool \<Rightarrow> (int option \<times> event list) py" where
  "task_run interpreter w t command env variables verbose =
     py_bind (parse command) (\<lambda>nodes.
     py_bind (py_map (subst_node (eval_in interpreter (merged_namespace env variables)) t) nodes) (\<lambda>nodes.
       run w nodes verbose))"

definition task_str :: "task \<Rightarrow> cmd_arg \<Rightarrow> string py" where
  "task_str t command =
     py_bind (parse command) (\<lambda>nodes.
       Inr (''command ('' @ get_abbreviated_command nodes @ ''): '' @
            py_join '' '' (map nice_path (inputs t)) @ (if outputs t \<noteq> [] then '' -> '' else []) @
            py_join '' '' (map nice_path (outputs t)) @ nl))"

text \<open>The task that a generator creates; \<open>declare\<close> finds or declares a target.\<close>

definition apply_command :: "(string \<Rightarrow> wnode) \<Rightarrow> wnode list \<Rightarrow> string list \<Rightarrow> task" where
  "apply_command declare source target = \<lparr>inputs = source, outputs = map declare target\<rparr>"

section \<open>A substitution keeps the pipeline\<close>

text \<open>Doubling the dollar signs of a text protects it.\<close>

definition escape_dollars :: "string \<Rightarrow> string" where
  "escape_dollars s = concat (map (\<lambda>c. if c = dollar then [dollar, dollar] else [c]) s)"

lemma py_bind_Inr [simp]: "py_bind m Inr = m"
  by (cases m) simp_all

lemma subst_arg_escaped: "subst_arg ev t (escape_dollars s @ r) = py_bind (subst_arg ev t r) (\<lambda>r. Inr (s @ r))"
  by (induction s) (simp_all add: escape_dollars_def startswith_def py_bind_assoc)

text \<open>What a substitution leaves alone: the kind of each node and the direction of each redirection.\<close>

fun same_redirect :: "redirect \<Rightarrow> redirect \<Rightarrow> bool" where
  "same_redirect (ToFile _) r = (\<exists>f. r = ToFile f)"
| "same_redirect q r = (q = r)"

fun same_shape :: "node \<Rightarrow> node \<Rightarrow> bool" where
  "same_shape (Command c) n =
     (\<exists>d. n = Command d \<and> cmd_name d = cmd_name c \<and> length (cmd_argv d) = length (cmd_argv c) \<and>
       (cmd_stdin d = None) = (cmd_stdin c = None) \<and>
       same_redirect (cmd_stdout c) (cmd_stdout d) \<and> same_redirect (cmd_stderr c) (cmd_stderr d) \<and>
       map fst (cmd_env_vars d) = map fst (cmd_env_vars c))"
| "same_shape (Chdir d) n = (d \<noteq> None \<and> (\<exists>e. n = Chdir (Some e)))"
| "same_shape m n = (m = n)"

lemma same_redirect_kinds:
  "same_redirect q r \<Longrightarrow> (r = ToPIPE) = (q = ToPIPE)" "same_redirect q r \<Longrightarrow> (r = ToSTDOUT) = (q = ToSTDOUT)"
  by (cases q; auto)+

lemma same_shape_simps [simp]:
  "same_shape m Pipe = (m = Pipe)" "same_shape m And = (m = And)" "same_shape m Or = (m = Or)"
  "same_shape m (Chdir None) = False"
  by (cases m; auto)+

lemma subst_redirect_same: "subst_redirect ev t q = Inr r \<Longrightarrow> same_redirect q r"
  by (cases q) (auto simp: subst_redirect_def py_bind_eq_Inr)

lemma subst_option_same: "subst_option ev t q = Inr r \<Longrightarrow> (r = None) = (q = None)"
  by (auto simp: subst_option_def py_bind_eq_Inr split: option.splits)

lemma subst_env_same:
  "py_map (\<lambda>(k, v). py_bind (f v) (\<lambda>v. Inr (k, v))) env = Inr env' \<Longrightarrow> map fst env' = map fst env"
  by (induction env arbitrary: env') (auto simp: py_bind_eq_Inr)

lemma py_map_length: "py_map f xs = Inr ys \<Longrightarrow> length ys = length xs"
  by (simp add: py_map_list_all2 list_all2_lengthD)

lemma subst_node_same: "subst_node ev t m = Inr n \<Longrightarrow> same_shape m n"
proof (cases m)
  case (Command c)
  assume "subst_node ev t m = Inr n"
  then show ?thesis
    unfolding Command
    by (auto simp: subst_command_def py_bind_eq_Inr subst_redirect_same subst_env_same py_map_length
        dest: subst_option_same)
next
  case (Chdir d)
  then show "subst_node ev t m = Inr n \<Longrightarrow> same_shape m n"
    by (cases d) (auto simp: py_bind_eq_Inr)
qed auto

lemma subst_nodes_same:
  "py_map (subst_node ev t) ns = Inr ns' \<Longrightarrow> list_all2 same_shape ns ns'"
  unfolding py_map_list_all2 by (erule list_all2_mono) (rule subst_node_same)

lemma same_shape_wf_ops: "list_all2 same_shape ns ns' \<Longrightarrow> wf_ops ns \<Longrightarrow> wf_ops ns'"
  by (induction ns arbitrary: ns' rule: wf_ops.induct)
    (auto simp: list_all2_Cons1 same_redirect_kinds)

lemma same_shape_wf: "list_all2 same_shape ns ns' \<Longrightarrow> wf_pipeline ns \<Longrightarrow> wf_pipeline ns'"
proof (cases ns rule: rev_cases)
  case (snoc ms m)
  assume a: "list_all2 same_shape ns ns'" "wf_pipeline ns"
  then obtain ms' m' where n: "ns' = ms' @ [m']" "list_all2 same_shape ms ms'" "same_shape m m'"
    unfolding snoc by (auto simp: list_all2_append1 list_all2_Cons1)
  from a(2) have "wf_ops ms" "last_operand m" by (simp_all add: wf_pipeline_def snoc)
  with n show ?thesis
    by (cases m) (auto simp: wf_pipeline_def same_redirect_kinds dest: same_shape_wf_ops)
qed (simp add: wf_pipeline_def)

lemma same_shape_runs:
  "list_all2 same_shape ns ns' \<Longrightarrow> list_all node_runs ns \<Longrightarrow> list_all node_runs ns'"
proof (induction rule: list_all2_induct)
  case (Cons m ms n ns)
  then show ?case by (cases m) (auto simp: same_redirect_kinds)
qed simp

lemma same_shape_groups:
  "list_all2 same_shape ns ns' \<Longrightarrow> wf_pipeline ns \<Longrightarrow> groups k ns' = groups k ns"
proof (induction k ns arbitrary: ns' rule: groups.induct)
  case (1 k d op ns)
  then show ?case by (cases op) (auto simp: list_all2_Cons1 wf_pipeline_Cons2)
next
  case (3 k c op ns)
  then show ?case by (cases op) (auto simp: list_all2_Cons1 wf_pipeline_Cons2)
qed (auto simp: list_all2_Cons1)

lemma same_shape_runnable:
  "list_all2 same_shape ns ns' \<Longrightarrow> wf_pipeline ns \<Longrightarrow> runnable ns \<Longrightarrow> runnable ns'"
proof (induction ns arbitrary: ns' rule: runnable.induct, goal_cases)
  case (3 d n ns)
  then show ?case by (cases n) (auto simp: list_all2_Cons1 wf_pipeline_Cons2)
next
  case (8 v op ns)
  then show ?case by (cases op) (auto simp: list_all2_Cons1 wf_pipeline_Cons2)
qed (auto simp: list_all2_Cons1 wf_pipeline_Cons2 wf_pipeline_def)

section \<open>Properties\<close>

text \<open>
  Doubling every dollar sign of a text before it is put into a command keeps it: whatever the
  variables are, the substitution gives the text back, without evaluating anything.
\<close>

lemma subst_arg_roundtrip: "subst_arg ev t (escape_dollars s) = Inr s"
  using subst_arg_escaped [of ev t s "[]"] by simp

text \<open>
  C10: on an operating system that opens every file and starts every program, a task whose command
  parses to a pipeline (without an operand-less \<open>cd\<close> and not ending in a \<open>cd\<close>) and whose
  substitutions succeed returns the status that the operators of the command as written give, and
  starts as many processes: no value of a variable adds, drops or rejoins a command, whatever it
  contains, since the values are put into the parsed pipeline.
\<close>

theorem task_run_as_written:
  assumes "friendly w" "parse_tokens ts = Inr ns" "runnable ns"
    and "\<And>n. n \<in> set ns \<Longrightarrow> \<exists>m. subst_node (eval_in interpreter (merged_namespace env variables)) t n = Inr m"
  shows "\<exists>status ev. task_run interpreter w t (Tokens ts) env variables False = Inr (Some status, ev) \<and>
     chain_status (exit_code w) 0 (groups 0 ns) = (Some status, length (spawned ev))"
proof -
  let ?f = "subst_node (eval_in interpreter (merged_namespace env variables)) t"
  from assms(4) obtain g where "\<And>n. n \<in> set ns \<Longrightarrow> ?f n = Inr (g n)" by metis
  then have m: "py_map ?f ns = Inr (map g ns)" by (rule py_map_Inr)
  note same = subst_nodes_same [OF m] and p = parse_tokens_runs [OF assms(2)]
  have "wf_pipeline (map g ns)" "list_all node_runs (map g ns)" "runnable (map g ns)"
    using same_shape_wf [OF same] same_shape_runs [OF same] same_shape_runnable [OF same] p assms(3)
    by blast+
  from run_result [OF assms(1) this] same_shape_groups [OF same] p
  show ?thesis by (auto simp: task_run_def parse_def assms(2) m)
qed

theorem task_run_as_written_witness:
  "\<exists>ev. task_run (\<lambda>_ _. Inl NameError)
       \<lparr>can_open = \<lambda>_. True, can_spawn = \<lambda>_. True, exit_code = \<lambda>_. 0, environ = []\<rparr>
       \<lparr>inputs = [\<lparr>bld_abspath = ''/b/a'', srcpath = ''a && rm'', nice_path = ''a''\<rparr>], outputs = []\<rparr>
       (Tokens [''cat'', ''${SRC}'', ''|'', ''wc'']) [] None False = Inr (Some 0, ev) \<and>
     length (spawned ev) = 2"
proof -
  let ?w = "\<lparr>can_open = \<lambda>_. True, can_spawn = \<lambda>_. True, exit_code = \<lambda>_. 0, environ = []\<rparr>"
  let ?t = "\<lparr>inputs = [\<lparr>bld_abspath = ''/b/a'', srcpath = ''a && rm'', nice_path = ''a''\<rparr>], outputs = []\<rparr>"
  let ?c = "new_command ''cat''\<lparr>cmd_argv := [''cat'', ''${SRC}''], cmd_stdout := ToPIPE\<rparr>"
  let ?ns = "[Command ?c, Pipe, Command (new_command ''wc'')]"
  let ?f = "subst_node (eval_in (\<lambda>_ _. Inl NameError) (merged_namespace [] None)) ?t"
  have p: "parse_tokens [''cat'', ''${SRC}'', ''|'', ''wc''] = Inr ?ns" by code_simp
  have w: "friendly ?w" by (simp add: friendly_def)
  have r: "runnable ?ns" by code_simp
  have "?f (Command ?c) = Inr (Command (?c\<lparr>cmd_argv := [''cat'', ''a && rm'']\<rparr>))"
    "?f Pipe = Inr Pipe" "?f (Command (new_command ''wc'')) = Inr (Command (new_command ''wc''))"
    by code_simp+
  then have f: "\<And>n. n \<in> set ?ns \<Longrightarrow> \<exists>m. ?f n = Inr m" by auto
  have c: "chain_status (exit_code ?w) 0 (groups 0 ?ns) = (Some 0, 2)" by simp
  from task_run_as_written [OF w p r f] c show ?thesis by auto
qed

end
