(* ===== verification/Py_Text.thy ===== *)
theory Py_Text
  imports Py_Prelude "HOL-Library.List_Lexorder" "HOL-Library.Char_ord"
begin

text \<open>
  Texts as the binding and module generators handle them: \<open>os.path.split\<close>, the replacement of
  a character, \<open>repr\<close> of strings and lists of strings in Python 2, and the reading of such a
  literal by the interpreter. The main facts are that a path is taken apart into its
  components, and that reading inverts \<open>repr\<close>.
\<close>

named_theorems path_simps \<open>taking paths apart\<close>

section \<open>Paths\<close>

text \<open>
  \<open>os.path.split\<close> on a POSIX system: the tail is what follows the last slash, and the head
  loses its trailing slashes unless it consists of slashes only.
\<close>

abbreviation slash :: char where
  "slash \<equiv> CHR ''/''"

definition path_split :: "string \<Rightarrow> string \<times> string" where
  "path_split p =
     (let tail = rev (takeWhile (\<lambda>c. c \<noteq> slash) (rev p));
          head = rev (dropWhile (\<lambda>c. c \<noteq> slash) (rev p))
      in (if list_all (\<lambda>c. c = slash) head then head
          else rev (dropWhile (\<lambda>c. c = slash) (rev head)), tail))"

definition path_dirname :: "string \<Rightarrow> string" where
  "path_dirname p = fst (path_split p)"

definition path_basename :: "string \<Rightarrow> string" where
  "path_basename p = snd (path_split p)"

text \<open>\<open>os.path.join(*parts)\<close>, which needs at least one argument.\<close>

definition path_join_all :: "string list \<Rightarrow> string py" where
  "path_join_all ps = (case ps of [] \<Rightarrow> Inl TypeError | a # qs \<Rightarrow> Inr (foldl path_join a qs))"

definition replace_char :: "char \<Rightarrow> char \<Rightarrow> string \<Rightarrow> string" where
  "replace_char a b s = map (\<lambda>c. if c = a then b else c) s"

abbreviation path_parts :: "string \<Rightarrow> string list" where
  "path_parts p \<equiv> split_char slash p"

lemma takeWhile_free [simp]: "c \<notin> set b \<Longrightarrow> takeWhile (\<lambda>x. x \<noteq> c) (b @ c # xs) = b"
  by (induction b) auto

lemma dropWhile_free [simp]: "c \<notin> set b \<Longrightarrow> dropWhile (\<lambda>x. x \<noteq> c) (b @ c # xs) = c # xs"
  by (induction b) auto

lemma takeWhile_all [simp]: "c \<notin> set b \<Longrightarrow> takeWhile (\<lambda>x. x \<noteq> c) b = b"
  by (induction b) auto

lemma dropWhile_all [simp]: "c \<notin> set b \<Longrightarrow> dropWhile (\<lambda>x. x \<noteq> c) b = []"
  by (induction b) auto

lemma path_split_free [path_simps]: "slash \<notin> set b \<Longrightarrow> path_split b = ([], b)"
  by (simp add: path_split_def Let_def)

lemma path_split_root [path_simps]:
  assumes "slash \<notin> set b" and "list_all (\<lambda>c. c = slash) a"
  shows "path_split (a @ slash # b) = (a @ [slash], b)"
proof -
  have "slash \<notin> set (rev b)" using assms(1) by simp
  note rev_b = takeWhile_free [OF this] dropWhile_free [OF this]
  show ?thesis using assms(2) by (simp add: path_split_def Let_def rev_b)
qed

lemmas path_split_root_Nil [path_simps] = path_split_root [of _ "[]", simplified]

text \<open>Every path has one of these three forms.\<close>

lemma path_cases:
  obtains (free) "slash \<notin> set p"
  | (root) a b where "p = a @ slash # b" "slash \<notin> set b" "list_all (\<lambda>c. c = slash) a"
  | (head) a k b where "p = a @ replicate k slash @ slash # b" "slash \<notin> set b" "a \<noteq> []" "last a \<noteq> slash"
proof (cases "slash \<in> set p")
  case False
  then show ?thesis by (rule free)
next
  case True
  then obtain a b where p: "p = a @ slash # b" and b: "slash \<notin> set b"
    using split_list_last [of slash p] by blast
  show ?thesis
  proof (cases "list_all (\<lambda>c. c = slash) a")
    case True
    then show ?thesis using root p b by blast
  next
    case False
    let ?k = "length (takeWhile (\<lambda>c. c = slash) (rev a))"
    let ?h = "rev (dropWhile (\<lambda>c. c = slash) (rev a))"
    have t: "takeWhile (\<lambda>c. c = slash) (rev a) = replicate ?k slash"
      by (metis (full_types) replicate_eqI set_takeWhileD)
    have "rev a = replicate ?k slash @ dropWhile (\<lambda>c. c = slash) (rev a)"
      by (metis t takeWhile_dropWhile_id)
    then have a: "a = ?h @ replicate ?k slash" by (metis rev_append rev_replicate rev_rev_ident)
    have ne: "dropWhile (\<lambda>c. c = slash) (rev a) \<noteq> []" using False by (auto simp: dropWhile_eq_Nil_conv list_all_iff)
    then have "?h \<noteq> []" "last ?h \<noteq> slash" using hd_dropWhile [OF ne] by (simp_all add: last_rev)
    then show ?thesis using head [of ?h ?k b] p a b by (metis append_assoc)
  qed
qed

lemma path_parts_snoc: "slash \<notin> set b \<Longrightarrow> path_parts (a @ slash # b) = path_parts a @ [b]"
proof (induction a)
  case Nil
  have "path_parts b = [b]" using Nil by (induction b) auto
  then show ?case by simp
next
  case (Cons c a)
  then show ?case by (auto split: list.splits)
qed

lemma path_split_heads [path_simps]:
  assumes "slash \<notin> set b" and "a \<noteq> []" and "last a \<noteq> slash"
  shows "path_split (a @ replicate k slash @ slash # b) = (a, b)"
proof -
  obtain a' c where a: "a = a' @ [c]" and c: "c \<noteq> slash" using assms(2,3) by (cases a rule: rev_cases) auto
  have drop: "dropWhile (\<lambda>c. c = slash) (replicate k slash @ c # rev a') = c # rev a'"
    using c by (induction k) auto
  have "slash \<notin> set (rev b)" using assms(1) by simp
  note rev_b = takeWhile_free [OF this] dropWhile_free [OF this]
  show ?thesis using c drop by (simp add: path_split_def Let_def rev_b a)
qed

lemma path_parts_slashes: "set (path_parts (a @ replicate k slash)) \<subseteq> insert [] (set (path_parts a))"
proof (induction k)
  case (Suc k)
  have "path_parts (a @ replicate (Suc k) slash) = path_parts (a @ replicate k slash) @ [[]]"
    using path_parts_snoc [of "[]" "a @ replicate k slash"] by (simp add: replicate_append_same [symmetric])
  then show ?case using Suc by auto
qed auto

lemma path_parts_slashes_super: "set (path_parts a) \<subseteq> set (path_parts (a @ replicate k slash))"
proof (induction k)
  case (Suc k)
  have "path_parts (a @ replicate (Suc k) slash) = path_parts (a @ replicate k slash) @ [[]]"
    using path_parts_snoc [of "[]" "a @ replicate k slash"] by (simp add: replicate_append_same [symmetric])
  then show ?case using Suc by auto
qed simp

lemma path_parts_root: "list_all (\<lambda>c. c = slash) a \<Longrightarrow> set (path_parts a) = {[]}"
  by (induction a) auto

text \<open>What a component other than the empty one is: the tail, or a component of the head.\<close>

lemma path_parts_split:
  assumes "n \<noteq> []"
  shows "n \<in> set (path_parts p) \<longleftrightarrow> n = snd (path_split p) \<or> n \<in> set (path_parts (fst (path_split p)))"
proof (cases p rule: path_cases)
  case free
  then have "path_parts p = [p]" by (induction p) auto
  then show ?thesis using free assms by (simp add: path_simps)
next
  case (root a b)
  then show ?thesis using assms path_parts_snoc [of "[]" a]
    by (simp add: path_simps path_parts_snoc path_parts_root)
next
  case (head a k b)
  have "n \<in> set (path_parts (a @ replicate k slash)) \<longleftrightarrow> n \<in> set (path_parts a)"
    using assms path_parts_slashes [of a k] path_parts_slashes_super [of a k] by blast
  moreover have "path_parts p = path_parts (a @ replicate k slash) @ [b]"
    using head(1) path_parts_snoc [OF head(2), of "a @ replicate k slash"] by simp
  ultimately show ?thesis using head path_split_heads [OF head(2-4), of k] by auto
qed

lemma path_split_shorter: "length (fst (path_split p)) \<le> length p"
  by (cases p rule: path_cases) (simp_all add: path_simps)

lemma path_split_fixed:
  assumes "p \<noteq> []"
  shows "fst (path_split p) = p \<longleftrightarrow> list_all (\<lambda>c. c = slash) p"
proof (cases p rule: path_cases)
  case free
  then show ?thesis using assms by (cases p) (auto simp: path_split_free)
next
  case (root a b)
  have "fst (path_split p) = a @ [slash]" using root by (simp add: path_split_root)
  moreover have "b \<noteq> [] \<Longrightarrow> \<not> list_all (\<lambda>c. c = slash) b" using root(2) by (cases b) auto
  ultimately show ?thesis using root(1,3) by (cases "b = []") simp_all
next
  case (head a k b)
  have "last a \<in> set a" using head(3) by simp
  then have "\<not> list_all (\<lambda>c. c = slash) a" using head(4) by (auto simp: list_all_iff)
  moreover have "fst (path_split p) = a" using head by (simp add: path_split_heads)
  ultimately show ?thesis unfolding head(1) by simp
qed

lemma path_split_absolute:
  assumes "fst (path_split p) \<noteq> []"
  shows "startswith (fst (path_split p)) [slash] \<longleftrightarrow> startswith p [slash]"
proof (cases p rule: path_cases)
  case free
  then show ?thesis using assms by (simp add: path_split_free)
next
  case (root a b)
  have "fst (path_split p) = a @ [slash]" using root by (simp add: path_split_root)
  then show ?thesis using root(1) by (cases a) (simp_all add: startswith_def)
next
  case (head a k b)
  have "fst (path_split p) = a" using head by (simp add: path_split_heads)
  then show ?thesis using head(1,3) by (cases a) (simp_all add: startswith_def)
qed

definition lines_of :: "string list \<Rightarrow> string" where
  "lines_of ls = concat (map (\<lambda>l. l @ nl) ls)"

section \<open>Cases\<close>

definition char_upper :: "char \<Rightarrow> char" where
  "char_upper c =
     (let n = (of_char c :: nat) in if 97 \<le> n \<and> n \<le> 122 then char_of (n - 32) else c)"

definition char_lower :: "char \<Rightarrow> char" where
  "char_lower c =
     (let n = (of_char c :: nat) in if 65 \<le> n \<and> n \<le> 90 then char_of (n + 32) else c)"

section \<open>Literals\<close>

text \<open>
  \<open>repr\<close> of a string: single quotes unless the string has single and no double ones; the
  quote and the backslash are escaped, and so is every character outside printable ASCII.
\<close>

abbreviation quote :: char where
  "quote \<equiv> CHR 0x27"

abbreviation dquote :: char where
  "dquote \<equiv> CHR 0x22"

abbreviation backslash :: char where
  "backslash \<equiv> CHR 0x5C"

definition nibble :: "nat \<Rightarrow> char" where
  "nibble n = ''0123456789abcdef'' ! n"

definition repr_char :: "char \<Rightarrow> char \<Rightarrow> string" where
  "repr_char q c =
     (let n = (of_char c :: nat)
      in if c = q \<or> c = backslash then [backslash, c]
         else if n = 9 then [backslash, CHR ''t'']
         else if n = 10 then [backslash, CHR ''n'']
         else if n = 13 then [backslash, CHR ''r'']
         else if n < 32 \<or> 127 \<le> n then [backslash, CHR ''x'', nibble (n div 16), nibble (n mod 16)]
         else [c])"

definition repr_quote :: "string \<Rightarrow> char" where
  "repr_quote s = (if quote \<in> set s \<and> dquote \<notin> set s then dquote else quote)"

definition py_repr :: "string \<Rightarrow> string" where
  "py_repr s = (let q = repr_quote s in q # concat (map (repr_char q) s) @ [q])"

definition py_repr_list :: "string list \<Rightarrow> string" where
  "py_repr_list ss = ''['' @ py_join '', '' (map py_repr ss) @ '']''"

text \<open>
  The interpreter's reading of a string after its opening quote, with the escapes that
  \<open>repr\<close> produces; the result is the string and the text after it.
\<close>

fun unnibble :: "char \<Rightarrow> nat option" where
  "unnibble c = (let n = (of_char c :: nat) in
     if 48 \<le> n \<and> n \<le> 57 then Some (n - 48) else if 97 \<le> n \<and> n \<le> 102 then Some (n - 87) else None)"

declare unnibble.simps [simp del]

fun unescape :: "string \<Rightarrow> (char \<times> string) option" where
  "unescape (c # cs) =
     (if c \<in> {quote, dquote, backslash} then Some (c, cs)
      else if c = CHR ''t'' then Some (CHR 0x09, cs)
      else if c = CHR ''n'' then Some (CHR 0x0A, cs)
      else if c = CHR ''r'' then Some (CHR 0x0D, cs)
      else if c = CHR ''x'' then
        (case cs of
           h # l # rest \<Rightarrow>
             (case (unnibble h, unnibble l) of
                (Some a, Some b) \<Rightarrow> Some (char_of (16 * a + b), rest)
              | _ \<Rightarrow> None)
         | _ \<Rightarrow> None)
      else None)"
| "unescape [] = None"

lemma unescape_shorter: "unescape s = Some (c, r) \<Longrightarrow> length r < length s"
  by (cases s) (auto split: if_splits list.splits option.splits)

function read_chars :: "char \<Rightarrow> string \<Rightarrow> (string \<times> string) option" where
  "read_chars q [] = None"
| "read_chars q (c # cs) =
     (if c = q then Some ([], cs)
      else if c = backslash then
        (case unescape cs of
           None \<Rightarrow> None
         | Some (d, rest) \<Rightarrow> map_option (\<lambda>(s, r). (d # s, r)) (read_chars q rest))
      else if c = CHR 0x0A then None
      else map_option (\<lambda>(s, r). (c # s, r)) (read_chars q cs))"
  by pat_completeness auto
termination
  by (relation "measure (length \<circ> snd)") (auto dest: unescape_shorter)

lemma read_chars_shorter: "read_chars q s = Some (x, r) \<Longrightarrow> length r < length s"
  by (induction q s arbitrary: x r rule: read_chars.induct)
    (fastforce split: if_splits option.splits dest!: unescape_shorter)+

lemma unnibble_nibble: "n < 16 \<Longrightarrow> unnibble (nibble n) = Some n"
  by (auto simp: nibble_def unnibble.simps less_Suc_eq numeral_eq_Suc)

lemma read_chars_escape:
  assumes "q = quote \<or> q = dquote" and "unescape s = Some (c, r)"
  shows "read_chars q (backslash # s) = map_option (\<lambda>(x, r). (c # x, r)) (read_chars q r)"
  using assms by auto

lemma of_char_eq_iff: "(of_char c :: nat) = n \<longleftrightarrow> n < 256 \<and> c = char_of n"
  by (auto simp: of_char_of)

lemma read_repr_char:
  assumes q: "q = quote \<or> q = dquote"
  shows "read_chars q (repr_char q c @ s) = map_option (\<lambda>(x, r). (c # x, r)) (read_chars q s)"
proof -
  let ?n = "of_char c :: nat"
  have codes: "CHR 0x09 = char_of (9 :: nat)" "CHR 0x0A = char_of (10 :: nat)" "CHR 0x0D = char_of (13 :: nat)"
    by code_simp+
  consider "c = q \<or> c = backslash" | "c = CHR 0x09" | "c = CHR 0x0A" | "c = CHR 0x0D"
    | "c \<noteq> q" "c \<noteq> backslash" "?n \<noteq> 9" "?n \<noteq> 10" "?n \<noteq> 13" "?n < 32 \<or> 127 \<le> ?n"
    | "c \<noteq> q" "c \<noteq> backslash" "?n \<noteq> 9" "?n \<noteq> 10" "?n \<noteq> 13" "\<not> (?n < 32 \<or> 127 \<le> ?n)"
    using codes by (auto simp: of_char_eq_iff)
  then show ?thesis
  proof cases
    case 1
    then have "repr_char q c = [backslash, c]" by (auto simp: repr_char_def)
    moreover have "unescape (c # s) = Some (c, s)" using 1 q by auto
    ultimately show ?thesis using read_chars_escape [OF q] by (simp only: append_Cons append_Nil)
  next
    case 2
    then have "repr_char q c = [backslash, CHR ''t'']" using q by (auto simp: repr_char_def)
    moreover have "unescape (CHR ''t'' # s) = Some (c, s)" using 2 by simp
    ultimately show ?thesis using read_chars_escape [OF q] by (simp only: append_Cons append_Nil)
  next
    case 3
    then have "repr_char q c = [backslash, CHR ''n'']" using q by (auto simp: repr_char_def)
    moreover have "unescape (CHR ''n'' # s) = Some (c, s)" using 3 by simp
    ultimately show ?thesis using read_chars_escape [OF q] by (simp only: append_Cons append_Nil)
  next
    case 4
    then have "repr_char q c = [backslash, CHR ''r'']" using q by (auto simp: repr_char_def)
    moreover have "unescape (CHR ''r'' # s) = Some (c, s)" using 4 by simp
    ultimately show ?thesis using read_chars_escape [OF q] by (simp only: append_Cons append_Nil)
  next
    case 5
    then have r: "repr_char q c = [backslash, CHR ''x'', nibble (?n div 16), nibble (?n mod 16)]"
      by (simp add: repr_char_def Let_def)
    have "char_of (16 * (?n div 16) + ?n mod 16) = c" by (simp only: mult_div_mod_eq char_of_char)
    moreover have "?n < 256" by simp
    then have "?n div 16 < 16" by (simp only: less_mult_imp_div_less)
    ultimately have "unescape (CHR ''x'' # nibble (?n div 16) # nibble (?n mod 16) # s) = Some (c, s)"
      by (simp add: unnibble_nibble)
    then show ?thesis using r read_chars_escape [OF q] by (simp only: append_Cons append_Nil)
  next
    case 6
    then have "repr_char q c = [c]" "c \<noteq> CHR 0x0A" by (auto simp: repr_char_def)
    then show ?thesis using 6 by simp
  qed
qed

lemma read_repr_chars:
  "q = quote \<or> q = dquote \<Longrightarrow> read_chars q (concat (map (repr_char q) s) @ q # r) = Some (s, r)"
  by (induction s) (simp_all add: read_repr_char)

section \<open>Reading a list of lists\<close>

datatype tok = TStr string | TOpen | TClose | TComma

function lex_literal :: "string \<Rightarrow> tok list option" where
  "lex_literal [] = Some []"
| "lex_literal (c # cs) =
     (if is_space c then lex_literal cs
      else if c = CHR ''['' then map_option ((#) TOpen) (lex_literal cs)
      else if c = CHR '']'' then map_option ((#) TClose) (lex_literal cs)
      else if c = CHR '','' then map_option ((#) TComma) (lex_literal cs)
      else if c = quote \<or> c = dquote then
        (case read_chars c cs of
           None \<Rightarrow> None
         | Some (s, rest) \<Rightarrow> map_option ((#) (TStr s)) (lex_literal rest))
      else None)"
  by pat_completeness auto
termination
  by (relation "measure length") (auto dest: read_chars_shorter)

text \<open>The items of a list after its opening bracket; a comma may follow the last one.\<close>

fun parse_strings :: "tok list \<Rightarrow> (string list \<times> tok list) option" where
  "parse_strings (TClose # ts) = Some ([], ts)"
| "parse_strings (TStr s # TComma # ts) = map_option (\<lambda>(ss, r). (s # ss, r)) (parse_strings ts)"
| "parse_strings (TStr s # TClose # ts) = Some ([s], ts)"
| "parse_strings _ = None"

lemma parse_strings_shorter: "parse_strings ts = Some (ss, r) \<Longrightarrow> length r < length ts"
  by (induction ts arbitrary: ss r rule: parse_strings.induct) fastforce+

function parse_lists :: "tok list \<Rightarrow> string list list option" where
  "parse_lists ts =
     (case ts of
        [TClose] \<Rightarrow> Some []
      | TOpen # ts' \<Rightarrow>
          (case parse_strings ts' of
             Some (ss, TComma # r) \<Rightarrow> map_option ((#) ss) (parse_lists r)
           | Some (ss, [TClose]) \<Rightarrow> Some [ss]
           | _ \<Rightarrow> None)
      | _ \<Rightarrow> None)"
  by pat_completeness auto
termination
  by (relation "measure length") (auto dest!: parse_strings_shorter)

declare parse_lists.simps [simp del]

lemma lex_repr: "lex_literal (py_repr s @ r) = map_option ((#) (TStr s)) (lex_literal r)"
  using read_repr_chars [of "repr_quote s" s r] by (auto simp: py_repr_def Let_def repr_quote_def is_space_def)

fun string_toks :: "string list \<Rightarrow> tok list" where
  "string_toks [] = [TClose]"
| "string_toks [s] = [TStr s, TClose]"
| "string_toks (s # t # ss) = TStr s # TComma # string_toks (t # ss)"

lemma lex_repr_items:
  "lex_literal (py_join '', '' (map py_repr ss) @ '']'' @ r) = map_option ((@) (string_toks ss)) (lex_literal r)"
  by (induction ss rule: string_toks.induct) (simp_all add: lex_repr is_space_def option.map_comp comp_def)

lemma lex_repr_list:
  "lex_literal (py_repr_list ss @ r) = map_option ((@) (TOpen # string_toks ss)) (lex_literal r)"
  using lex_repr_items [of ss r] by (cases "lex_literal r") (simp_all add: py_repr_list_def is_space_def)

lemma parse_string_toks: "parse_strings (string_toks ss @ r) = Some (ss, r)"
  by (induction ss rule: string_toks.induct) simp_all

end
