(* ===== verification/Module_Scan.thy ===== *)
theory Module_Scan
  imports Py_Text Topsort
begin

text \<open>
  The scanners of \<^verbatim>\<open>bindings/python/ns3modulescan.py\<close> (all modules at once) and
  \<^verbatim>\<open>bindings/python/ns3modulescan-modular.py\<close> (one module). They decide how each C++
  declaration is bound, sort the modules by their dependencies, and write the list of
  callback classes. The declarations come from \<open>pygccxml\<close>: a record holds the attributes that
  the scanners read, and the functions of the package are the parameter \<open>pg\<close>. The table of
  annotations is state, since the scanners delete from it.
\<close>

section \<open>Declarations and annotations\<close>

datatype decl_kind =
    MemberFunction | FreeFunction | Constructor | OtherCalldef | ClassDecl | Enumeration | OtherDecl

record decl =
  kind :: decl_kind
  d_name :: string
  d_parent :: string
  d_demangled :: string
  d_decl_string :: string
  d_str :: string
  d_file :: string
  d_defaults :: "string option list"

text \<open>
  The functions of \<open>pygccxml.declarations.templates\<close>, and the file in which
  \<open>find_declaration_from_name\<close> finds a name, if what it returns has a location.
\<close>

record pygccxml =
  template_args :: "string \<Rightarrow> string list"
  is_instantiation :: "string \<Rightarrow> bool"
  template_split :: "string \<Rightarrow> string \<times> string list"
  find_file :: "string \<Rightarrow> string option"

type_synonym params = "(string, (string, string) dict) dict"

datatype annotation = AStr string | ANone | ATrue | AParams params

type_synonym annotations = "(string, annotation) dict"
type_synonym annotation_table = "(string, annotations) dict"

text \<open>\<open>d.update(e)\<close> for two dictionaries.\<close>

definition dict_update :: "('k, 'v) dict \<Rightarrow> ('k, 'v) dict \<Rightarrow> ('k, 'v) dict" where
  "dict_update d e = foldl (\<lambda>d x. AList.update (fst x) (snd x) d) d e"

definition type_annotations :: annotation_table where
  "type_annotations =
    [
     (''::ns3::AttributeChecker'',
        [(''automatic_type_narrowing'', AStr ''true''), (''allow_subclassing'', AStr ''false'')]),
     (''::ns3::AttributeValue'',
        [(''automatic_type_narrowing'', AStr ''true''), (''allow_subclassing'', AStr ''false'')]),
     (''::ns3::CommandLine'',
        [(''allow_subclassing'', AStr ''true'')]),
     (''::ns3::NscTcpL4Protocol'',
        [(''ignore'', AStr ''true'')]),
     (''ns3::RandomVariable::RandomVariable(ns3::RandomVariableBase const & variable) [constructor]'',
        [(''ignore'', ANone)]),
     (''ns3::RandomVariableBase * ns3::RandomVariable::Peek() const [member function]'',
        [(''ignore'', ANone)]),
     (''void ns3::RandomVariable::GetSeed(uint32_t * seed) const [member function]'',
        [(''params'', AParams [(''seed'', [(''direction'', ''out''), (''array_length'', ''6'')])])]),
     (''bool ns3::TypeId::LookupAttributeByName(std::string name, ns3::TypeId::AttributeInformation * info) const [member function]'',
        [(''params'', AParams [(''info'', [(''transfer_ownership'', ''false'')])])]),
     (''static bool ns3::TypeId::LookupByNameFailSafe(std::string name, ns3::TypeId * tid) [member function]'',
        [(''ignore'', ANone)]),
     (''bool ns3::TraceSourceAccessor::ConnectWithoutContext(ns3::ObjectBase * obj, ns3::CallbackBase const & cb) const [member function]'',
        [(''params'', AParams [(''obj'', [(''transfer_ownership'', ''false'')])])]),
     (''bool ns3::TraceSourceAccessor::Connect(ns3::ObjectBase * obj, std::string context, ns3::CallbackBase const & cb) const [member function]'',
        [(''params'', AParams [(''obj'', [(''transfer_ownership'', ''false'')])])]),
     (''bool ns3::TraceSourceAccessor::DisconnectWithoutContext(ns3::ObjectBase * obj, ns3::CallbackBase const & cb) const [member function]'',
        [(''params'', AParams [(''obj'', [(''transfer_ownership'', ''false'')])])]),
     (''bool ns3::TraceSourceAccessor::Disconnect(ns3::ObjectBase * obj, std::string context, ns3::CallbackBase const & cb) const [member function]'',
        [(''params'', AParams [(''obj'', [(''transfer_ownership'', ''false'')])])]),
     (''bool ns3::AttributeAccessor::Set(ns3::ObjectBase * object, ns3::AttributeValue const & value) const [member function]'',
        [(''params'', AParams [(''object'', [(''transfer_ownership'', ''false'')])])]),
     (''ns3::EmpiricalVariable::EmpiricalVariable(ns3::RandomVariableBase const & variable) [constructor]'',
        [(''ignore'', ANone)]),
     (''static ns3::AttributeList * ns3::AttributeList::GetGlobal() [member function]'',
        [(''caller_owns_return'', AStr ''false'')]),
     (''void ns3::CommandLine::Parse(int argc, char * * argv) const [member function]'',
        [(''ignore'', ANone)]),
     (''extern void ns3::PythonCompleteConstruct(ns3::Ptr<ns3::Object> object, ns3::TypeId typeId, ns3::AttributeList const & attributes) [free function]'',
        [(''ignore'', ANone)]),
     (''ns3::Ptr<ns3::Ipv4RoutingProtocol> ns3::Ipv4ListRouting::GetRoutingProtocol(uint32_t index, int16_t & priority) const [member function]'',
        [(''params'', AParams [(''priority'', [(''direction'', ''out'')])])]),
     (''ns3::Ipv4RoutingTableEntry * ns3::GlobalRouter::GetInjectedRoute(uint32_t i) [member function]'',
        [(''params'', AParams [(''return'', [(''caller_owns_return'', ''false'')])])]),
     (''ns3::Ipv4RoutingTableEntry * ns3::Ipv4GlobalRouting::GetRoute(uint32_t i) const [member function]'',
        [(''params'', AParams [(''return'', [(''caller_owns_return'', ''false'')])])]),
     (''::ns3::TestCase'',
        [(''ignore'', AStr ''true'')]),
     (''::ns3::TestRunner'',
        [(''ignore'', AStr ''true'')]),
     (''::ns3::TestSuite'',
        [(''ignore'', AStr ''true'')])
    ]"

section \<open>The header of a declaration\<close>

text \<open>
  \<open>get_ns3_relative_path\<close>: the part of a path after its last component \<open>ns3\<close>. The loop of
  \<open>ns3modulescan.py\<close> may not end; then the result is \<open>None\<close>.
\<close>

partial_function (option) relative_path_loop :: "string \<Rightarrow> string list \<Rightarrow> string py option" where
  "relative_path_loop head l =
     (if head = [] then Some (Inl AssertionError)
      else if snd (path_split head) = ''ns3'' then Some (path_join_all l)
      else relative_path_loop (fst (path_split head)) (snd (path_split head) # l))"

declare relative_path_loop.simps [code]

definition get_ns3_relative_path :: "string \<Rightarrow> string py option" where
  "get_ns3_relative_path path = relative_path_loop path []"

lemma path_split_less: "fst (path_split p) \<noteq> p \<Longrightarrow> length (fst (path_split p)) < length p"
  by (cases p rule: path_cases) (auto simp: path_simps)

text \<open>The version of \<open>ns3modulescan-modular.py\<close> stops at the root.\<close>

function modular_path_loop :: "string \<Rightarrow> string list \<Rightarrow> string py" where
  "modular_path_loop head l =
     (if head = [] then Inl AssertionError
      else if fst (path_split head) = head then Inl ValueError
      else if snd (path_split head) = ''ns3'' then path_join_all l
      else modular_path_loop (fst (path_split head)) (snd (path_split head) # l))"
  by pat_completeness auto

termination
  by (relation "measure (length \<circ> fst)") (auto simp: path_split_less)

declare modular_path_loop.simps [simp del]

definition modular_relative_path :: "string \<Rightarrow> string py" where
  "modular_relative_path path = modular_path_loop path []"

section \<open>Annotating a declaration\<close>

definition annotate_members :: "pygccxml \<Rightarrow> decl \<Rightarrow> annotations \<Rightarrow> annotations" where
  "annotate_members pg d ga =
     (let member = (kind d = MemberFunction);
          ga = (if member \<and> d_parent d = ''Object'' \<and> d_name d = ''GetObject'' \<and>
                   template_args pg (d_demangled d) = [''ns3::Object'']
                then AList.update ''template_instance_names'' (AStr ''ns3::Object=>GetObject'') ga else ga);
          ga = (if member \<and> d_parent d = ''Simulator'' \<and> startswith (d_name d) ''Schedule''
                then AList.update ''ignore'' ANone ga else ga)
      in if member \<and> d_parent d = ''Simulator'' \<and> d_name d = ''Run''
         then AList.update ''ignore'' ATrue ga else ga)"

definition is_calldef :: "decl_kind \<Rightarrow> bool" where
  "is_calldef k \<longleftrightarrow> k \<in> {MemberFunction, FreeFunction, Constructor, OtherCalldef}"

definition fix_default :: "string \<Rightarrow> string" where
  "fix_default v =
     (if v = ''ns3::MilliSeconds( )'' then ''ns3::MilliSeconds(0)''
      else if v = ''ns3::Seconds( )'' then ''ns3::Seconds(0)'' else v)"

definition fix_defaults :: "decl \<Rightarrow> string option list" where
  "fix_defaults d = (if is_calldef (kind d) then map (map_option fix_default) (d_defaults d) else d_defaults d)"

text \<open>The branch for classes: four kinds of templates, then the table.\<close>

definition annotate_class :: "annotation_table \<Rightarrow> decl \<Rightarrow> annotations \<Rightarrow> annotations" where
  "annotate_class table d ga =
     (if startswith (d_decl_string d) ''::ns3::SimpleRefCount<'' then
        AList.update ''automatic_type_narrowing'' (AStr ''true'')
          (AList.update ''peekref_method'' (AStr ''GetReferenceCount'')
            (AList.update ''decref_method'' (AStr ''Unref'')
              (AList.update ''incref_method'' (AStr ''Ref'') ga)))
      else if startswith (d_decl_string d) ''::ns3::Callback<'' then AList.update ''ignore'' ANone ga
      else if startswith (d_decl_string d) ''::ns3::TracedCallback<'' then AList.update ''ignore'' ANone ga
      else if startswith (d_decl_string d) ''::ns3::Ptr<'' then AList.update ''ignore'' ANone ga
      else (case map_of table (d_decl_string d) of
              None \<Rightarrow> ga
            | Some annotations \<Rightarrow> dict_update ga annotations))"

text \<open>\<open>parameter_annotations.update(value)\<close> needs a dictionary.\<close>

fun as_params :: "annotation \<Rightarrow> params py" where
  "as_params (AParams ps) = Inr ps"
| "as_params (AStr s) = (if s = [] then Inr [] else Inl ValueError)"
| "as_params ANone = Inl TypeError"
| "as_params ATrue = Inl TypeError"

text \<open>
  The table for functions: the entry \<open>params\<close> goes to the parameters and is deleted from the
  table, the others go to the declaration.
\<close>

definition annotate_function ::
  "annotation_table \<Rightarrow> decl \<Rightarrow> annotations \<Rightarrow> params \<Rightarrow> (annotation_table \<times> annotations \<times> params) py" where
  "annotate_function table d ga pa =
     (case map_of table (d_str d) of
        None \<Rightarrow> Inr (table, ga, pa)
      | Some annotations \<Rightarrow>
          (case map_of annotations ''params'' of
             None \<Rightarrow> Inr (table, dict_update ga annotations, pa)
           | Some value \<Rightarrow>
               py_bind (as_params value) (\<lambda>ps.
                 let annotations = AList.delete ''params'' annotations
                 in Inr (AList.update (d_str d) annotations table, dict_update ga annotations, dict_update pa ps))))"

text \<open>What a call of a hook changes: the table, the annotations, and the default values.\<close>

record scanned =
  sc_table :: annotation_table
  sc_global :: annotations
  sc_params :: params
  sc_defaults :: "string option list"

definition table_driven :: "annotation_table \<Rightarrow> decl \<Rightarrow> annotations \<Rightarrow> params \<Rightarrow> scanned py" where
  "table_driven table d ga pa =
     (if kind d \<in> {FreeFunction, MemberFunction, Constructor}
      then py_bind (annotate_function table d ga pa) (\<lambda>(table, ga, pa).
             Inr \<lparr>sc_table = table, sc_global = ga, sc_params = pa, sc_defaults = fix_defaults d\<rparr>)
      else Inr \<lparr>sc_table = table, sc_global = ga, sc_params = pa, sc_defaults = fix_defaults d\<rparr>)"

definition pre_scan_hook ::
  "pygccxml \<Rightarrow> annotation_table \<Rightarrow> decl \<Rightarrow> annotations \<Rightarrow> params \<Rightarrow> scanned py option" where
  "pre_scan_hook pg table d ga pa =
     map_option (\<lambda>r. py_bind r (\<lambda>ns3_header.
       let ga = AList.update ''pygen_comment'' (AStr (ns3_header @ '': '' @ d_str d)) ga;
           ga = annotate_members pg d ga;
           leave = (\<lambda>ga. Inr \<lparr>sc_table = table, sc_global = ga, sc_params = pa, sc_defaults = fix_defaults d\<rparr>)
       in if kind d = ClassDecl then leave (annotate_class table d ga)
          else if kind d = FreeFunction \<and> d_name d = ''PeekPointer'' then leave (AList.update ''ignore'' ANone ga)
          else table_driven table d ga pa))
     (get_ns3_relative_path (d_file d))"

section \<open>The hook for one module\<close>

text \<open>The modules of the template arguments that are found in a header of ns-3.\<close>

fun template_modules :: "pygccxml \<Rightarrow> (string, string) dict \<Rightarrow> string list \<Rightarrow> string list py" where
  "template_modules pg headers_map [] = Inr []"
| "template_modules pg headers_map (templ # ts) =
     (case find_file pg templ of
        None \<Rightarrow> template_modules pg headers_map ts
      | Some file \<Rightarrow>
          (case modular_relative_path file of
             Inr h \<Rightarrow>
               py_bind (dict_get headers_map h) (\<lambda>m.
               py_bind (template_modules pg headers_map ts) (\<lambda>ms. Inr (m # ms)))
           | Inl e \<Rightarrow> if e = ValueError then template_modules pg headers_map ts else Inl e))"

text \<open>An instantiation belongs to this module when one of its arguments does.\<close>

definition owning_module :: "pygccxml \<Rightarrow> (string, string) dict \<Rightarrow> string \<Rightarrow> decl \<Rightarrow> string \<Rightarrow> string py" where
  "owning_module pg headers_map module d definition_module =
     (if is_instantiation pg (d_decl_string d)
      then py_bind (template_modules pg headers_map (snd (template_split pg (d_name d)))) (\<lambda>ms.
             Inr (if module \<in> set ms then module else definition_module))
      else Inr definition_module)"

definition PreScanHook_call ::
  "pygccxml \<Rightarrow> (string, string) dict \<Rightarrow> string \<Rightarrow> annotation_table \<Rightarrow> decl \<Rightarrow> annotations \<Rightarrow> params \<Rightarrow> scanned py" where
  "PreScanHook_call pg headers_map module table d ga pa =
     (case modular_relative_path (d_file d) of
        Inl e \<Rightarrow>
          if e = ValueError
          then Inr \<lparr>sc_table = table, sc_global = ga, sc_params = pa, sc_defaults = d_defaults d\<rparr>
          else Inl e
      | Inr ns3_header \<Rightarrow>
          py_bind (dict_get headers_map ns3_header) (\<lambda>definition_module.
          let ga = AList.update ''pygen_comment''
                     (AStr (ns3_header @ '' (module '' @ py_repr definition_module @ ''): '' @ d_str d)) ga;
              ga = annotate_members pg d ga;
              leave = (\<lambda>ga. Inr \<lparr>sc_table = table, sc_global = ga, sc_params = pa, sc_defaults = fix_defaults d\<rparr>)
          in if kind d = ClassDecl then
               py_bind (owning_module pg headers_map module d definition_module) (\<lambda>definition_module.
                 let ga = (if definition_module \<noteq> module
                           then AList.update ''import_from_module''
                             (AStr (''ns.'' @ replace_char CHR ''-'' CHR ''_'' definition_module)) ga
                           else ga)
                 in leave (annotate_class table d ga))
             else if kind d = Enumeration then
               leave (if definition_module \<noteq> module
                      then AList.update ''import_from_module'' (AStr (''ns.'' @ definition_module)) ga else ga)
             else if kind d = FreeFunction \<and> (definition_module \<noteq> module \<or> d_name d = ''PeekPointer'') then
               leave (AList.update ''ignore'' ANone ga)
             else table_driven table d ga pa))"

section \<open>Callback classes\<close>

text \<open>The lines that \<open>scan_callback_classes\<close> writes; the classes are given by name and declaration.\<close>

fun callback_lines :: "pygccxml \<Rightarrow> (string \<times> string) list \<Rightarrow> string list py" where
  "callback_lines pg [] = Inr []"
| "callback_lines pg ((name, decl_string) # cs) =
     (if \<not> startswith name ''Callback<'' then callback_lines pg cs
      else if \<not> is_instantiation pg decl_string then Inl AssertionError
      else py_bind (callback_lines pg cs) (\<lambda>ls.
             Inr ((''    '' @ py_repr_list (snd (template_split pg decl_string)) @ '','' @ nl) # ls)))"

definition scan_callback_classes :: "pygccxml \<Rightarrow> (string \<times> string) list \<Rightarrow> string py" where
  "scan_callback_classes pg classes =
     py_bind (callback_lines pg classes) (\<lambda>ls. Inr (''callback_classes = ['' @ nl @ concat ls @ '']'' @ nl))"

section \<open>Sections\<close>

text \<open>A module has its dependencies and its headers.\<close>

type_synonym ns3_modules = "(string, string list \<times> string list) dict"

record pygen_section =
  section_name :: string
  section_file :: string
  local_customizations :: "string option"

type_synonym sections = "pygen_section list \<times> (string, string) dict \<times> (string, nat) dict"

definition module_graph :: "ns3_modules \<Rightarrow> (string \<times> string) list" where
  "module_graph modules =
     concat (map (\<lambda>name. map (\<lambda>dep. (dep, name)) (sort (fst (the (map_of modules name))))) (sort (dict_keys modules)))"

definition module_section :: "string \<Rightarrow> string" where
  "module_section m = ''ns3_module_'' @ replace_char CHR ''-'' CHR ''_'' m"

fun add_sections :: "ns3_modules \<Rightarrow> string \<Rightarrow> nat \<Rightarrow> string list \<Rightarrow> sections \<Rightarrow> sections py" where
  "add_sections modules dir prec [] st = Inr st"
| "add_sections modules dir prec (m # ms) (secs, headers_map, precs) =
     py_bind (dict_get modules m) (\<lambda>(deps, headers).
       add_sections modules dir (Suc prec) ms
         (secs @ [\<lparr>section_name = module_section m,
                   section_file = path_join dir (module_section m @ ''.py''),
                   local_customizations = Some (module_section m @ ''__local'')\<rparr>],
          foldl (\<lambda>d h. AList.update h (module_section m) d) headers_map headers,
          AList.update (module_section m) prec precs))"

definition module_sections ::
  "(string list \<Rightarrow> string list) \<Rightarrow> ns3_modules \<Rightarrow> string \<Rightarrow> (string ts_exn + py_exn) + sections" where
  "module_sections ko modules pygen_file_name =
     py_bind (map_sum Inl id (topsort ko (module_graph modules))) (\<lambda>sorted_ns3_modules.
       map_sum Inr id
         (add_sections modules (path_dirname pygen_file_name) 0 sorted_ns3_modules
           ([\<lparr>section_name = ''__main__'', section_file = pygen_file_name, local_customizations = None\<rparr>], [], [])))"

definition classify :: "(string, string) dict \<Rightarrow> decl \<Rightarrow> string" where
  "classify headers_map d =
     (case map_of headers_map (path_basename (d_file d)) of None \<Rightarrow> ''__main__'' | Some s \<Rightarrow> s)"

definition get_section_precedence :: "(string, nat) dict \<Rightarrow> string \<Rightarrow> int py" where
  "get_section_precedence precs name =
     (if name = ''__main__'' then Inr (- 1) else py_bind (dict_get precs name) (\<lambda>n. Inr (int n)))"

section \<open>The scans\<close>

text \<open>What a scan does to files and to the parser of \<open>pybindgen\<close>, in order.\<close>

datatype scan_event =
    Unlink string | MakeDirs string | Chmod string nat
  | OpenFile string | WriteFile string string | CloseFile string
  | NewParser string string | AddPreScanHook
  | ParseInit "string list" "string list" "string list" string
  | ScanTypes | ScanMethods | ScanFunctions | ParseFinalize

definition gccxml_cflags :: "string \<Rightarrow> string" where
  "gccxml_cflags cflags = ''--gccxml-cxxflags '' @ [dquote] @ cflags @ '' -DPYTHON_SCAN'' @ [dquote]"

definition scan_all_modules ::
  "(string list \<Rightarrow> string list) \<Rightarrow> pygccxml \<Rightarrow> ns3_modules \<Rightarrow> (string \<times> string) list \<Rightarrow>
   string \<Rightarrow> string \<Rightarrow> string \<Rightarrow> string \<Rightarrow> (string ts_exn + py_exn) + scan_event list" where
  "scan_all_modules ko pg modules classes top_builddir pygen_file_name everything_h cflags =
     py_bind (module_sections ko modules pygen_file_name) (\<lambda>(secs, headers_map, precs).
     py_bind (map_sum Inr id (scan_callback_classes pg classes)) (\<lambda>text.
       let callbacks = path_join (path_dirname pygen_file_name) ''callbacks_list.py''
       in Inr (map (\<lambda>s. OpenFile (section_file s)) secs @
            [NewParser ''ns3'' ''ns3'', AddPreScanHook,
             ParseInit [everything_h] [top_builddir, path_dirname everything_h] [top_builddir] (gccxml_cflags cflags),
             ScanTypes, OpenFile callbacks, WriteFile callbacks text, CloseFile callbacks,
             ScanMethods, ScanFunctions, ParseFinalize] @
            map (\<lambda>s. CloseFile (section_file s)) secs)))"

text \<open>The scan of one module; \<open>exists\<close> tells which files exist.\<close>

definition scan_one_module ::
  "pygccxml \<Rightarrow> (string \<Rightarrow> bool) \<Rightarrow> (string \<times> string) list \<Rightarrow> string \<Rightarrow> string \<Rightarrow> string \<Rightarrow> string \<Rightarrow> scan_event list py" where
  "scan_one_module pg exists classes top_builddir module_name output_file_name cflags =
     py_bind (scan_callback_classes pg classes) (\<lambda>text.
       let dir = path_dirname output_file_name;
           scan_header = path_join dir ''scan-header.h'';
           scan_header = (if exists scan_header then scan_header
                          else path_join (path_join top_builddir ''ns3'') (module_name @ ''-module.h''));
           callbacks = path_join dir ''callbacks_list.py''
       in Inr [NewParser (''ns.'' @ replace_char CHR ''-'' CHR ''_'' module_name) ''ns3'', AddPreScanHook,
               Unlink output_file_name, MakeDirs dir, OpenFile output_file_name,
               ParseInit [scan_header] [top_builddir] [top_builddir] (gccxml_cflags cflags),
               ScanTypes, OpenFile callbacks, WriteFile callbacks text, CloseFile callbacks,
               ScanMethods, ScanFunctions, ParseFinalize,
               CloseFile output_file_name, Chmod output_file_name 256])"

section \<open>Relative paths\<close>

lemma relative_path_loop_root:
  assumes "relative_path_loop head l = Some r"
  shows "head = [] \<or> \<not> list_all (\<lambda>c. c = slash) head"
proof (rule relative_path_loop.raw_induct [OF _ assms])
  fix f :: "string \<Rightarrow> string list \<Rightarrow> string py option" and head l r
  assume IH: "\<And>head l r. f head l = Some r \<Longrightarrow> head = [] \<or> \<not> list_all (\<lambda>c. c = slash) head"
    and body: "(if head = [] then Some (Inl AssertionError)
      else if snd (path_split head) = ''ns3'' then Some (path_join_all l)
      else f (fst (path_split head)) (snd (path_split head) # l)) = Some r"
  show "head = [] \<or> \<not> list_all (\<lambda>c. c = slash) head"
  proof (rule ccontr)
    assume "\<not> ?thesis"
    then have ne: "head \<noteq> []" and all: "list_all (\<lambda>c. c = slash) head" by auto
    then have fixed: "fst (path_split head) = head" using path_split_fixed by blast
    obtain a where "head = a @ [slash]" using ne all by (cases head rule: rev_cases) auto
    then have "snd (path_split head) = []" using all path_split_root [of "[]" a] by simp
    then show False using body ne fixed IH all by auto
  qed
qed

lemma path_loops:
  "(relative_path_loop head l = None \<longleftrightarrow> startswith head [slash] \<and> ''ns3'' \<notin> set (path_parts head)) \<and>
   modular_path_loop head l = (case relative_path_loop head l of None \<Rightarrow> Inl ValueError | Some r \<Rightarrow> r)"
proof (induction head l rule: modular_path_loop.induct)
  case (1 head l)
  let ?h = "fst (path_split head)" and ?t = "snd (path_split head)"
  note parts = path_parts_split [of "''ns3''" head]
  consider "head = []" | "head \<noteq> []" "?h = head" | "head \<noteq> []" "?h \<noteq> head" "?t = ''ns3''"
    | "head \<noteq> []" "?h \<noteq> head" "?t \<noteq> ''ns3''" by blast
  then show ?case
  proof cases
    case 1
    then show ?thesis
      by (simp add: relative_path_loop.simps [of "[]"] modular_path_loop.simps [of "[]"] startswith_def)
  next
    case 2
    then have all: "list_all (\<lambda>c. c = slash) head" using path_split_fixed by blast
    then have "relative_path_loop head l = None"
      using relative_path_loop_root [of head l] 2(1) by (cases "relative_path_loop head l") auto
    moreover have "startswith head [slash]" using 2(1) all by (cases head) (auto simp: startswith_def)
    moreover have "''ns3'' \<notin> set (path_parts head)" using path_parts_root [OF all] by simp
    ultimately show ?thesis using 2 by (simp add: modular_path_loop.simps [of head])
  next
    case 3
    then show ?thesis using parts
      by (simp add: relative_path_loop.simps [of head] modular_path_loop.simps [of head])
  next
    case 4
    have loop: "relative_path_loop head l = relative_path_loop ?h (?t # l)"
      using 4 by (subst relative_path_loop.simps) simp
    have mloop: "modular_path_loop head l = modular_path_loop ?h (?t # l)"
      using 4 by (simp add: modular_path_loop.simps [of head])
    have empty: "\<not> startswith head [slash]" if "?h = []"
      using that 4(1) by (cases head rule: path_cases) (auto simp: path_simps startswith_def prefix_def)
    show ?thesis using "1.IH" [OF 4] parts 4(3) loop mloop empty path_split_absolute [of head]
      by (cases "?h = []") (auto simp: startswith_def)
  qed
qed

lemma snd_path_split: "slash \<notin> set b \<Longrightarrow> snd (path_split (a @ slash # b)) = b"
  using takeWhile_free [of slash "rev b" "rev a"] by (simp add: path_split_def Let_def)

abbreviation plain_name :: "string \<Rightarrow> bool" where
  "plain_name n \<equiv> n \<noteq> [] \<and> slash \<notin> set n"

lemma foldl_path_join:
  "a \<noteq> [] \<Longrightarrow> last a \<noteq> slash \<Longrightarrow> \<forall>n \<in> set ps. plain_name n \<Longrightarrow>
     foldl path_join a ps = a @ concat (map ((#) slash) ps)"
proof (induction ps arbitrary: a)
  case (Cons n ps)
  have n: "n \<noteq> []" "slash \<notin> set n" using Cons.prems(3) by auto
  then have "\<not> startswith n [slash]" by (cases n) (auto simp: startswith_def)
  then have "path_join a n = a @ slash # n" using Cons.prems(1,2) by (simp add: path_join_def)
  moreover have "last n \<noteq> slash" using n by (metis last_in_set)
  ultimately show ?case using Cons.IH [of "a @ slash # n"] Cons.prems(3) n by simp
qed simp

lemma py_join_slash: "ps \<noteq> [] \<Longrightarrow> py_join [slash] ps = hd ps @ concat (map ((#) slash) (tl ps))"
proof (induction ps)
  case (Cons n ps)
  then show ?case by (cases ps) simp_all
qed simp

lemma path_join_all_parts:
  assumes "ps \<noteq> []" and "\<forall>n \<in> set ps. plain_name n"
  shows "path_join_all ps = Inr (py_join [slash] ps)"
proof -
  obtain n qs where ps: "ps = n # qs" using assms(1) by (cases ps) auto
  have "last n \<noteq> slash" using assms(2) ps by (metis last_in_set list.set_intros(1))
  then show ?thesis using assms ps foldl_path_join [of n qs] by (simp add: path_join_all_def py_join_slash)
qed

lemma relative_path_loop_parts:
  "pre = [] \<or> last pre = slash \<Longrightarrow> \<forall>n \<in> set ps. plain_name n \<and> n \<noteq> ''ns3'' \<Longrightarrow>
     relative_path_loop (pre @ ''ns3'' @ concat (map ((#) slash) ps)) l = Some (path_join_all (ps @ l))"
proof (induction ps arbitrary: l rule: rev_induct)
  case Nil
  have "snd (path_split (pre @ ''ns3'')) = ''ns3''"
  proof (cases pre rule: rev_cases)
    case Nil
    then show ?thesis by (simp add: path_simps)
  next
    case (snoc a c)
    then show ?thesis using Nil.prems(1) snd_path_split [of "''ns3''" a] by simp
  qed
  then show ?case by (simp add: relative_path_loop.simps [of "pre @ ''ns3''"])
next
  case (snoc n ps)
  let ?a = "pre @ ''ns3'' @ concat (map ((#) slash) ps)"
  have last: "last ?a \<noteq> slash"
  proof (cases ps rule: rev_cases)
    case Nil
    then show ?thesis by simp
  next
    case (snoc qs m)
    then have "m \<noteq> []" "slash \<notin> set m" using snoc.prems(2) by auto
    then show ?thesis using snoc by simp (metis last_in_set)
  qed
  have n: "slash \<notin> set n" "n \<noteq> ''ns3''" using snoc.prems(2) by auto
  have "path_split (?a @ slash # n) = (?a, n)" using path_split_heads [OF n(1), of ?a 0] last by simp
  then have "relative_path_loop (?a @ slash # n) l = relative_path_loop ?a (n # l)"
    using n(2) by (subst relative_path_loop.simps) simp
  then show ?case using snoc by simp
qed

section \<open>The table of annotations\<close>

text \<open>Every entry is a dictionary, its \<open>params\<close> are parameters, and no entry names a module.\<close>

definition annotations_ok :: "annotations \<Rightarrow> bool" where
  "annotations_ok a \<longleftrightarrow> dict_ok a \<and> map_of a ''import_from_module'' = None \<and>
     (case map_of a ''params'' of None \<Rightarrow> True | Some (AParams ps) \<Rightarrow> dict_ok ps | Some _ \<Rightarrow> False)"

definition table_ok :: "annotation_table \<Rightarrow> bool" where
  "table_ok t \<longleftrightarrow> dict_ok t \<and> list_all (\<lambda>(k, a). annotations_ok a) t"

definition entry_params :: "annotation_table \<Rightarrow> string \<Rightarrow> params" where
  "entry_params t k =
     (case map_of t k of
        Some a \<Rightarrow> (case map_of a ''params'' of Some (AParams ps) \<Rightarrow> ps | _ \<Rightarrow> [])
      | None \<Rightarrow> [])"

lemma type_annotations_ok: "table_ok type_annotations"
  by code_simp

lemma table_ok_entry: "table_ok t \<Longrightarrow> map_of t k = Some a \<Longrightarrow> annotations_ok a"
  by (auto simp: table_ok_def list_all_iff dest!: map_of_SomeD)

lemma table_ok_update: "table_ok t \<Longrightarrow> annotations_ok a \<Longrightarrow> table_ok (AList.update k a t)"
  using set_update_subset [of k a t] by (fastforce simp: table_ok_def list_all_iff)

lemma annotations_ok_delete: "annotations_ok a \<Longrightarrow> annotations_ok (AList.delete ''params'' a)"
  by (simp add: annotations_ok_def dict_simps)

lemma dict_update_lookup: "dict_ok e \<Longrightarrow> map_of (dict_update d e) = map_of d ++ map_of e"
proof (induction e arbitrary: d)
  case (Cons x e)
  obtain k v where x: "x = (k, v)" by (cases x)
  have e: "dict_ok e" "k \<notin> dom (map_of e)" using Cons.prems x by (auto simp: dict_ok_def dom_map_of_conv_image_fst)
  have "dict_update d (x # e) = dict_update (AList.update k v d) e" by (simp add: dict_update_def x)
  then show ?case using Cons.IH [OF e(1)] e(2) x
    by (auto simp: dict_simps map_add_def fun_eq_iff split: option.splits)
qed (simp add: dict_update_def)

lemma dict_update_append: "dict_ok (d @ e) \<Longrightarrow> dict_update d e = d @ e"
proof (induction e arbitrary: d)
  case (Cons x e)
  then have "fst x \<notin> fst ` set d" by (auto simp: dict_ok_def)
  then have "dict_update d (x # e) = dict_update (d @ [x]) e" by (simp add: dict_update_def update_new)
  then show ?case using Cons.IH [of "d @ [x]"] Cons.prems by simp
qed (simp add: dict_update_def)

lemma dict_update_Nil [simp]: "dict_ok e \<Longrightarrow> dict_update [] e = e"
  by (simp add: dict_update_append)

lemma dict_update_keep: "dict_ok e \<Longrightarrow> map_of e k = None \<Longrightarrow> map_of (dict_update d e) k = map_of d k"
  by (simp add: dict_update_lookup map_add_def)

lemma annotate_function_eq:
  assumes "table_ok t"
  shows "\<exists>t' ga'. annotate_function t d ga pa = Inr (t', ga', dict_update pa (entry_params t (d_str d))) \<and>
     table_ok t' \<and> (\<forall>k. entry_params t' k = (if k = d_str d then [] else entry_params t k)) \<and>
     map_of ga' ''import_from_module'' = map_of ga ''import_from_module''"
proof (cases "map_of t (d_str d)")
  case None
  then show ?thesis using assms by (auto simp: annotate_function_def entry_params_def dict_update_def)
next
  case (Some a)
  have ok: "annotations_ok a" using table_ok_entry [OF assms Some] .
  show ?thesis
  proof (cases "map_of a ''params''")
    case None
    then show ?thesis using assms Some ok
      by (auto simp: annotate_function_def entry_params_def dict_update_def [of pa] annotations_ok_def dict_update_keep)
  next
    case v: (Some v)
    then obtain ps where ps: "v = AParams ps" using ok by (cases v) (auto simp: annotations_ok_def)
    let ?a = "AList.delete ''params'' a"
    have "annotations_ok ?a" using ok by (rule annotations_ok_delete)
    then have "map_of (dict_update ga ?a) ''import_from_module'' = map_of ga ''import_from_module''"
      by (auto simp: annotations_ok_def intro: dict_update_keep)
    then show ?thesis using Some v ps table_ok_update [OF assms \<open>annotations_ok ?a\<close>]
      by (auto simp: annotate_function_def entry_params_def Let_def dict_simps)
  qed
qed

lemma table_driven_eq:
  assumes "table_ok t"
  shows "\<exists>r. table_driven t d ga pa = Inr r \<and> table_ok (sc_table r) \<and>
     sc_params r = (if kind d \<in> {FreeFunction, MemberFunction, Constructor}
                    then dict_update pa (entry_params t (d_str d)) else pa) \<and>
     (\<forall>k. entry_params (sc_table r) k =
        (if kind d \<in> {FreeFunction, MemberFunction, Constructor} \<and> k = d_str d then [] else entry_params t k))"
  using annotate_function_eq [OF assms, of d ga pa] assms by (auto simp: table_driven_def)

text \<open>
  A declaration that \<open>PreScanHook\<close> looks up in the table for functions, and the hook run on a
  sequence of declarations, each with empty annotations: the parameter annotations of each.
\<close>

definition looked_up :: "(string, string) dict \<Rightarrow> string \<Rightarrow> decl \<Rightarrow> bool" where
  "looked_up headers_map module d \<longleftrightarrow>
     kind d \<in> {FreeFunction, MemberFunction, Constructor} \<and>
     (case modular_relative_path (d_file d) of
        Inl e \<Rightarrow> False
      | Inr h \<Rightarrow> (kind d = FreeFunction \<longrightarrow> map_of headers_map h = Some module \<and> d_name d \<noteq> ''PeekPointer''))"

fun scan_decls ::
  "pygccxml \<Rightarrow> (string, string) dict \<Rightarrow> string \<Rightarrow> annotation_table \<Rightarrow> decl list \<Rightarrow> (params list \<times> annotation_table) py" where
  "scan_decls pg headers_map module table [] = Inr ([], table)"
| "scan_decls pg headers_map module table (d # ds) =
     py_bind (PreScanHook_call pg headers_map module table d [] []) (\<lambda>r.
     py_bind (scan_decls pg headers_map module (sc_table r) ds) (\<lambda>(pss, table). Inr (sc_params r # pss, table)))"

lemma entry_params_ok: "table_ok t \<Longrightarrow> dict_ok (entry_params t k)"
  by (auto simp: entry_params_def annotations_ok_def dest!: table_ok_entry split: option.splits annotation.splits)

lemma PreScanHook_call_cases:
  assumes "PreScanHook_call pg hm module t d ga pa = Inr r"
  shows "(sc_table r = t \<and> sc_params r = pa \<and> \<not> looked_up hm module d) \<or>
     (\<exists>ga'. table_driven t d ga' pa = Inr r \<and>
        (looked_up hm module d \<longleftrightarrow> kind d \<in> {FreeFunction, MemberFunction, Constructor}))"
proof (cases "modular_relative_path (d_file d)")
  case (Inl e)
  then show ?thesis using assms by (auto simp: PreScanHook_call_def looked_up_def split: if_splits)
next
  case (Inr h)
  then obtain dm where dm: "map_of hm h = Some dm"
    using assms by (auto simp: PreScanHook_call_def dict_get_def split: option.splits)
  show ?thesis
  proof (cases "kind d \<in> {FreeFunction, MemberFunction, Constructor}")
    case True
    then show ?thesis using assms Inr dm
      by (auto simp: PreScanHook_call_def dict_get_def looked_up_def Let_def split: if_splits)
  next
    case False
    then show ?thesis using assms Inr dm
      by (cases "kind d") (auto simp: PreScanHook_call_def dict_get_def looked_up_def Let_def)
  qed
qed

lemma PreScanHook_call_eq:
  assumes "table_ok t" and "PreScanHook_call pg hm module t d ga [] = Inr r"
  shows "table_ok (sc_table r) \<and>
     sc_params r = (if looked_up hm module d then entry_params t (d_str d) else []) \<and>
     (\<forall>k. entry_params (sc_table r) k = (if looked_up hm module d \<and> k = d_str d then [] else entry_params t k))"
  using PreScanHook_call_cases [OF assms(2)]
proof (elim disjE exE conjE)
  fix ga'
  assume r: "table_driven t d ga' [] = Inr r"
    and l: "looked_up hm module d \<longleftrightarrow> kind d \<in> {FreeFunction, MemberFunction, Constructor}"
  show ?thesis using table_driven_eq [OF assms(1), of d ga' "[]"] r entry_params_ok [OF assms(1)]
    by (simp add: l)
qed (use assms(1) in simp)

lemma scan_decls_params:
  assumes "table_ok t" and "scan_decls pg hm module t ds = Inr (pss, t')" and "i < length ds"
  shows "pss ! i =
    (if looked_up hm module (ds ! i) \<and>
        (\<forall>j < i. \<not> (looked_up hm module (ds ! j) \<and> d_str (ds ! j) = d_str (ds ! i)))
     then entry_params t (d_str (ds ! i)) else [])"
  using assms
proof (induction ds arbitrary: t pss i)
  case (Cons d ds)
  from Cons.prems(2) obtain r pss' where r: "PreScanHook_call pg hm module t d [] [] = Inr r"
    and rest: "scan_decls pg hm module (sc_table r) ds = Inr (pss', t')" and pss: "pss = sc_params r # pss'" by auto
  note step = PreScanHook_call_eq [OF Cons.prems(1) r]
  show ?case
  proof (cases i)
    case 0
    then show ?thesis using step pss by simp
  next
    case (Suc k)
    then have "pss' ! k =
        (if looked_up hm module (ds ! k) \<and>
            (\<forall>j < k. \<not> (looked_up hm module (ds ! j) \<and> d_str (ds ! j) = d_str (ds ! k)))
         then entry_params (sc_table r) (d_str (ds ! k)) else [])"
      using Cons.IH [OF _ rest, of k] Cons.prems(3) step by simp
    then show ?thesis using Suc pss step by (auto simp: All_less_Suc2)
  qed
qed simp

section \<open>Order of the sections\<close>

abbreviation headers_of :: "ns3_modules \<Rightarrow> string \<Rightarrow> string list" where
  "headers_of modules m \<equiv> snd (the (map_of modules m))"

definition module_entry :: "string \<Rightarrow> string \<Rightarrow> pygen_section" where
  "module_entry dir m =
     \<lparr>section_name = module_section m, section_file = path_join dir (module_section m @ ''.py''),
      local_customizations = Some (module_section m @ ''__local'')\<rparr>"

text \<open>The sections, headers and precedences that the loop collects, in closed form.\<close>

lemma add_sections_eq:
  "\<forall>m \<in> set ms. map_of modules m \<noteq> None \<Longrightarrow>
   add_sections modules dir n ms (secs, hm, precs) =
     Inr (secs @ map (module_entry dir) ms,
          foldl (\<lambda>d x. AList.update (fst x) (snd x) d) hm
            (concat (map (\<lambda>m. map (\<lambda>h. (h, module_section m)) (headers_of modules m)) ms)),
          foldl (\<lambda>d x. AList.update (module_section (snd x)) (fst x) d) precs (enumerate n ms))"
proof (induction ms arbitrary: n secs hm precs)
  case (Cons m ms)
  then obtain deps headers where m: "map_of modules m = Some (deps, headers)" by fastforce
  have "foldl (\<lambda>d h. AList.update h (module_section m) d) hm headers =
      foldl (\<lambda>d x. AList.update (fst x) (snd x) d) hm (map (\<lambda>h. (h, module_section m)) headers)"
    by (simp add: foldl_map)
  then show ?case using Cons m by (simp add: dict_get_Inr module_entry_def)
qed simp

lemma update_all_lookup:
  "map_of (foldl (\<lambda>d x. AList.update (f x) (g x) d) [] xs) = map_of (rev (map (\<lambda>x. (f x, g x)) xs))"
  using alist_dict.lookup_store_all [of "[]" f g xs] by simp

lemma map_of_unique: "(x, v) \<in> set l \<Longrightarrow> (\<And>w. (x, w) \<in> set l \<Longrightarrow> w = v) \<Longrightarrow> map_of l x = Some v"
  by (metis map_of_SomeD weak_map_of_SomeI)

lemma precedence_lookup:
  assumes "distinct (map module_section ms)" and "k < length ms"
  shows "map_of (foldl (\<lambda>d x. AList.update (module_section (snd x)) (fst x) d) [] (enumerate 0 ms))
    (module_section (ms ! k)) = Some k"
  unfolding update_all_lookup
proof (rule map_of_unique)
  show "(module_section (ms ! k), k) \<in> set (rev (map (\<lambda>x. (module_section (snd x), fst x)) (enumerate 0 ms)))"
  proof -
    have "(k, ms ! k) \<in> set (enumerate 0 ms)" using assms(2) by (simp add: in_set_enumerate_eq)
    then show ?thesis by (simp add: image_iff) (metis fst_conv snd_conv)
  qed
  show "w = k" if "(module_section (ms ! k), w) \<in>
      set (rev (map (\<lambda>x. (module_section (snd x), fst x)) (enumerate 0 ms)))" for w
    using that assms nth_eq_iff_index_eq [OF assms(1), of k w] by (auto simp: in_set_enumerate_eq)
qed

lemma headers_lookup:
  assumes "m \<in> set ms" and "h \<in> set (headers_of modules m)"
    and "\<And>m'. m' \<in> set ms \<Longrightarrow> h \<in> set (headers_of modules m') \<Longrightarrow> m' = m"
  shows "map_of (foldl (\<lambda>d x. AList.update (fst x) (snd x) d) []
      (concat (map (\<lambda>m. map (\<lambda>h. (h, module_section m)) (headers_of modules m)) ms))) h =
    Some (module_section m)"
  unfolding update_all_lookup
proof (rule map_of_unique)
  let ?pairs = "concat (map (\<lambda>m. map (\<lambda>h. (h, module_section m)) (headers_of modules m)) ms)"
  have "(h, module_section m) \<in> set ?pairs" using assms(1,2) by auto
  then show "(h, module_section m) \<in> set (rev (map (\<lambda>x. (fst x, snd x)) ?pairs))" by simp
  show "w = module_section m" if "(h, w) \<in> set (rev (map (\<lambda>x. (fst x, snd x)) ?pairs))" for w
    using that assms(3) by auto
qed

lemma headers_lookup_None:
  assumes "\<And>m. m \<in> set ms \<Longrightarrow> h \<notin> set (headers_of modules m)"
  shows "map_of (foldl (\<lambda>d x. AList.update (fst x) (snd x) d) []
      (concat (map (\<lambda>m. map (\<lambda>h. (h, module_section m)) (headers_of modules m)) ms))) h = None"
  unfolding update_all_lookup map_of_eq_None_iff using assms by auto

definition headers_map_of :: "ns3_modules \<Rightarrow> string list \<Rightarrow> (string, string) dict" where
  "headers_map_of modules ms =
     foldl (\<lambda>d x. AList.update (fst x) (snd x) d) []
       (concat (map (\<lambda>m. map (\<lambda>h. (h, module_section m)) (headers_of modules m)) ms))"

lemma classify_owned:
  assumes "m \<in> set ms" and "path_basename (d_file d) \<in> set (headers_of modules m)"
    and "\<forall>m' \<in> set ms. path_basename (d_file d) \<in> set (headers_of modules m') \<longrightarrow> m' = m"
  shows "classify (headers_map_of modules ms) d = module_section m"
  using headers_lookup [OF assms(1,2)] assms(3) by (simp add: classify_def headers_map_of_def)

lemma classify_other:
  assumes "\<forall>m \<in> set ms. path_basename (d_file d) \<notin> set (headers_of modules m)"
  shows "classify (headers_map_of modules ms) d = ''__main__''"
  using headers_lookup_None [of ms _ modules] assms by (simp add: classify_def headers_map_of_def)

lemma module_graph_edge:
  "(d, m) \<in> set (module_graph modules) \<longleftrightarrow>
     (\<exists>deps hs. map_of modules m = Some (deps, hs) \<and> d \<in> set deps)"
proof -
  have "(d, m) \<in> set (module_graph modules) \<longleftrightarrow>
      m \<in> fst ` set modules \<and> d \<in> set (fst (the (map_of modules m)))"
    by (auto simp: module_graph_def)
  then show ?thesis by (auto simp: map_of_key_iff)
qed

lemma module_section_not_main [simp]: "module_section m \<noteq> ''__main__''"
  by (simp add: module_section_def)

lemma section_precedences:
  assumes "topological ps xs" and "inj_on module_section (elems ps)" and "(d, m) \<in> set ps"
    and precs: "precs = foldl (\<lambda>d x. AList.update (module_section (snd x)) (fst x) d) [] (enumerate 0 xs)"
  shows "\<exists>i j. get_section_precedence precs (module_section d) = Inr i \<and>
     get_section_precedence precs (module_section m) = Inr j \<and> 0 \<le> i \<and> i < j"
proof -
  have xs: "distinct xs" "set xs = elems ps" using assms(1) by (auto simp: topological_def)
  then have dist: "distinct (map module_section xs)" using assms(2) by (simp add: distinct_map)
  obtain j where j: "j < length xs" "xs ! j = m" using xs(2) elems_pairs [OF assms(3)] by (metis in_set_conv_nth)
  then have "d \<in> set (take j xs)" using assms(1,3) by (auto simp: topological_def)
  then obtain i where i: "i < j" "xs ! i = d" using j(1) by (auto simp: in_set_conv_nth)
  have "map_of precs (module_section d) = Some i" "map_of precs (module_section m) = Some j"
    using precedence_lookup [OF dist, of i] precedence_lookup [OF dist, of j] i j precs by auto
  then show ?thesis using i(1) by (simp add: get_section_precedence_def dict_get_Inr)
qed

section \<open>Modules of template arguments\<close>

lemma template_modules_mem:
  "template_modules pg hm ts = Inr ms \<Longrightarrow> m \<in> set ms \<longleftrightarrow>
     (\<exists>t \<in> set ts. \<exists>file h. find_file pg t = Some file \<and> modular_relative_path file = Inr h \<and> map_of hm h = Some m)"
proof (induction ts arbitrary: ms)
  case (Cons t ts)
  then show ?case
    by (auto simp: dict_get_def split: option.splits sum.splits if_splits)
qed simp

lemma owning_module_eq:
  "owning_module pg hm module d dm = Inr owner \<Longrightarrow>
     owner = (if is_instantiation pg (d_decl_string d) \<and>
         (\<exists>t \<in> set (snd (template_split pg (d_name d))). \<exists>file h. find_file pg t = Some file \<and>
            modular_relative_path file = Inr h \<and> map_of hm h = Some module)
       then module else dm)"
  by (auto simp: owning_module_def template_modules_mem split: if_splits)

lemma annotate_members_import [simp]:
  "map_of (annotate_members pg d ga) ''import_from_module'' = map_of ga ''import_from_module''"
  by (simp add: annotate_members_def Let_def dict_simps)

lemma annotate_class_import [simp]:
  "table_ok table \<Longrightarrow> map_of (annotate_class table d ga) ''import_from_module'' = map_of ga ''import_from_module''"
  by (auto simp: annotate_class_def dict_simps annotations_ok_def dict_update_keep dest: table_ok_entry split: option.splits)

section \<open>Properties\<close>


text \<open>Three modules in a chain, and one without dependencies and dependents.\<close>

definition demo_modules :: ns3_modules where
  "demo_modules =
     [(''network'', [''core''], [''node.h'']), (''core'', [], [''object.h'']),
      (''point-to-point'', [''network'', ''core''], [''point-to-point-channel.h'']), (''tools'', [], [''gnuplot.h''])]"


text \<open>
  C40: the two searches for the header of a declaration. The one of the scanner of all
  modules does not return exactly on an absolute path without a component \<open>ns3\<close>; the one of the modular
  scanner raises \<open>ValueError\<close> there and agrees elsewhere. On a path whose last component \<open>ns3\<close>
  is followed by names, both return these names, joined.
\<close>

theorem get_ns3_relative_path_correct:
  "(get_ns3_relative_path path = None \<longleftrightarrow> startswith path ''/'' \<and> ''ns3'' \<notin> set (path_parts path)) \<and>
   modular_relative_path path = (case get_ns3_relative_path path of None \<Rightarrow> Inl ValueError | Some r \<Rightarrow> r) \<and>
   ((pre = [] \<or> last pre = slash) \<longrightarrow> names \<noteq> [] \<longrightarrow>
    (\<forall>n \<in> set names. n \<noteq> [] \<and> slash \<notin> set n \<and> n \<noteq> ''ns3'') \<longrightarrow>
    get_ns3_relative_path (pre @ ''ns3/'' @ py_join ''/'' names) = Some (Inr (py_join ''/'' names)))"
proof -
  have "get_ns3_relative_path (pre @ ''ns3/'' @ py_join ''/'' names) = Some (Inr (py_join ''/'' names))"
    if "pre = [] \<or> last pre = slash" "names \<noteq> []" "\<forall>n \<in> set names. plain_name n \<and> n \<noteq> ''ns3''"
  proof -
    have "pre @ ''ns3/'' @ py_join ''/'' names = pre @ ''ns3'' @ concat (map ((#) slash) names)"
      using that(2) by (cases names) (simp_all add: py_join_slash)
    then show ?thesis
      using relative_path_loop_parts [OF that(1,3), of "[]"] path_join_all_parts [OF that(2)] that(3)
      by (simp add: get_ns3_relative_path_def)
  qed
  then show ?thesis using path_loops [of path "[]"]
    by (simp add: get_ns3_relative_path_def modular_relative_path_def)
qed

theorem get_ns3_relative_path_correct_witness:
  "get_ns3_relative_path ''/usr/include/stdint.h'' = None \<and>
   modular_relative_path ''/usr/include/stdint.h'' = Inl ValueError \<and>
   get_ns3_relative_path ''build/ns3/node.h'' = Some (Inr ''node.h'')"
  using get_ns3_relative_path_correct [of "''/usr/include/stdint.h''" "''build/''" "[''node.h'']"]
  by (simp add: startswith_def)

text \<open>
  Where a declaration is imported from. A class that is neither of this module nor an
  instantiation with an argument of this module is imported from the module of its header, with
  underscores for hyphens; an enumeration likewise, but with the hyphens kept; a function of
  another module is ignored.
\<close>

lemma import_from_module:
  assumes "table_ok table" and "modular_relative_path (d_file d) = Inr h" and "map_of headers_map h = Some dm"
    and "PreScanHook_call pg headers_map module table d [] [] = Inr r"
  shows "(kind d = ClassDecl \<longrightarrow> map_of (sc_global r) ''import_from_module'' =
      (if dm = module \<or> is_instantiation pg (d_decl_string d) \<and>
          (\<exists>t \<in> set (snd (template_split pg (d_name d))). \<exists>file h'. find_file pg t = Some file \<and>
             modular_relative_path file = Inr h' \<and> map_of headers_map h' = Some module)
       then None else Some (AStr (''ns.'' @ replace_char CHR ''-'' CHR ''_'' dm)))) \<and>
    (kind d = Enumeration \<longrightarrow> map_of (sc_global r) ''import_from_module'' =
      (if dm = module then None else Some (AStr (''ns.'' @ dm)))) \<and>
    (kind d = FreeFunction \<and> dm \<noteq> module \<longrightarrow> map_of (sc_global r) ''ignore'' = Some ANone)"
proof (intro conjI impI)
  note call = assms(4) [unfolded PreScanHook_call_def Let_def assms(2) sum.case dict_get_Inr [OF assms(3)] py_bind_simps]
  show "map_of (sc_global r) ''import_from_module'' =
      (if dm = module \<or> is_instantiation pg (d_decl_string d) \<and>
          (\<exists>t \<in> set (snd (template_split pg (d_name d))). \<exists>file h'. find_file pg t = Some file \<and>
             modular_relative_path file = Inr h' \<and> map_of headers_map h' = Some module)
       then None else Some (AStr (''ns.'' @ replace_char CHR ''-'' CHR ''_'' dm)))" if k: "kind d = ClassDecl"
  proof -
    obtain owner where o: "owning_module pg headers_map module d dm = Inr owner"
      and r: "map_of (sc_global r) ''import_from_module'' =
        (if owner \<noteq> module then Some (AStr (''ns.'' @ replace_char CHR ''-'' CHR ''_'' owner)) else None)"
      using call k assms(1) by (auto simp: dict_simps)
    show ?thesis using owning_module_eq [OF o] r by auto
  qed
  show "map_of (sc_global r) ''import_from_module'' = (if dm = module then None else Some (AStr (''ns.'' @ dm)))"
    if k: "kind d = Enumeration"
    using call k by (auto simp: dict_simps)
  show "map_of (sc_global r) ''ignore'' = Some ANone" if k: "kind d = FreeFunction \<and> dm \<noteq> module"
    using call k by (auto simp: dict_simps)
qed

text \<open>An enumeration of another module whose name has a hyphen.\<close>

definition demo_pygccxml :: pygccxml where
  "demo_pygccxml = \<lparr>template_args = \<lambda>_. [], is_instantiation = \<lambda>_. False,
     template_split = \<lambda>s. (s, []), find_file = \<lambda>_. None\<rparr>"

definition demo_decl :: "decl_kind \<Rightarrow> string \<Rightarrow> string \<Rightarrow> decl" where
  "demo_decl k str file = \<lparr>kind = k, d_name = str, d_parent = [], d_demangled = [], d_decl_string = str,
     d_str = str, d_file = file, d_defaults = []\<rparr>"

text \<open>
  C29: what happens to the parameter annotations of the table. In a scan of any sequence of
  declarations, a function, method or constructor that the modular scanner looks up gets the
  parameter annotations of the table the first time that its signature is scanned; every
  later time, and every other declaration, gets none.
\<close>

theorem params_delivered_once:
  assumes "scan_decls pg headers_map module type_annotations ds = Inr (pss, table)" and "i < length ds"
  shows "pss ! i =
    (if looked_up headers_map module (ds ! i) \<and>
        (\<forall>j < i. looked_up headers_map module (ds ! j) \<longrightarrow> d_str (ds ! j) \<noteq> d_str (ds ! i))
     then entry_params type_annotations (d_str (ds ! i)) else [])"
  using scan_decls_params [OF type_annotations_ok assms] by auto

theorem params_delivered_once_witness:
  "let d = demo_decl MemberFunction ''void ns3::RandomVariable::GetSeed(uint32_t * seed) const [member function]'' ''ns3/rng.h''
   in \<exists>pss table. scan_decls demo_pygccxml [(''rng.h'', ''core'')] ''core'' type_annotations [d, d] = Inr (pss, table) \<and>
     pss ! 0 = [(''seed'', [(''direction'', ''out''), (''array_length'', ''6'')])] \<and> pss ! 1 = []"
proof -
  let ?d = "demo_decl MemberFunction ''void ns3::RandomVariable::GetSeed(uint32_t * seed) const [member function]'' ''ns3/rng.h''"
  let ?run = "scan_decls demo_pygccxml [(''rng.h'', ''core'')] ''core'' type_annotations [?d, ?d]"
  have "case ?run of Inr r \<Rightarrow> True | Inl e \<Rightarrow> False" by code_simp
  then obtain pss table where r: "?run = Inr (pss, table)" by (cases ?run) auto
  have l: "looked_up [(''rng.h'', ''core'')] ''core'' ?d" by code_simp
  have e: "entry_params type_annotations (d_str ?d) = [(''seed'', [(''direction'', ''out''), (''array_length'', ''6'')])]"
    by code_simp
  show ?thesis
    using params_delivered_once [OF r, of 0] params_delivered_once [OF r, of 1] l e r by auto
qed

end
