(* ===== verification/Module_Gen.thy ===== *)
theory Module_Gen
  imports Module_Scan
begin

text \<open>
  The generators of the Python bindings: \<^verbatim>\<open>bindings/python/ns3modulegen_core_customizations.py\<close>
  and the two drivers \<^verbatim>\<open>ns3modulegen.py\<close> and \<^verbatim>\<open>ns3modulegen-modular.py\<close>. What \<open>pybindgen\<close> does is a
  parameter: which types it knows, the code of a wrapper, the names that it chooses for
  variables. The calls into it are events, in order.
\<close>

section \<open>Smart pointers\<close>

text \<open>The regular expression \<open>(ns3::|::ns3::|)Ptr<([^>]+)>\s*$\<close>: the text between the brackets.\<close>

definition match_pointer :: "string \<Rightarrow> string \<Rightarrow> string option" where
  "match_pointer pre name =
     (case literal (pre @ ''Ptr<'') name of
        None \<Rightarrow> None
      | Some rest \<Rightarrow>
          let inner = takeWhile (\<lambda>c. c \<noteq> CHR ''>'') rest; after = dropWhile (\<lambda>c. c \<noteq> CHR ''>'') rest
          in if inner \<noteq> [] \<and> after \<noteq> [] \<and> list_all is_space (tl after) then Some inner else None)"

definition match_ptr :: "string \<Rightarrow> string option" where
  "match_ptr name =
     (case match_pointer ''ns3::'' name of
        Some s \<Rightarrow> Some s
      | None \<Rightarrow>
          (case match_pointer ''::ns3::'' name of
             Some s \<Rightarrow> Some s
           | None \<Rightarrow> match_pointer [] name))"

definition endswith :: "string \<Rightarrow> string \<Rightarrow> bool" where
  "endswith s p \<longleftrightarrow> suffix p s"

text \<open>The qualifier \<open>const\<close> in front of a name and behind it, and the name without them.\<close>

definition unqualified :: "string \<Rightarrow> bool \<times> bool \<times> string" where
  "unqualified name1 =
     (let front = startswith name1 ''const '';
          name1 = (if front then drop (length ''const '') name1 else name1);
          rear = endswith name1 '' const''
      in (front, rear, if rear then take (length name1 - length '' const'') name1 else name1))"

definition type_traits :: "string \<Rightarrow> string option \<times> bool" where
  "type_traits name =
     (case match_ptr name of
        None \<Rightarrow> (None, False)
      | Some inner \<Rightarrow>
          let (front, rear, name1) = unqualified (strip inner);
              new_name = name1 @ '' *'';
              new_name = (if startswith new_name ''::'' then drop 2 new_name else new_name)
          in (Some new_name, front \<or> rear))"

definition get_untransformed_name :: "string \<Rightarrow> string option" where
  "get_untransformed_name name = fst (type_traits name)"

datatype handler_class = ParameterHandler | ReturnValueHandler | OtherHandler

text \<open>The C++ type, the name of the argument that is set to \<open>False\<close>, and the untransformed type.\<close>

definition create_type_handler :: "handler_class \<Rightarrow> string \<Rightarrow> (string \<times> string \<times> string) py" where
  "create_type_handler handler name =
     py_bind (case handler of
                ParameterHandler \<Rightarrow> Inr ''transfer_ownership''
              | ReturnValueHandler \<Rightarrow> Inr ''caller_owns_return''
              | OtherHandler \<Rightarrow> Inl AssertionError) (\<lambda>kwarg.
       case type_traits name of
         (None, _) \<Rightarrow> Inl TypeError
       | (Some orig_ctype, is_const) \<Rightarrow>
           let base = take (length orig_ctype - 2) orig_ctype
           in Inr (if is_const then ''ns3::Ptr< '' @ base @ '' const >'' else ''ns3::Ptr< '' @ base @ '' >'',
                   kwarg, orig_ctype))"

definition untransform :: "string \<Rightarrow> string \<Rightarrow> string" where
  "untransform untransformed_ctype expression =
     ''const_cast<'' @ untransformed_ctype @ ''> (ns3::PeekPointer ('' @ expression @ ''))''"

definition transform :: "string \<Rightarrow> string \<Rightarrow> string py" where
  "transform untransformed_ctype expression =
     (if untransformed_ctype = [] then Inl IndexError
      else if last untransformed_ctype \<noteq> CHR ''*'' then Inl AssertionError
      else Inr (''ns3::Ptr< '' @ butlast untransformed_ctype @ ''> ('' @ expression @ '')''))"

section \<open>Code of the wrappers\<close>

text \<open>Calls on a wrapper. \<open>declare\<close> gives the name that \<open>pybindgen\<close> chooses for a variable.\<close>

datatype wrapper_call =
    DeclareVariable string string "string option"
  | AddParameter string "string list" string bool
  | WriteCode string
  | ErrorCheck string "string option"
  | CleanupCode string
  | Indent | Unindent
  | CallParam string

definition argv_convert :: "(string \<Rightarrow> string) \<Rightarrow> string \<Rightarrow> wrapper_call list" where
  "argv_convert declare self_name =
     (let py_name = declare (''py_'' @ self_name); argc_var = declare ''argc'';
          name = declare self_name; idx = declare ''idx''
      in [DeclareVariable ''PyObject*'' (''py_'' @ self_name) None, DeclareVariable ''int'' ''argc'' None,
          DeclareVariable ''char**'' self_name None, DeclareVariable ''Py_ssize_t'' ''idx'' None,
          AddParameter ''O!'' [''&PyList_Type'', ''&'' @ py_name] self_name False,
          WriteCode (name @ '' = (char **) malloc(sizeof(char*)*PyList_Size('' @ py_name @ ''));''),
          CleanupCode (''free('' @ name @ '');''),
          WriteCode (nl @ lines_of [''for ('' @ idx @ '' = 0; '' @ idx @ '' < PyList_Size('' @ py_name @ ''); '' @
            idx @ ''++)'', ''{'']),
          Indent,
          WriteCode (nl @ lines_of [''PyObject *item = PyList_GET_ITEM('' @ py_name @ '', '' @ idx @ '');'']),
          ErrorCheck ''!PyString_Check(item)''
            (Some (''PyErr_SetString(PyExc_TypeError, '' @ [dquote] @ ''argument '' @ self_name @
              '' must be a list of strings'' @ [dquote] @ '');'')),
          WriteCode (name @ ''['' @ idx @ ''] = PyString_AsString(item);''),
          Unindent,
          WriteCode ''}'',
          WriteCode (argc_var @ '' = PyList_Size('' @ py_name @ '');''),
          CallParam argc_var, CallParam name])"

definition callable_check :: "string \<Rightarrow> string \<Rightarrow> wrapper_call" where
  "callable_check py_callback self_name =
     ErrorCheck (''!PyCallable_Check('' @ py_callback @ '')'')
       (Some (''PyErr_SetString(PyExc_TypeError, '' @ [dquote] @ ''parameter '' @ [quote] @ self_name @ [quote] @
         '' must be callbale'' @ [dquote] @ '');''))"

definition callback_convert ::
  "(string \<Rightarrow> string) \<Rightarrow> string \<Rightarrow> string list \<Rightarrow> string \<Rightarrow> string option \<Rightarrow> wrapper_call list" where
  "callback_convert declare impl_name targs self_name default_value =
     (let py_callback = declare self_name; args = py_join '', '' targs
      in case default_value of
           None \<Rightarrow>
             (let callback_impl = declare (self_name @ ''_cb_impl'')
              in [DeclareVariable ''PyObject*'' self_name None,
                  AddParameter ''O'' [''&'' @ py_callback] self_name False,
                  callable_check py_callback self_name,
                  DeclareVariable (''ns3::Ptr<'' @ impl_name @ ''>'') (self_name @ ''_cb_impl'') None,
                  WriteCode (callback_impl @ '' = ns3::Create<'' @ impl_name @ ''> ('' @ py_callback @ '');''),
                  CallParam (''ns3::Callback<'' @ args @ ''> ('' @ callback_impl @ '')'')])
         | Some dflt \<Rightarrow>
             (let value = declare (self_name @ ''_value'')
              in [DeclareVariable ''PyObject*'' self_name (Some ''NULL''),
                  AddParameter ''O'' [''&'' @ py_callback] self_name True,
                  DeclareVariable (''ns3::Callback<'' @ args @ ''>'') (self_name @ ''_value'') (Some dflt),
                  WriteCode (''if ('' @ py_callback @ '') {''),
                  Indent,
                  callable_check py_callback self_name,
                  WriteCode (value @ '' = ns3::Callback<'' @ args @ ''> (ns3::Create<'' @ impl_name @ ''> ('' @
                    py_callback @ ''));''),
                  Unindent,
                  WriteCode ''}'',
                  CallParam value]))"

text \<open>The call of the Python method; \<open>build_params\<close> are the parameters that \<open>pybindgen\<close> built.\<close>

definition generate_python_call :: "(string \<Rightarrow> string) \<Rightarrow> string list \<Rightarrow> wrapper_call list py" where
  "generate_python_call declare build_params =
     (case build_params of
        [] \<Rightarrow> Inl IndexError
      | [] # ps \<Rightarrow> Inl IndexError
      | (c # cs) # ps \<Rightarrow>
          let build_params = (if c = dquote then (''(char *) '' @ c # cs) # ps else build_params);
              args = declare ''args''
          in Inr [DeclareVariable ''PyObject*'' ''args'' None,
                  WriteCode (args @ '' = Py_BuildValue('' @ py_join '', '' build_params @ '');''),
                  CleanupCode (''Py_DECREF('' @ args @ '');''),
                  WriteCode (''py_retval = PyObject_CallObject(m_callback, '' @ args @ '');''),
                  ErrorCheck ''py_retval == NULL'' None,
                  CleanupCode ''Py_DECREF(py_retval);''])"

section \<open>Callback classes\<close>

text \<open>
  What \<open>pybindgen\<close> contributes: whether it knows a return type and the type of a parameter with its
  name, and the code of the proxy method.
\<close>

record type_oracle =
  return_known :: "string \<Rightarrow> bool"
  param_known :: "string \<Rightarrow> string \<Rightarrow> bool"
  proxy_code :: "string \<Rightarrow> (string \<times> string) list \<Rightarrow> string"

text \<open>A generated class and the handler registered for its type.\<close>

record callback_class =
  impl_name :: string
  ctype_name :: string
  targs :: "string list"
  class_text :: string

definition class_head :: "string \<Rightarrow> string list \<Rightarrow> string" where
  "class_head c ps = nl @ lines_of
    [''class '' @ c @ '' : public ns3::CallbackImpl<'' @ py_join '', '' ps @ ''>'',
     ''{'',
     ''public:'',
     ''    PyObject *m_callback;'',
     ''    '' @ c @ ''(PyObject *callback)'',
     ''    {'',
     ''        Py_INCREF(callback);'',
     ''        m_callback = callback;'',
     ''    }'',
     ''    virtual ~'' @ c @ ''()'',
     ''    {'',
     ''        PyGILState_STATE __py_gil_state;'',
     ''        __py_gil_state = (PyEval_ThreadsInitialized() ? PyGILState_Ensure() : (PyGILState_STATE) 0);'',
     ''        Py_DECREF(m_callback);'',
     ''        m_callback = NULL;'',
     ''        PyGILState_Release(__py_gil_state);'',
     ''    }'',
     [],
     ''    virtual bool IsEqual(ns3::Ptr<const ns3::CallbackImplBase> other_base) const'',
     ''    {'',
     ''        const '' @ c @ '' *other = dynamic_cast<const '' @ c @ ''*> (ns3::PeekPointer (other_base));'',
     ''        if (other != NULL)'',
     ''            return (other->m_callback == m_callback);'',
     ''        else'',
     ''            return false;'',
     ''    }'',
     []] @ nl"

definition callback_args :: "string list \<Rightarrow> (string \<times> string) list" where
  "callback_args ps =
     map (\<lambda>(n, t). (t, ''arg'' @ str_nat (n + 1))) (enumerate 0 (filter (\<lambda>t. t \<noteq> ''ns3::empty'') ps))"

text \<open>One round of the loop: nothing when a type is unknown.\<close>

definition generate_callback_class :: "type_oracle \<Rightarrow> nat \<Rightarrow> string list \<Rightarrow> callback_class option py" where
  "generate_callback_class tys num ps =
     (case ps of
        [] \<Rightarrow> Inl IndexError
      | ret # rest \<Rightarrow>
          let c = ''PythonCallbackImpl'' @ str_nat num; args = callback_args rest
          in Inr (if return_known tys ret \<and> list_all (\<lambda>(t, n). param_known tys t n) args
                  then Some \<lparr>impl_name = c, ctype_name = ''ns3::Callback< '' @ py_join '', '' ps @ '' >'', targs = ps,
                             class_text = class_head c ps @ proxy_code tys ret args @ ''};'' @ nl @ nl\<rparr>
                  else None))"

fun generate_callback_classes :: "type_oracle \<Rightarrow> nat \<Rightarrow> string list list \<Rightarrow> callback_class list py" where
  "generate_callback_classes tys num [] = Inr []"
| "generate_callback_classes tys num (ps # callbacks) =
     py_bind (generate_callback_class tys num ps) (\<lambda>c.
     py_bind (generate_callback_classes tys (Suc num) callbacks) (\<lambda>cs.
       Inr (case c of None \<Rightarrow> cs | Some c \<Rightarrow> c # cs)))"

section \<open>Customizations\<close>

text \<open>
  A module of \<open>pybindgen\<close>: the names that \<open>module[...]\<close> finds, the classes and enumerations that
  will be generated, and what was registered, in order.
\<close>

datatype registration =
    CustomMethod string string "string list"
  | AddMethod string string "string list"
  | AddInclude string
  | AddClass string "string option" "string option"
  | AddEnum string string "(string \<times> string) list"
  | AddConstructor string "(string \<times> string \<times> string option) list"
  | CannotBeConstructed string string
  | TypeAlias string string
  | AfterInit string
  | BodyCode string
  | HeaderCode string
  | TypeSlot string string string
  | HelperClassHook string
  | CreationFunctions string
  | RegisterTypes | RegisterMethods | RegisterFunctions
  | PostTypes | PostMethods | PostFunctions
  | SetName string
  | Callbacks "callback_class list"
  | AttributeDefaults
  | Generate

record bind_module =
  m_known :: "string list"
  m_classes :: "string list"
  m_enums :: "string list"
  m_log :: "registration list"

definition log_reg :: "registration list \<Rightarrow> bind_module \<Rightarrow> bind_module" where
  "log_reg rs m = m\<lparr>m_log := m_log m @ rs\<rparr>"

text \<open>\<open>module[name]\<close>.\<close>

definition with_entry :: "string \<Rightarrow> bind_module \<Rightarrow> 'a py \<Rightarrow> 'a py" where
  "with_entry name m r = (if name \<in> set (m_known m) then r else Inl KeyError)"

definition static_flags :: "string list" where
  "static_flags = [''METH_VARARGS'', ''METH_KEYWORDS'', ''METH_STATIC'']"

definition Simulator_customizations :: "bind_module \<Rightarrow> bind_module py" where
  "Simulator_customizations m =
     with_entry ''ns3::Simulator'' m
       (Inr (log_reg (map (\<lambda>f. CustomMethod f (''_wrap_Simulator_'' @ f) static_flags)
              [''Schedule'', ''ScheduleNow'', ''ScheduleDestroy'', ''Run'']) m))"

definition CommandLine_customizations :: "bind_module \<Rightarrow> bind_module py" where
  "CommandLine_customizations m =
     with_entry ''ns3::CommandLine'' m
       (Inr (log_reg [AddMethod ''ns3::CommandLine'' ''Parse'' [''argv''],
              CustomMethod ''AddValue'' ''_wrap_CommandLine_AddValue'' [''METH_VARARGS'', ''METH_KEYWORDS'']] m))"

definition TypeId_customizations :: "bind_module \<Rightarrow> bind_module py" where
  "TypeId_customizations m =
     with_entry ''ns3::TypeId'' m
       (Inr (log_reg [CustomMethod ''LookupByNameFailSafe'' ''_wrap_TypeId_LookupByNameFailSafe'' static_flags] m))"

definition add_std_ios_openmode :: "bind_module \<Rightarrow> bind_module" where
  "add_std_ios_openmode m =
     log_reg (map (\<lambda>a. TypeAlias a ''int'') [''std::_Ios_Openmode'', ''std::ios::openmode''] @
       map (\<lambda>flag. AfterInit (''PyModule_AddIntConstant(m, (char *) '' @ [dquote] @ ''STD_IOS_'' @ map char_upper flag @
              [dquote] @ '', std::ios::'' @ flag @ '');''))
         [''in'', ''out'', ''ate'', ''app'', ''trunc'', ''binary'']) m"

definition add_std_ofstream :: "bind_module \<Rightarrow> bind_module" where
  "add_std_ofstream m =
     add_std_ios_openmode
       (log_reg [AddInclude ''<fstream>'',
          AddClass ''ostream'' (Some ''::std'') None,
          CannotBeConstructed ''ostream'' ''abstract base class'',
          AddClass ''ofstream'' (Some ''::std'') (Some ''ostream''),
          AddEnum ''ofstream'' ''openmode''
            (map (\<lambda>f. (f, ''std::ios_base::'' @ f)) [''app'', ''ate'', ''binary'', ''in'', ''out'', ''trunc'']),
          AddConstructor ''ofstream''
            [(''const char *'', ''filename'', None),
             (''::std::ofstream::openmode'', ''mode'', Some ''std::ios_base::out'')],
          AddMethod ''ofstream'' ''close'' []] m)"

definition add_ipv4_address_tp_hash :: "bind_module \<Rightarrow> bind_module py" where
  "add_ipv4_address_tp_hash m =
     with_entry ''Ipv4Address'' m
       (Inr (log_reg [BodyCode (nl @ lines_of
            [''long'', ''_ns3_Ipv4Address_tp_hash (PyObject *obj)'', ''{'',
             ''   PyNs3Ipv4Address *addr = reinterpret_cast<PyNs3Ipv4Address *> (obj);'',
             ''   return static_cast<long> (ns3::Ipv4AddressHash () (*addr->obj));'', ''}'']),
          HeaderCode ''long _ns3_Ipv4Address_tp_hash (PyObject *obj);'',
          TypeSlot ''Ipv4Address'' ''tp_hash'' ''_ns3_Ipv4Address_tp_hash''] m))"

text \<open>The constructors for classes derived from \<open>ns3::Object\<close>.\<close>

definition Object_customizations :: "bind_module \<Rightarrow> bind_module" where
  "Object_customizations m =
     (if ''ns3::Object'' \<in> set (m_known m)
      then log_reg [HelperClassHook ''ns3::Object'', CreationFunctions ''ns3::Object''] m else m)"

definition helper_class_hook :: "string \<Rightarrow> string \<Rightarrow> string \<times> string" where
  "helper_class_hook name full_name =
     (nl @ lines_of
        [''static ns3::TypeId GetTypeId (void)'', ''{'',
         ''  static ns3::TypeId tid = ns3::TypeId ('' @ [dquote] @ name @ [dquote] @ '')'',
         ''    .SetParent< '' @ full_name @ '' > ()'', ''    ;'', ''  return tid;''] @ ''}'',
      ''NS_OBJECT_ENSURE_REGISTERED ('' @ name @ '');'')"

text \<open>Both error messages have two places and one argument, so building them raises \<open>TypeError\<close>.\<close>

definition instance_creation :: "bool \<Rightarrow> bool \<Rightarrow> string \<Rightarrow> string \<Rightarrow> string \<Rightarrow> string list py" where
  "instance_creation cannot_be_constructed incomplete_type lvalue parameters construct_type_name =
     (if lvalue = [] \<or> startswith lvalue ''None'' then Inl AssertionError
      else if cannot_be_constructed \<or> incomplete_type then Inl TypeError
      else Inr [lvalue @ '' = new '' @ construct_type_name @ ''('' @ parameters @ '');'',
                lvalue @ ''->Ref ();''])"

definition post_instance_creation :: "string \<Rightarrow> string" where
  "post_instance_creation lvalue = ''ns3::CompleteConstruct('' @ lvalue @ '');''"

text \<open>Parameters of methods, as \<open>Attribute_customizations\<close> reads and changes them.\<close>

record method_param =
  is_class_ref :: bool
  ref_class :: string
  p_default :: "string option"
  p_default_type :: "string option"

definition fix_attribute_param :: "method_param \<Rightarrow> method_param" where
  "fix_attribute_param p =
     (if is_class_ref p \<and> ref_class p = ''AttributeValue'' \<and> p_default p \<noteq> None \<and> p_default_type p = None
      then p\<lparr>p_default_type := Some ''ns3::EmptyAttributeValue''\<rparr> else p)"

definition Attribute_customizations :: "method_param list list list \<Rightarrow> method_param list list list" where
  "Attribute_customizations classes = map (map (map fix_attribute_param)) classes"

section \<open>The driver for all modules\<close>

text \<open>\<open>l.remove(x)\<close>.\<close>

definition list_remove :: "'a \<Rightarrow> 'a list \<Rightarrow> 'a list py" where
  "list_remove x xs = (if x \<in> set xs then Inr (remove1 x xs) else Inl ValueError)"

definition remove_class :: "bind_module \<Rightarrow> string \<Rightarrow> bind_module py" where
  "remove_class m name =
     with_entry name m (py_bind (list_remove name (m_classes m)) (\<lambda>cs. Inr (m\<lparr>m_classes := cs\<rparr>)))"

definition remove_enum :: "bind_module \<Rightarrow> string \<Rightarrow> bind_module py" where
  "remove_enum m name =
     with_entry name m (py_bind (list_remove name (m_enums m)) (\<lambda>es. Inr (m\<lparr>m_enums := es\<rparr>)))"

definition ns3_name :: "string \<Rightarrow> string" where
  "ns3_name n = ''ns3::'' @ n"

text \<open>A feature whose class may be missing, and one whose classes must be there.\<close>

definition drop_optional :: "string list \<Rightarrow> string \<Rightarrow> bind_module \<Rightarrow> bind_module py" where
  "drop_optional enabled feature m =
     (if feature \<in> set enabled then Inr m
      else (case remove_class m (ns3_name feature) of
              Inl e \<Rightarrow> if e = KeyError then Inr m else Inl e
            | Inr m' \<Rightarrow> Inr m'))"

definition drop_feature :: "string list \<Rightarrow> string \<Rightarrow> string list \<Rightarrow> string list \<Rightarrow> bind_module \<Rightarrow> bind_module py" where
  "drop_feature enabled feature classes enums m =
     (if feature \<in> set enabled then Inr m
      else py_bind (run_steps remove_class m (map ns3_name classes)) (\<lambda>m.
             run_steps remove_enum m (map ns3_name enums)))"

definition feature_table :: "(string \<times> string list \<times> string list) list" where
  "feature_table =
    [(''Threading'', [''SystemThread'', ''SystemMutex'', ''SystemCondition'', ''CriticalSection'',
        ''SimpleRefCount< ns3::SystemThread, ns3::empty, ns3::DefaultDeleter<ns3::SystemThread> >''], []),
     (''EmuNetDevice'', [''EmuNetDevice'', ''EmuHelper''], [''EmuNetDevice::EncapsulationMode'']),
     (''RealTime'', [''WallClockSynchronizer'', ''RealtimeSimulatorImpl''],
        [''RealtimeSimulatorImpl::SynchronizationMode'']),
     (''TapBridge'', [''TapBridge'', ''TapBridgeHelper'', ''TapBridgeFdReader''], [''TapBridge::Mode''])]"

definition disable_features :: "string list \<Rightarrow> bind_module \<Rightarrow> bind_module py" where
  "disable_features enabled m =
     py_bind (drop_optional enabled ''GtkConfigStore'' m) (\<lambda>m.
     py_bind (drop_optional enabled ''SqliteDataOutput'' m) (\<lambda>m.
       run_steps (\<lambda>m (f, cs, es). drop_feature enabled f cs es m) m feature_table))"

text \<open>\<open>features\<close> is the value of the environment variable, if it is set.\<close>

definition generate_all ::
  "type_oracle \<Rightarrow> string list list \<Rightarrow> string option \<Rightarrow> bind_module \<Rightarrow> bind_module py" where
  "generate_all tys callback_classes features m =
     py_bind (Simulator_customizations (log_reg [AddInclude ([dquote] @ ''everything.h'' @ [dquote]), RegisterTypes] m)) (\<lambda>m.
     py_bind (CommandLine_customizations m) (\<lambda>m.
     py_bind (TypeId_customizations m) (\<lambda>m.
     py_bind (add_ipv4_address_tp_hash (add_std_ofstream m)) (\<lambda>m.
     py_bind (generate_callback_classes tys 0 callback_classes) (\<lambda>cs.
       let m = log_reg [AttributeDefaults, RegisterFunctions]
                 (Object_customizations (log_reg [Callbacks cs, RegisterMethods] m))
       in case features of
            None \<Rightarrow> Inl KeyError
          | Some v \<Rightarrow>
              py_bind (disable_features (split_char CHR '','' v) m) (\<lambda>m. Inr (log_reg [Generate] m)))))))"

text \<open>
  \<^verbatim>\<open>src/core/bindings/modulegen_customizations.py\<close> holds a copy of these customizations, with one method
  more, and applies them after the types of the core module are registered.
\<close>

definition core_Simulator_customizations :: "bind_module \<Rightarrow> bind_module py" where
  "core_Simulator_customizations m =
     with_entry ''ns3::Simulator'' m
       (Inr (log_reg (map (\<lambda>f. CustomMethod f (''_wrap_Simulator_'' @ f) static_flags)
              [''Schedule'', ''ScheduleNow'', ''ScheduleWithContext'', ''ScheduleDestroy'', ''Run'']) m))"

definition core_post_register_types :: "string option \<Rightarrow> bind_module \<Rightarrow> bind_module py" where
  "core_post_register_types features m =
     py_bind (core_Simulator_customizations m) (\<lambda>m.
     py_bind (CommandLine_customizations m) (\<lambda>m.
     py_bind (TypeId_customizations m) (\<lambda>m.
       case features of
         None \<Rightarrow> Inl KeyError
       | Some v \<Rightarrow>
           py_bind (run_steps (\<lambda>m (f, cs, es). drop_feature (split_char CHR '','' v) f cs es m) (add_std_ofstream m)
               (filter (\<lambda>(f, cs, es). f \<in> {''Threading'', ''RealTime''}) feature_table)) (\<lambda>m.
             Inr (log_reg [AfterInit ''PyEval_InitThreads();''] m)))))"

section \<open>The driver for one module\<close>

text \<open>
  The optional customizations of a module, and the list of callbacks: \<open>None\<close> when there is no file, otherwise
  its text, which the interpreter reads.
\<close>

record customization =
  post_types :: bool
  post_methods :: bool
  post_functions :: bool

definition import_callbacks :: "string option \<Rightarrow> string list list option" where
  "import_callbacks file =
     (case file of
        None \<Rightarrow> Some []
      | Some text \<Rightarrow>
          (case literal ''callback_classes = '' text of
             None \<Rightarrow> None
           | Some rest \<Rightarrow>
               (case lex_literal rest of Some (TOpen # ts) \<Rightarrow> parse_lists ts | _ \<Rightarrow> None)))"

definition generate_one ::
  "type_oracle \<Rightarrow> customization option \<Rightarrow> string list list \<Rightarrow> string \<Rightarrow> string \<Rightarrow> bind_module \<Rightarrow> bind_module py" where
  "generate_one tys custom callback_classes extension_name module_name m =
     (let has = (\<lambda>f r. case custom of None \<Rightarrow> [] | Some c \<Rightarrow> if f c then [r] else []);
          m = log_reg [SetName extension_name,
                AddInclude ([dquote] @ ''ns3/'' @ module_name @ ''-module.h'' @ [dquote])] m;
          m = log_reg (RegisterTypes # has post_types PostTypes) (add_std_ios_openmode m)
      in py_bind (generate_callback_classes tys 0 callback_classes) (\<lambda>cs.
           let m = log_reg (Callbacks cs # RegisterMethods # has post_methods PostMethods) m
           in Inr (log_reg ([AttributeDefaults, RegisterFunctions] @ has post_functions PostFunctions @ [Generate])
                (Object_customizations m))))"

section \<open>Errors in wrappers\<close>

text \<open>
  The place that a warning names: a file and a line, or none. \<open>stack.reverse()\<close> reverses the list that the
  wrapper holds, so the new list is part of the result.
\<close>

type_synonym frames = "(string \<times> int) list"

definition handle_error_one :: "string \<Rightarrow> frames \<Rightarrow> (string \<times> int) option \<times> frames" where
  "handle_error_one apidefs_file stack =
     (find (\<lambda>l. fst l = apidefs_file) (rev stack), rev stack)"

text \<open>The driver for all modules copies the stack and takes the last frame under its directory.\<close>

definition handle_error_all :: "(string \<Rightarrow> string) \<Rightarrow> string \<Rightarrow> frames option \<Rightarrow> string option" where
  "handle_error_all abspath this_script_dir stack =
     (case stack of
        None \<Rightarrow> Some ''??:??''
      | Some frames \<Rightarrow>
          map_option (\<lambda>(filename, line_number).
              foldl path_join ''..'' [''bindings'', ''python'', path_basename filename] @ '':'' @ str_int line_number)
            (find (\<lambda>(filename, line_number). startswith (path_dirname (abspath filename)) this_script_dir) (rev frames)))"

section \<open>The files of a driver\<close>

record section_factory =
  main_file :: string
  header_file :: string
  section_sinks :: "(string, string) dict"

definition new_factory :: "string \<Rightarrow> string list \<Rightarrow> section_factory" where
  "new_factory main_file_name modules =
     \<lparr>main_file = main_file_name,
      header_file = path_join (path_join (path_dirname main_file_name) ''pch'') ''ns3module.h'',
      section_sinks = foldl (\<lambda>d m. AList.update (module_section m)
          (path_join (path_dirname main_file_name) (module_section m @ ''.cc'')) d)
        [(''__main__'', main_file_name)] modules\<rparr>"

definition get_section_code_sink :: "section_factory \<Rightarrow> string \<Rightarrow> string py" where
  "get_section_code_sink f name = dict_get (section_sinks f) name"

section \<open>Reading type names\<close>

definition blank :: "string \<Rightarrow> bool" where
  "blank w \<longleftrightarrow> list_all is_space w"

text \<open>The name of a type, without qualifiers, as it stands between the brackets.\<close>

definition plain_type :: "string \<Rightarrow> bool" where
  "plain_type t \<longleftrightarrow> t \<noteq> [] \<and> CHR ''>'' \<notin> set t \<and> \<not> is_space (hd t) \<and> \<not> is_space (last t) \<and>
     \<not> startswith t ''const '' \<and> \<not> endswith t '' const'' \<and> \<not> startswith t ''::'' \<and> t \<noteq> ''const''"

lemma dropWhile_blank: "blank w \<Longrightarrow> x = [] \<or> \<not> is_space (hd x) \<Longrightarrow> dropWhile is_space (w @ x) = x"
  by (induction w) (auto simp: blank_def intro: dropWhile_eq_self_iff [THEN iffD2])

lemma strip_pad:
  assumes "blank v" "blank w" "x \<noteq> []" "\<not> is_space (hd x)" "\<not> is_space (last x)"
  shows "strip (v @ x @ w) = x"
proof -
  have "dropWhile is_space (v @ x @ w) = x @ w"
    using assms by (intro dropWhile_blank) (auto simp: hd_append)
  moreover have "dropWhile is_space (rev w @ rev x) = rev x"
    using assms by (intro dropWhile_blank) (auto simp: blank_def hd_rev list_all_iff)
  ultimately show ?thesis by (simp add: strip_def)
qed

lemma blank_free: "blank w \<Longrightarrow> CHR ''>'' \<notin> set w"
proof
  assume "blank w" "CHR ''>'' \<in> set w"
  then have "is_space CHR ''>''" unfolding blank_def list_all_iff by blast
  then show False by (simp add: is_space_def)
qed

lemma match_pointer_text:
  assumes "CHR ''>'' \<notin> set x" "x \<noteq> []" "blank w"
  shows "match_pointer pre (pre @ ''Ptr<'' @ x @ ''>'' @ w) = Some x"
  using assms literal_append [of "pre @ ''Ptr<''" "x @ CHR ''>'' # w"]
  by (simp add: match_pointer_def Let_def blank_def)

abbreviation pointer_prefixes :: "string set" where
  "pointer_prefixes \<equiv> {''ns3::'', ''::ns3::'', []}"

lemma match_ptr_text:
  assumes "pre \<in> pointer_prefixes" "CHR ''>'' \<notin> set x" "x \<noteq> []" "blank w"
  shows "match_ptr (pre @ ''Ptr<'' @ x @ ''>'' @ w) = Some x"
proof -
  have "match_pointer ''ns3::'' (pre @ ''Ptr<'' @ x @ ''>'' @ w) = None" if "pre \<noteq> ''ns3::''"
    using that assms(1) by (auto simp: match_pointer_def literal_def startswith_def)
  moreover have "match_pointer ''::ns3::'' (pre @ ''Ptr<'' @ x @ ''>'' @ w) = None" if "pre \<noteq> ''::ns3::''"
    using that assms(1) by (auto simp: match_pointer_def literal_def startswith_def)
  ultimately show ?thesis using match_pointer_text [OF assms(2-4), of pre] assms(1)
    by (auto simp: match_ptr_def)
qed

lemma not_const_prefix:
  assumes "\<not> startswith t ''const ''" "t \<noteq> ''const''" "t \<noteq> []"
  shows "\<not> startswith (t @ '' const'') ''const ''"
proof
  assume "startswith (t @ '' const'') ''const ''"
  then obtain us where "''const '' = t @ us" "prefix us '' const''"
    using assms(1) by (auto simp: startswith_def prefix_append)
  then show False using assms by (auto simp: prefix_Cons append_eq_Cons_conv Cons_eq_append_conv startswith_def)
qed

definition spelling :: "bool \<Rightarrow> bool \<Rightarrow> string \<Rightarrow> string \<Rightarrow> string" where
  "spelling front rear c t = (if front then ''const '' else []) @ c @ t @ (if rear then '' const'' else [])"

lemma unqualified_spelling:
  assumes "plain_type t" "c \<in> {[], ''::''}"
  shows "unqualified (spelling front rear c t) = (front, rear, c @ t)"
proof -
  have 1: "startswith (spelling front rear c t) ''const '' \<longleftrightarrow> front"
    using assms not_const_prefix [of t] by (auto simp: spelling_def plain_type_def startswith_def)
  have 2: "endswith (c @ t) '' const'' = False"
    using assms by (auto simp: endswith_def plain_type_def suffix_append suffix_Cons)
  have 3: "endswith (c @ t @ '' const'') '' const''" by (auto simp: endswith_def suffix_def)
  show ?thesis using 1 2 3 by (cases front; cases rear) (simp_all add: unqualified_def Let_def spelling_def)
qed

lemma spelling_ends:
  assumes "plain_type t" "c \<in> {[], ''::''}"
  shows "spelling front rear c t \<noteq> []" "CHR ''>'' \<notin> set (spelling front rear c t)"
    "\<not> is_space (hd (spelling front rear c t))" "\<not> is_space (last (spelling front rear c t))"
  using assms by (auto simp: spelling_def plain_type_def is_space_def)

lemma type_traits_spelling:
  assumes t: "plain_type t" and c: "c \<in> {[], ''::''}" and pre: "pre \<in> pointer_prefixes"
    and blanks: "blank u" "blank v" "blank w"
  shows "type_traits (pre @ ''Ptr<'' @ u @ spelling front rear c t @ v @ ''>'' @ w) =
    (Some (t @ '' *''), front \<or> rear)"
proof -
  let ?s = "spelling front rear c t"
  note ends = spelling_ends [OF t c, of front rear]
  have "match_ptr (pre @ ''Ptr<'' @ (u @ ?s @ v) @ ''>'' @ w) = Some (u @ ?s @ v)"
    using ends blanks blank_free by (intro match_ptr_text [OF pre]) auto
  moreover have "strip (u @ ?s @ v) = ?s" using ends blanks by (intro strip_pad)
  moreover have "\<not> startswith (t @ '' *'') ''::''"
    using t by (cases t; cases "tl t") (auto simp: plain_type_def startswith_def)
  ultimately show ?thesis using c unqualified_spelling [OF t c, of front rear]
    by (auto simp: type_traits_def startswith_def)
qed

section \<open>Reading the list of callbacks\<close>

definition callback_templates :: "pygccxml \<Rightarrow> (string \<times> string) list \<Rightarrow> string list list" where
  "callback_templates pg classes =
     map (\<lambda>(n, d). snd (template_split pg d)) (filter (\<lambda>(n, d). startswith n ''Callback<'') classes)"

lemma callback_lines_eq:
  "callback_lines pg classes = Inr ls \<Longrightarrow>
     ls = map (\<lambda>ps. ''    '' @ py_repr_list ps @ '','' @ nl) (callback_templates pg classes)"
  by (induction pg classes arbitrary: ls rule: callback_lines.induct)
    (auto simp: callback_templates_def split: if_splits)

lemma lex_blank: "blank w \<Longrightarrow> lex_literal (w @ s) = lex_literal s"
  by (induction w) (simp_all add: blank_def)

fun list_toks :: "string list list \<Rightarrow> tok list" where
  "list_toks [] = [TClose]"
| "list_toks (ps # pss) = TOpen # string_toks ps @ TComma # list_toks pss"

lemma lex_callback_lines:
  "lex_literal (concat (map (\<lambda>ps. ''    '' @ py_repr_list ps @ '','' @ nl) pss) @ '']'' @ nl) = Some (list_toks pss)"
proof (induction pss)
  case Nil
  then show ?case by (simp add: is_space_def)
next
  case (Cons ps pss)
  let ?rest = "concat (map (\<lambda>ps. ''    '' @ py_repr_list ps @ '','' @ nl) pss) @ '']'' @ nl"
  have "blank ''    ''" "blank nl" by (simp_all add: blank_def is_space_def)
  note skip = lex_blank [OF this(1)] lex_blank [OF this(2)]
  have comma: "lex_literal ('','' @ s) = map_option ((#) TComma) (lex_literal s)" for s
    by (simp add: is_space_def)
  have "lex_literal (''    '' @ py_repr_list ps @ '','' @ nl @ ?rest) =
      map_option ((@) (TOpen # string_toks ps)) (map_option ((#) TComma) (lex_literal ?rest))"
    by (simp only: skip comma lex_repr_list)
  then show ?case unfolding Cons.IH by simp
qed

lemma parse_list_toks: "parse_lists (list_toks pss) = Some pss"
  by (induction pss) (simp_all add: parse_lists.simps [of "TOpen # _"] parse_lists.simps [of "[TClose]"] parse_string_toks)

section \<open>Properties\<close>

text \<open>
  C30: the two halves of the scan agree. The file that \<open>scan_callback_classes\<close> writes is read by the
  generator as the list of the template parameters of every callback class, in order, whatever
  characters they contain.
\<close>

theorem callback_list_roundtrip:
  assumes "scan_callback_classes pg classes = Inr contents"
  shows "import_callbacks (Some contents) = Some (callback_templates pg classes)"
proof -
  obtain ls where ls: "callback_lines pg classes = Inr ls"
    and contents: "contents = ''callback_classes = ['' @ nl @ concat ls @ '']'' @ nl"
    using assms by (auto simp: scan_callback_classes_def)
  let ?rest = "''['' @ nl @ concat ls @ '']'' @ nl"
  have "literal ''callback_classes = '' contents = Some ?rest"
    unfolding contents using literal_append [of "''callback_classes = ''" ?rest] by simp
  moreover have "lex_literal (nl @ concat ls @ '']'' @ nl) = Some (list_toks (callback_templates pg classes))"
    using lex_callback_lines [of "callback_templates pg classes"] lex_blank [of nl]
    by (simp add: callback_lines_eq [OF ls] blank_def is_space_def)
  ultimately show ?thesis by (simp add: import_callbacks_def parse_list_toks is_space_def)
qed

theorem callback_list_roundtrip_witness:
  "\<exists>contents. scan_callback_classes (demo_pygccxml\<lparr>is_instantiation := \<lambda>_. True, template_split := \<lambda>d. ([], [''void'', d])\<rparr>)
       [(''Callback<void>'', ''it's''), (''Other'', ''x'')] = Inr contents \<and>
     import_callbacks (Some contents) = Some [[''void'', ''it's'']]"
proof -
  let ?pg = "demo_pygccxml\<lparr>is_instantiation := \<lambda>_. True, template_split := \<lambda>d. ([], [''void'', d])\<rparr>"
  let ?cs = "[(''Callback<void>'', ''it's''), (''Other'', ''x'')]"
  obtain contents where contents: "scan_callback_classes ?pg ?cs = Inr contents"
    by (simp add: scan_callback_classes_def startswith_def)
  show ?thesis using callback_list_roundtrip [OF contents] contents
    by (simp add: callback_templates_def startswith_def)
qed

text \<open>
  C31: the smart pointer transformation reads every spelling of a pointer type the same way. With any
  of the three prefixes, blanks around the name, \<open>const\<close> before or behind it, and a leading
  \<open>::\<close>, a parameter gets the canonical C++ type and the untransformed type \<open>T *\<close>, and the canonical
  type is read back to the same type and qualifier.
\<close>

theorem smart_pointer_normal_form:
  assumes "plain_type t" "c \<in> {[], ''::''}" "pre \<in> pointer_prefixes" "blank u" "blank v" "blank w"
  shows "\<exists>ctype.
     create_type_handler ParameterHandler (pre @ ''Ptr<'' @ u @ spelling front rear c t @ v @ ''>'' @ w) =
       Inr (ctype, ''transfer_ownership'', t @ '' *'') \<and>
     ctype = (if front \<or> rear then ''ns3::Ptr< '' @ t @ '' const >'' else ''ns3::Ptr< '' @ t @ '' >'') \<and>
     type_traits ctype = (Some (t @ '' *''), front \<or> rear)"
proof -
  have blanks: "blank '' ''" "blank []" by (simp_all add: blank_def is_space_def)
  have "type_traits (''ns3::'' @ ''Ptr<'' @ '' '' @ spelling False (front \<or> rear) [] t @ '' '' @ ''>'' @ []) =
      (Some (t @ '' *''), front \<or> rear)"
    using type_traits_spelling [OF assms(1) _ _ blanks(1,1,2), of "[]" "''ns3::''" False "front \<or> rear"] by simp
  moreover note type_traits_spelling [OF assms, of front rear]
  ultimately show ?thesis by (auto simp: create_type_handler_def spelling_def)
qed

theorem smart_pointer_normal_form_witness:
  "create_type_handler ParameterHandler ''::ns3::Ptr<const ::ns3::Node >  '' =
     Inr (''ns3::Ptr< ns3::Node const >'', ''transfer_ownership'', ''ns3::Node *'')"
proof -
  have "plain_type ''ns3::Node''" by (simp add: plain_type_def is_space_def startswith_def endswith_def suffix_def)
  moreover have "blank []" "blank '' ''" "blank ''  ''" by (simp_all add: blank_def is_space_def)
  ultimately show ?thesis
    using smart_pointer_normal_form [of "''ns3::Node''" "''::''" "''::ns3::''" "[]" "'' ''" "''  ''" True False]
    by (simp add: spelling_def)
qed

lemma str_nat_inj: "str_nat a = str_nat b \<Longrightarrow> a = b"
  by (metis int_of_digits_str_nat of_nat_eq_iff)

definition callback_known :: "type_oracle \<Rightarrow> string list \<Rightarrow> bool" where
  "callback_known tys ps \<longleftrightarrow>
     return_known tys (hd ps) \<and> (\<forall>(t, n) \<in> set (callback_args (tl ps)). param_known tys t n)"

lemma generate_callback_classes_eq:
  "[] \<notin> set callbacks \<Longrightarrow>
   \<exists>cs. generate_callback_classes tys n callbacks = Inr cs \<and>
     map targs cs = filter (callback_known tys) callbacks \<and> distinct (map impl_name cs) \<and>
     (\<forall>c \<in> set cs. \<exists>k \<ge> n. impl_name c = ''PythonCallbackImpl'' @ str_nat k)"
proof (induction callbacks arbitrary: n)
  case (Cons ps callbacks)
  obtain ret rest where ps: "ps = ret # rest" using Cons.prems by (cases ps) auto
  obtain cs where cs: "generate_callback_classes tys (Suc n) callbacks = Inr cs"
    "map targs cs = filter (callback_known tys) callbacks" "distinct (map impl_name cs)"
    and names: "\<forall>c \<in> set cs. \<exists>k \<ge> Suc n. impl_name c = ''PythonCallbackImpl'' @ str_nat k"
    using Cons.IH [of "Suc n"] Cons.prems by auto
  have new: "''PythonCallbackImpl'' @ str_nat n \<notin> set (map impl_name cs)"
    using names by (fastforce dest: str_nat_inj)
  have later: "\<forall>c \<in> set cs. \<exists>k \<ge> n. impl_name c = ''PythonCallbackImpl'' @ str_nat k"
    using names by (meson Suc_leD)
  have known: "callback_known tys ps \<longleftrightarrow>
      return_known tys ret \<and> list_all (\<lambda>(t, n). param_known tys t n) (callback_args rest)"
    by (simp add: callback_known_def ps list_all_iff)
  show ?case using cs new later
    by (simp add: generate_callback_class_def ps known [unfolded ps] Let_def) (auto simp: ps)
qed simp

lemma generate_callback_classes_error:
  "generate_callback_classes tys n callbacks = Inl e \<Longrightarrow> [] \<in> set callbacks \<and> e = IndexError"
  by (induction callbacks arbitrary: n)
    (auto simp: py_bind_eq_Inl generate_callback_class_def Let_def split: list.splits)

lemma generate_callback_classes_nonempty:
  "generate_callback_classes tys n callbacks = Inr cs \<Longrightarrow> [] \<notin> set callbacks"
  by (induction callbacks arbitrary: n cs) (auto simp: generate_callback_class_def)

text \<open>
  The classes generated for callbacks. Exactly the callbacks whose return and parameter types are all
  known get a class, in the order of the list, with the template parameters of the callback; the names
  of the classes are distinct. The only exception is the one for an empty list of parameters.
\<close>

lemma callback_classes_generated:
  "(case generate_callback_classes tys 0 callbacks of
      Inr cs \<Rightarrow> [] \<notin> set callbacks \<and> map targs cs = filter (callback_known tys) callbacks \<and>
        distinct (map impl_name cs)
    | Inl e \<Rightarrow> [] \<in> set callbacks \<and> e = IndexError)"
proof (cases "generate_callback_classes tys 0 callbacks")
  case (Inl e)
  then show ?thesis using generate_callback_classes_error [OF Inl] by simp
next
  case (Inr cs)
  note nonempty = generate_callback_classes_nonempty [OF Inr]
  then show ?thesis using Inr generate_callback_classes_eq [OF nonempty, of tys 0] by auto
qed

section \<open>Disabled features\<close>

definition disabled_classes :: "string list \<Rightarrow> string list" where
  "disabled_classes enabled =
     map ns3_name
       (filter (\<lambda>f. f \<notin> set enabled) [''GtkConfigStore'', ''SqliteDataOutput''] @
        concat (map (\<lambda>(f, cs, es). if f \<in> set enabled then [] else cs) feature_table))"

definition disabled_enums :: "string list \<Rightarrow> string list" where
  "disabled_enums enabled =
     map ns3_name (concat (map (\<lambda>(f, cs, es). if f \<in> set enabled then [] else es) feature_table))"

definition module_ok :: "bind_module \<Rightarrow> bool" where
  "module_ok m \<longleftrightarrow> distinct (m_classes m) \<and> distinct (m_enums m)"

lemma remove_class_Inr:
  "remove_class m n = Inr m' \<Longrightarrow> module_ok m \<Longrightarrow>
     module_ok m' \<and> m_classes m' = filter (\<lambda>c. n \<noteq> c) (m_classes m) \<and> m_enums m' = m_enums m \<and>
     m_known m' = m_known m \<and> m_log m' = m_log m"
  by (auto simp: remove_class_def with_entry_def list_remove_def module_ok_def distinct_remove1_removeAll
      removeAll_filter_not_eq split: if_splits)

lemma remove_enum_Inr:
  "remove_enum m n = Inr m' \<Longrightarrow> module_ok m \<Longrightarrow>
     module_ok m' \<and> m_enums m' = filter (\<lambda>c. n \<noteq> c) (m_enums m) \<and> m_classes m' = m_classes m \<and>
     m_known m' = m_known m \<and> m_log m' = m_log m"
  by (auto simp: remove_enum_def with_entry_def list_remove_def module_ok_def distinct_remove1_removeAll
      removeAll_filter_not_eq split: if_splits)

lemma remove_classes_Inr:
  "run_steps remove_class m ns = Inr m' \<Longrightarrow> module_ok m \<Longrightarrow>
     module_ok m' \<and> m_classes m' = filter (\<lambda>c. c \<notin> set ns) (m_classes m) \<and> m_enums m' = m_enums m"
proof (induction ns arbitrary: m)
  case (Cons n ns)
  then obtain m1 where m1: "remove_class m n = Inr m1" and rest: "run_steps remove_class m1 ns = Inr m'" by auto
  note first = remove_class_Inr [OF m1 Cons.prems(2)]
  then show ?case using Cons.IH [OF rest] by (auto intro: filter_cong)
qed simp

lemma remove_enums_Inr:
  "run_steps remove_enum m ns = Inr m' \<Longrightarrow> module_ok m \<Longrightarrow>
     module_ok m' \<and> m_enums m' = filter (\<lambda>c. c \<notin> set ns) (m_enums m) \<and> m_classes m' = m_classes m"
proof (induction ns arbitrary: m)
  case (Cons n ns)
  then obtain m1 where m1: "remove_enum m n = Inr m1" and rest: "run_steps remove_enum m1 ns = Inr m'" by auto
  note first = remove_enum_Inr [OF m1 Cons.prems(2)]
  then show ?case using Cons.IH [OF rest] by (auto intro: filter_cong)
qed simp

text \<open>What one step removes from the classes and the enumerations.\<close>

definition drops :: "bind_module \<Rightarrow> string list \<Rightarrow> string list \<Rightarrow> bind_module \<Rightarrow> bool" where
  "drops m cs es m' \<longleftrightarrow> module_ok m' \<and> m_classes m' = filter (\<lambda>c. c \<notin> set cs) (m_classes m) \<and>
     m_enums m' = filter (\<lambda>e. e \<notin> set es) (m_enums m)"

lemma drops_trans: "drops m cs es m1 \<Longrightarrow> drops m1 cs' es' m2 \<Longrightarrow> drops m (cs @ cs') (es @ es') m2"
  by (auto simp: drops_def intro: filter_cong)

lemma drop_feature_drops:
  assumes "drop_feature enabled f cs es m = Inr m'" and "module_ok m"
  shows "drops m (if f \<in> set enabled then [] else map ns3_name cs)
    (if f \<in> set enabled then [] else map ns3_name es) m'"
  using assms by (auto simp: drop_feature_def drops_def split: if_splits
      dest!: remove_classes_Inr remove_enums_Inr)

lemma drop_optional_drops:
  assumes "drop_optional enabled f m = Inr m'" and "module_ok m" and "set (m_classes m) \<subseteq> set (m_known m)"
  shows "drops m (if f \<in> set enabled then [] else [ns3_name f]) [] m' \<and> m_known m' = m_known m"
proof (cases "remove_class m (ns3_name f)")
  case (Inl e)
  show ?thesis
  proof (cases "f \<in> set enabled")
    case False
    then have "e = KeyError" "m' = m" using assms(1) Inl by (auto simp: drop_optional_def split: if_splits)
    then have "ns3_name f \<notin> set (m_known m)"
      using Inl by (auto simp: remove_class_def with_entry_def list_remove_def split: if_splits)
    then have "ns3_name f \<notin> set (m_classes m)" using assms(3) by blast
    then have "filter (\<lambda>c. c \<notin> set [ns3_name f]) (m_classes m) = m_classes m" by (auto simp: filter_id_conv)
    then show ?thesis using False \<open>m' = m\<close> assms(2) by (auto simp: drops_def)
  qed (use assms in \<open>simp add: drop_optional_def drops_def\<close>)
next
  case (Inr m1)
  then show ?thesis using assms remove_class_Inr [OF Inr assms(2)]
    by (auto simp: drop_optional_def drops_def split: if_splits intro!: filter_cong)
qed

lemma drop_features_drops:
  "run_steps (\<lambda>m (f, cs, es). drop_feature enabled f cs es m) m fs = Inr m' \<Longrightarrow> module_ok m \<Longrightarrow>
     drops m (map ns3_name (concat (map (\<lambda>(f, cs, es). if f \<in> set enabled then [] else cs) fs)))
       (map ns3_name (concat (map (\<lambda>(f, cs, es). if f \<in> set enabled then [] else es) fs))) m'"
proof (induction fs arbitrary: m)
  case (Cons x fs)
  obtain f cs es where x: "x = (f, cs, es)" by (cases x)
  obtain m1 where m1: "drop_feature enabled f cs es m = Inr m1"
    and rest: "run_steps (\<lambda>m (f, cs, es). drop_feature enabled f cs es m) m1 fs = Inr m'"
    using Cons.prems(1) by (auto simp: x)
  note d = drop_feature_drops [OF m1 Cons.prems(2)]
  then have "module_ok m1" by (simp add: drops_def)
  from drops_trans [OF d Cons.IH [OF rest this]] show ?case by (simp add: x split: if_splits)
qed (simp add: drops_def)

text \<open>
  C32: what the driver leaves out. When it returns, the classes and enumerations left in the module are
  those it had before, in order, without the ones of the features that are not enabled.
\<close>

theorem disabled_features_left_out:
  assumes "module_ok m" and "set (m_classes m) \<subseteq> set (m_known m)" and "disable_features enabled m = Inr m'"
  shows "m_classes m' = filter (\<lambda>c. c \<notin> set (disabled_classes enabled)) (m_classes m) \<and>
     m_enums m' = filter (\<lambda>e. e \<notin> set (disabled_enums enabled)) (m_enums m)"
proof -
  obtain m1 m2 where m1: "drop_optional enabled ''GtkConfigStore'' m = Inr m1"
    and m2: "drop_optional enabled ''SqliteDataOutput'' m1 = Inr m2"
    and rest: "run_steps (\<lambda>m (f, cs, es). drop_feature enabled f cs es m) m2 feature_table = Inr m'"
    using assms(3) by (auto simp: disable_features_def)
  have d1: "drops m (if ''GtkConfigStore'' \<in> set enabled then [] else [ns3_name ''GtkConfigStore'']) [] m1"
    and known: "m_known m1 = m_known m"
    using drop_optional_drops [OF m1 assms(1,2)] by simp_all
  then have "module_ok m1" "set (m_classes m1) \<subseteq> set (m_known m1)" using assms(2) by (auto simp: drops_def)
  then have d2: "drops m1 (if ''SqliteDataOutput'' \<in> set enabled then [] else [ns3_name ''SqliteDataOutput'']) [] m2"
    using drop_optional_drops [OF m2] by simp
  then have "module_ok m2" by (simp add: drops_def)
  from drops_trans [OF drops_trans [OF d1 d2] drop_features_drops [OF rest this]]
  show ?thesis by (auto simp: drops_def disabled_classes_def disabled_enums_def intro!: filter_cong)
qed

text \<open>A module with two classes of a feature that is not enabled, and one optional class.\<close>

definition demo_module :: bind_module where
  "demo_module =
     (let cs = map ns3_name [''Node'', ''EmuNetDevice'', ''GtkConfigStore'', ''EmuHelper'']
      in \<lparr>m_known = ns3_name ''EmuNetDevice::EncapsulationMode'' # cs, m_classes = cs,
          m_enums = [ns3_name ''EmuNetDevice::EncapsulationMode''], m_log = []\<rparr>)"

theorem disabled_features_left_out_witness:
  "\<exists>m'. disable_features [''Threading'', ''RealTime'', ''TapBridge'', ''GtkConfigStore''] demo_module = Inr m' \<and>
     m_classes m' = [''ns3::Node'', ''ns3::GtkConfigStore''] \<and> m_enums m' = []"
proof -
  let ?on = "[''Threading'', ''RealTime'', ''TapBridge'', ''GtkConfigStore'']"
  let ?run = "disable_features ?on demo_module"
  have "case ?run of Inr r \<Rightarrow> True | Inl e \<Rightarrow> False" by code_simp
  then obtain m' where r: "?run = Inr m'" by (cases ?run) auto
  have ok: "module_ok demo_module" by code_simp
  have sub: "set (m_classes demo_module) \<subseteq> set (m_known demo_module)" by code_simp
  have cs: "filter (\<lambda>c. c \<notin> set (disabled_classes ?on)) (m_classes demo_module) = [''ns3::Node'', ''ns3::GtkConfigStore'']"
    by code_simp
  have es: "filter (\<lambda>e. e \<notin> set (disabled_enums ?on)) (m_enums demo_module) = []" by code_simp
  show ?thesis using disabled_features_left_out [OF ok sub r] r cs es by simp
qed

end
