(* ===== verification/Create_Module.thy ===== *)
theory Create_Module
  imports Py_Text
begin

text \<open>
  \<^verbatim>\<open>src/create-module.py\<close>, which creates the directory of a new module and fills it with files
  made from templates: the templates, Python's \<open>%\<close> operator with a dictionary, and \<open>main\<close> on a file
  system. It is shown which files a run leaves, with which contents, and that every other path is as before.
\<close>

section \<open>Formatting\<close>

text \<open>
  A format is a sequence of characters and of places \<open>%(key)s\<close>, \<open>%(key)r\<close>; \<open>%%\<close> is a percent
  sign. Any other use of the percent sign raises when it is reached.
\<close>

datatype piece = Lit char | PlaceStr string | PlaceRepr string | BadFormat

function format_pieces :: "string \<Rightarrow> piece list" where
  "format_pieces [] = []"
| "format_pieces (c # cs) =
     (if c \<noteq> CHR 0x25 then Lit c # format_pieces cs
      else (case cs of
              [] \<Rightarrow> [BadFormat]
            | d # ds \<Rightarrow>
                if d = CHR 0x25 then Lit d # format_pieces ds
                else if d = CHR 0x28 then
                  (case dropWhile (\<lambda>x. x \<noteq> CHR 0x29) ds of
                     _ # conv # rest \<Rightarrow>
                       let key = takeWhile (\<lambda>x. x \<noteq> CHR 0x29) ds
                       in if conv = CHR ''s'' then PlaceStr key # format_pieces rest
                          else if conv = CHR ''r'' then PlaceRepr key # format_pieces rest
                          else [BadFormat]
                   | _ \<Rightarrow> [BadFormat])
                else [BadFormat]))"
  by pat_completeness auto
termination
proof (relation "measure length", goal_cases)
  case (4 c cs d ds x xs conv rest)
  then show ?case using length_dropWhile_le [of "\<lambda>x. x \<noteq> CHR 0x29" ds] by simp
next
  case (5 c cs d ds x xs conv rest)
  then show ?case using length_dropWhile_le [of "\<lambda>x. x \<noteq> CHR 0x29" ds] by simp
qed simp_all

definition fill_piece :: "(string, string) dict \<Rightarrow> piece \<Rightarrow> string py" where
  "fill_piece d p =
     (case p of
        Lit c \<Rightarrow> Inr [c]
      | PlaceStr key \<Rightarrow> dict_get d key
      | PlaceRepr key \<Rightarrow> py_bind (dict_get d key) (\<lambda>v. Inr (py_repr v))
      | BadFormat \<Rightarrow> Inl ValueError)"

definition format_dict :: "string \<Rightarrow> (string, string) dict \<Rightarrow> string py" where
  "format_dict template d = py_bind (py_map (fill_piece d) (format_pieces template)) (\<lambda>ss. Inr (concat ss))"

section \<open>Templates\<close>

definition wscript_template :: string where
  \<open>wscript_template = lines_of
    [''# -*- Mode: python; py-indent-offset: 4; indent-tabs-mode: nil; coding: utf-8; -*-'',
     [],
     ''# def options(opt):'',
     ''#     pass'',
     [],
     ''# def configure(conf):'',
     ''#     conf.check_nonfatal(header_name='stdint.h', define_name='HAVE_STDINT_H')'',
     [],
     ''def build(bld):'',
     ''    module = bld.create_ns3_module(%(MODULE)r, ['core'])'',
     ''    module.source = ['',
     ''        'model/%(MODULE)s.cc','',
     ''        'helper/%(MODULE)s-helper.cc','',
     ''        ]'',
     [],
     ''    module_test = bld.create_ns3_module_test_library('%(MODULE)s')'',
     ''    module_test.source = ['',
     ''        'test/%(MODULE)s-test-suite.cc','',
     ''        ]'',
     [],
     ''    headers = bld.new_task_gen(features=['ns3header'])'',
     ''    headers.module = %(MODULE)r'',
     ''    headers.source = ['',
     ''        'model/%(MODULE)s.h','',
     ''        'helper/%(MODULE)s-helper.h','',
     ''        ]'',
     [],
     ''    if bld.env.ENABLE_EXAMPLES:'',
     ''        bld.add_subdirs('examples')'',
     [],
     ''    # bld.ns3_python_bindings()'',
     []]\<close>

definition model_cc_template :: string where
  \<open>model_cc_template = lines_of
    [''/* -*- Mode:C++; c-file-style:"gnu"; indent-tabs-mode:nil; -*- */'',
     [],
     ''#include "%(MODULE)s.h"'',
     [],
     ''namespace ns3 {'',
     [],
     ''/* ... */'',
     [],
     [],
     ''}'',
     []]\<close>

definition model_h_template :: string where
  \<open>model_h_template = lines_of
    [''/* -*- Mode:C++; c-file-style:"gnu"; indent-tabs-mode:nil; -*- */'',
     ''#ifndef %(INCLUDE_GUARD)s'',
     ''#define %(INCLUDE_GUARD)s'',
     [],
     ''namespace ns3 {'',
     [],
     ''/* ... */'',
     [],
     ''}'',
     [],
     ''#endif /* %(INCLUDE_GUARD)s */'',
     []]\<close>

definition helper_cc_template :: string where
  \<open>helper_cc_template = lines_of
    [''/* -*- Mode:C++; c-file-style:"gnu"; indent-tabs-mode:nil; -*- */'',
     [],
     ''#include "%(MODULE)s-helper.h"'',
     [],
     ''namespace ns3 {'',
     [],
     ''/* ... */'',
     [],
     [],
     ''}'',
     []]\<close>

definition helper_h_template :: string where
  \<open>helper_h_template = lines_of
    [''/* -*- Mode:C++; c-file-style:"gnu"; indent-tabs-mode:nil; -*- */'',
     ''#ifndef %(INCLUDE_GUARD)s'',
     ''#define %(INCLUDE_GUARD)s'',
     [],
     ''#include "ns3/%(MODULE)s.h"'',
     [],
     ''namespace ns3 {'',
     [],
     ''/* ... */'',
     [],
     ''}'',
     [],
     ''#endif /* %(INCLUDE_GUARD)s */'',
     []]\<close>

definition examples_wscript_template :: string where
  \<open>examples_wscript_template = lines_of
    [''# -*- Mode: python; py-indent-offset: 4; indent-tabs-mode: nil; coding: utf-8; -*-'',
     [],
     ''def build(bld):'',
     ''    obj = bld.create_ns3_program('%(MODULE)s-example', [%(MODULE)r])'',
     ''    obj.source = '' @ [quote] @ ''%(MODULE)s-example.cc'' @ [quote],
     []]\<close>

definition example_cc_template :: string where
  \<open>example_cc_template = lines_of
    [''/* -*- Mode:C++; c-file-style:"gnu"; indent-tabs-mode:nil; -*- */'',
     [],
     ''#include "ns3/core-module.h"'',
     ''#include "ns3/%(MODULE)s-helper.h"'',
     [],
     ''using namespace ns3;'',
     [],
     [],
     ''int '',
     ''main (int argc, char *argv[])'',
     ''{'',
     ''  bool verbose = true;'',
     [],
     ''  CommandLine cmd;'',
     ''  cmd.AddValue ("verbose", "Tell application to log if true", verbose);'',
     [],
     ''  cmd.Parse (argc,argv);'',
     [],
     ''  /* ... */'',
     [],
     ''  Simulator::Run ();'',
     ''  Simulator::Destroy ();'',
     ''  return 0;'',
     ''}'',
     [],
     []]\<close>

definition test_cc_template :: string where
  \<open>test_cc_template = lines_of
    [''/* -*- Mode:C++; c-file-style:"gnu"; indent-tabs-mode:nil; -*- */'',
     [],
     ''// Include a header file from your module to test.'',
     ''#include "ns3/%(MODULE)s.h"'',
     [],
     ''// An essential include is test.h'',
     ''#include "ns3/test.h"'',
     [],
     ''// Do not put your test classes in namespace ns3.  You may find it useful'',
     ''// to use the using directive to access the ns3 namespace directly'',
     ''using namespace ns3;'',
     [],
     ''// This is an example TestCase.'',
     ''class %(CAPITALIZED)sTestCase1 : public TestCase'',
     ''{'',
     ''public:'',
     ''  %(CAPITALIZED)sTestCase1 ();'',
     ''  virtual ~%(CAPITALIZED)sTestCase1 ();'',
     [],
     ''private:'',
     ''  virtual void DoRun (void);'',
     ''};'',
     [],
     ''// Add some help text to this case to describe what it is intended to test'',
     ''%(CAPITALIZED)sTestCase1::%(CAPITALIZED)sTestCase1 ()'',
     ''  : TestCase ("%(CAPITALIZED)s test case (does nothing)")'',
     ''{'',
     ''}'',
     [],
     ''// This destructor does nothing but we include it as a reminder that'',
     ''// the test case should clean up after itself'',
     ''%(CAPITALIZED)sTestCase1::~%(CAPITALIZED)sTestCase1 ()'',
     ''{'',
     ''}'',
     [],
     ''//'',
     ''// This method is the pure virtual method from class TestCase that every'',
     ''// TestCase must implement'',
     ''//'',
     ''void'',
     ''%(CAPITALIZED)sTestCase1::DoRun (void)'',
     ''{'',
     ''  // A wide variety of test macros are available in src/core/test.h'',
     ''  NS_TEST_ASSERT_MSG_EQ (true, true, "true doesn't equal true for some reason");'',
     ''  // Use this one for floating point comparisons'',
     ''  NS_TEST_ASSERT_MSG_EQ_TOL (0.01, 0.01, 0.001, "Numbers are not equal within tolerance");'',
     ''}'',
     [],
     ''// The TestSuite class names the TestSuite, identifies what type of TestSuite,'',
     ''// and enables the TestCases to be run.  Typically, only the constructor for'',
     ''// this class must be defined'',
     ''//'',
     ''class %(CAPITALIZED)sTestSuite : public TestSuite'',
     ''{'',
     ''public:'',
     ''  %(CAPITALIZED)sTestSuite ();'',
     ''};'',
     [],
     ''%(CAPITALIZED)sTestSuite::%(CAPITALIZED)sTestSuite ()'',
     ''  : TestSuite ("%(MODULE)s", UNIT)'',
     ''{'',
     ''  AddTestCase (new %(CAPITALIZED)sTestCase1);'',
     ''}'',
     [],
     ''// Do not forget to allocate an instance of this TestSuite'',
     ''static %(CAPITALIZED)sTestSuite %(MODULE)sTestSuite;'',
     []]\<close>

definition doc_rst_template :: string where
  \<open>doc_rst_template = lines_of
    [''Example Module Documentation'',
     ''----------------------------'',
     [],
     ''.. heading hierarchy:'',
     ''   ------------- Chapter'',
     ''   ************* Section (#.#)'',
     ''   ============= Subsection (#.#.#)'',
     ''   ############# Paragraph (no number)'',
     [],
     ''This is a suggested outline for adding new module documentation to ns-3.'',
     ''See ``src/click/doc/click.rst`` for an example.'',
     [],
     ''The introductory paragraph is for describing what this code is trying to'',
     ''model.'',
     [],
     ''Model Description'',
     ''*****************'',
     [],
     ''The source code for the new module lives in the directory ``src/%(MODULE)s``.'',
     [],
     ''Add here a basic description of what is being modeled.'',
     [],
     ''Design'',
     ''======'',
     [],
     ''Briefly describe the software design of the model and how it fits into '',
     ''the existing ns-3 architecture. '',
     [],
     ''Scope and Limitations'',
     ''====================='',
     [],
     ''What can the model do?  What can it not do?  Please use this section to'',
     ''describe the scope and limitations of the model.'',
     [],
     ''References'',
     ''=========='',
     [],
     ''Add academic citations here, such as if you published a paper on this'',
     ''model, or if readers should read a particular specification or other work.'',
     [],
     ''Usage'',
     ''*****'',
     [],
     ''This section is principally concerned with the usage of your model, using'',
     ''the public API.  Focus first on most common usage patterns, then go'',
     ''into more advanced topics.'',
     [],
     ''Building New Module'',
     ''==================='',
     [],
     ''Include this subsection only if there are special build instructions or'',
     ''platform limitations.'',
     [],
     ''Helpers'',
     ''======='',
     [],
     ''What helper API will users typically use?  Describe it here.'',
     [],
     ''Attributes'',
     ''=========='',
     [],
     ''What classes hold attributes, and what are the key ones worth mentioning?'',
     [],
     ''Output'',
     ''======'',
     [],
     ''What kind of data does the model generate?  What are the key trace'',
     ''sources?   What kind of logging output can be enabled?'',
     [],
     ''Advanced Usage'',
     ''=============='',
     [],
     ''Go into further details (such as using the API outside of the helpers)'',
     ''in additional sections, as needed.'',
     [],
     ''Examples'',
     ''========'',
     [],
     ''What examples using this new code are available?  Describe them here.'',
     [],
     ''Troubleshooting'',
     ''==============='',
     [],
     ''Add any tips for avoiding pitfalls, etc.'',
     [],
     ''Validation'',
     ''**********'',
     [],
     ''Describe how the model has been tested/validated.  What tests run in the'',
     ''test suite?  How much API and code is covered by the tests?  Again, '',
     ''references to outside published work may help here.'']\<close>

section \<open>Names\<close>

definition capitalize :: "string \<Rightarrow> string" where
  "capitalize s = (case s of [] \<Rightarrow> [] | c # cs \<Rightarrow> char_upper c # map char_lower cs)"

definition include_guard :: "string \<Rightarrow> string \<Rightarrow> string" where
  "include_guard modname kind = ''__'' @ map char_upper modname @ kind"

section \<open>File system\<close>

record fsys =
  dirs :: "string list"
  files :: "(string, string) dict"

definition path_exists :: "fsys \<Rightarrow> string \<Rightarrow> bool" where
  "path_exists fs p \<longleftrightarrow> p \<in> set (dirs fs) \<or> has_key (files fs) p"

text \<open>A path can be created where its parent is a directory; the empty parent is the current one.\<close>

definition parent_exists :: "fsys \<Rightarrow> string \<Rightarrow> bool" where
  "parent_exists fs p \<longleftrightarrow> path_dirname p = [] \<or> path_dirname p \<in> set (dirs fs)"

definition mkdir :: "string \<Rightarrow> fsys \<Rightarrow> fsys py" where
  "mkdir p fs =
     (if p = [] \<or> path_exists fs p \<or> \<not> parent_exists fs p then Inl OSError
      else Inr (fs\<lparr>dirs := dirs fs @ [p]\<rparr>))"

definition write_file :: "string \<Rightarrow> string \<Rightarrow> fsys \<Rightarrow> fsys py" where
  "write_file p contents fs =
     (if p = [] \<or> p \<in> set (dirs fs) \<or> \<not> parent_exists fs p then Inl IOError
      else Inr (fs\<lparr>files := AList.update p contents (files fs)\<rparr>))"

datatype action = MkDir string | Create string string "(string, string) dict"

definition run_action :: "fsys \<Rightarrow> action \<Rightarrow> fsys py" where
  "run_action fs a =
     (case a of
        MkDir p \<Rightarrow> mkdir p fs
      | Create p template d \<Rightarrow>
          py_bind (write_file p [] fs) (\<lambda>_. py_bind (format_dict template d) (\<lambda>s. write_file p s fs)))"

section \<open>The program\<close>

definition sub :: "string \<Rightarrow> string list \<Rightarrow> string" where
  "sub dir names = foldl path_join dir names"

definition module_actions :: "string \<Rightarrow> string \<Rightarrow> action list" where
  "module_actions moduledir modname =
     (let m = [(''MODULE'', modname)];
          examplesdir = sub moduledir [''examples'']
      in [MkDir moduledir,
          Create (sub moduledir [''wscript'']) wscript_template m,
          MkDir (sub moduledir [''model'']),
          Create (sub moduledir [''model'', modname @ ''.cc'']) model_cc_template m,
          Create (sub moduledir [''model'', modname @ ''.h'']) model_h_template
            (m @ [(''INCLUDE_GUARD'', include_guard modname ''_H__'')]),
          MkDir (sub moduledir [''test'']),
          Create (sub moduledir [''test'', modname @ ''-test-suite.cc'']) test_cc_template
            (m @ [(''CAPITALIZED'', capitalize modname)]),
          MkDir (sub moduledir [''helper'']),
          Create (sub moduledir [''helper'', modname @ ''-helper.cc'']) helper_cc_template m,
          Create (sub moduledir [''helper'', modname @ ''-helper.h'']) helper_h_template
            (m @ [(''INCLUDE_GUARD'', include_guard modname ''_HELPER_H__'')]),
          MkDir examplesdir,
          Create (sub examplesdir [''wscript'']) examples_wscript_template m,
          Create (sub moduledir [''examples'', modname @ ''-example.cc'']) example_cc_template m,
          MkDir (sub moduledir [''doc'']),
          Create (sub moduledir [''doc'', modname @ ''.rst'']) doc_rst_template m])"

text \<open>\<open>file\<close> is the path of the program; the result is the exit code and the file system.\<close>

definition create_main :: "string \<Rightarrow> string list \<Rightarrow> fsys \<Rightarrow> (int \<times> fsys) py" where
  "create_main file args fs =
     (case args of
        [modname] \<Rightarrow>
          if slash \<in> set modname then Inl AssertionError
          else
            let moduledir = path_join (path_dirname file) modname
            in if path_exists fs moduledir then Inr (2, fs)
               else py_bind (run_steps run_action fs (module_actions moduledir modname)) (\<lambda>fs. Inr (0, fs))
      | _ \<Rightarrow> Inr (1, fs))"

section \<open>Templates are complete\<close>

text \<open>Every place of a template has a value in the dictionary.\<close>

definition piece_ok :: "string list \<Rightarrow> piece \<Rightarrow> bool" where
  "piece_ok keys p =
     (case p of Lit c \<Rightarrow> True | PlaceStr k \<Rightarrow> k \<in> set keys | PlaceRepr k \<Rightarrow> k \<in> set keys | BadFormat \<Rightarrow> False)"

definition template_ok :: "string list \<Rightarrow> string \<Rightarrow> bool" where
  "template_ok keys t \<longleftrightarrow> list_all (piece_ok keys) (format_pieces t)"

definition filled :: "string \<Rightarrow> (string, string) dict \<Rightarrow> string" where
  "filled t d = concat (map (\<lambda>p. case fill_piece d p of Inr s \<Rightarrow> s | Inl _ \<Rightarrow> []) (format_pieces t))"

lemma format_filled:
  assumes "template_ok (map fst d) t"
  shows "format_dict t d = Inr (filled t d)"
proof -
  have "py_map (fill_piece d) (format_pieces t) =
      Inr (map (\<lambda>p. case fill_piece d p of Inr s \<Rightarrow> s | Inl _ \<Rightarrow> []) (format_pieces t))"
  proof (rule py_map_Inr)
    fix p
    assume "p \<in> set (format_pieces t)"
    then have ok: "piece_ok (map fst d) p" using assms by (simp add: template_ok_def list_all_iff)
    then show "fill_piece d p = Inr (case fill_piece d p of Inr s \<Rightarrow> s | Inl _ \<Rightarrow> [])"
      by (cases p) (auto simp: piece_ok_def fill_piece_def dict_get_def map_of_eq_None_iff split: option.splits)
  qed
  then show ?thesis by (simp add: format_dict_def filled_def)
qed

text \<open>A template is checked line by line.\<close>

lemma dropWhile_found: "dropWhile P xs \<noteq> [] \<Longrightarrow> dropWhile P (xs @ ys) = dropWhile P xs @ ys \<and> takeWhile P (xs @ ys) = takeWhile P xs"
  by (induction xs) auto

lemma format_pieces_append:
  "BadFormat \<notin> set (format_pieces s) \<Longrightarrow> format_pieces (s @ r) = format_pieces s @ format_pieces r"
proof (induction s rule: format_pieces.induct)
  case (2 c cs)
  show ?case
  proof (cases "c = CHR 0x25")
    case True
    then obtain d ds where cs: "cs = d # ds" using 2(5) by (cases cs) auto
    show ?thesis
    proof (cases "d = CHR 0x25")
      case True
      then show ?thesis using 2 \<open>c = CHR 0x25\<close> cs by simp
    next
      case False
      then have d: "d = CHR 0x28" using 2(5) \<open>c = CHR 0x25\<close> cs by (simp split: if_splits)
      obtain x conv rest where dw: "dropWhile (\<lambda>x. x \<noteq> CHR 0x29) ds = x # conv # rest"
        using 2(5) \<open>c = CHR 0x25\<close> cs d by (auto split: list.splits)
      then show ?thesis using 2 \<open>c = CHR 0x25\<close> cs d dropWhile_found [of "\<lambda>x. x \<noteq> CHR 0x29" ds r]
        by (auto simp: Let_def)
    qed
  qed (use 2 in simp)
qed simp

lemma template_ok_lines:
  assumes "list_all (template_ok keys) ls"
  shows "template_ok keys (lines_of ls)"
  using assms
proof (induction ls)
  case (Cons l ls)
  then have l: "template_ok keys l" and ls: "template_ok keys (lines_of ls)" by simp_all
  have "BadFormat \<notin> set (format_pieces l)"
    using l by (auto simp: template_ok_def list_all_iff piece_ok_def)
  from format_pieces_append [OF this, of "nl @ lines_of ls"]
  have "format_pieces (lines_of (l # ls)) = format_pieces l @ Lit CHR 0x0A # format_pieces (lines_of ls)"
    by (simp add: lines_of_def)
  then show ?case using l ls by (simp add: template_ok_def piece_ok_def)
qed (simp add: template_ok_def lines_of_def)

lemma wscript_ok: "template_ok [''MODULE''] wscript_template"
  unfolding wscript_template_def by (rule template_ok_lines) code_simp

lemma model_cc_ok: "template_ok [''MODULE''] model_cc_template"
  unfolding model_cc_template_def by (rule template_ok_lines) code_simp

lemma model_h_ok: "template_ok [''MODULE'', ''INCLUDE_GUARD''] model_h_template"
  unfolding model_h_template_def by (rule template_ok_lines) code_simp

lemma test_cc_ok: "template_ok [''MODULE'', ''CAPITALIZED''] test_cc_template"
  unfolding test_cc_template_def by (rule template_ok_lines) code_simp

lemma helper_cc_ok: "template_ok [''MODULE''] helper_cc_template"
  unfolding helper_cc_template_def by (rule template_ok_lines) code_simp

lemma helper_h_ok: "template_ok [''MODULE'', ''INCLUDE_GUARD''] helper_h_template"
  unfolding helper_h_template_def by (rule template_ok_lines) code_simp

lemma examples_wscript_ok: "template_ok [''MODULE''] examples_wscript_template"
  unfolding examples_wscript_template_def by (rule template_ok_lines) code_simp

lemma example_cc_ok: "template_ok [''MODULE''] example_cc_template"
  unfolding example_cc_template_def by (rule template_ok_lines) code_simp

lemma doc_rst_ok: "template_ok [''MODULE''] doc_rst_template"
  unfolding doc_rst_template_def by (rule template_ok_lines) code_simp

lemmas templates_ok = wscript_ok model_cc_ok model_h_ok test_cc_ok helper_cc_ok helper_h_ok examples_wscript_ok example_cc_ok doc_rst_ok

section \<open>Plans\<close>

definition made :: "action list \<Rightarrow> string list" where
  "made as = concat (map (\<lambda>a. case a of MkDir p \<Rightarrow> [p] | Create p t d \<Rightarrow> []) as)"

definition created :: "action list \<Rightarrow> (string \<times> string) list" where
  "created as = concat (map (\<lambda>a. case a of MkDir p \<Rightarrow> [] | Create p t d \<Rightarrow> [(p, filled t d)]) as)"

text \<open>Every action of a plan can be carried out, given the directories and the files at its start.\<close>

fun plan_ok :: "string set \<Rightarrow> string set \<Rightarrow> action list \<Rightarrow> bool" where
  "plan_ok D F [] \<longleftrightarrow> True"
| "plan_ok D F (MkDir p # as) \<longleftrightarrow>
     p \<noteq> [] \<and> p \<notin> D \<and> p \<notin> F \<and> (path_dirname p = [] \<or> path_dirname p \<in> D) \<and> plan_ok (insert p D) F as"
| "plan_ok D F (Create p t d # as) \<longleftrightarrow>
     p \<noteq> [] \<and> p \<notin> D \<and> (path_dirname p = [] \<or> path_dirname p \<in> D) \<and> template_ok (map fst d) t \<and>
     plan_ok D (insert p F) as"

lemma run_plan:
  "plan_ok (set (dirs fs)) (fst ` set (files fs)) as \<Longrightarrow>
   \<exists>fs'. run_steps run_action fs as = Inr fs' \<and> dirs fs' = dirs fs @ made as \<and>
     map_of (files fs') = map_of (files fs) ++ map_of (rev (created as))"
proof (induction as arbitrary: fs)
  case (Cons a as)
  show ?case
  proof (cases a)
    case (MkDir p)
    let ?fs = "fs\<lparr>dirs := dirs fs @ [p]\<rparr>"
    have "run_action fs a = Inr ?fs"
      using Cons.prems MkDir by (auto simp: run_action_def mkdir_def path_exists_def parent_exists_def has_key_iff)
    moreover have "plan_ok (set (dirs ?fs)) (fst ` set (files ?fs)) as" using Cons.prems MkDir by simp
    ultimately show ?thesis using Cons.IH [of ?fs] MkDir by (auto simp: made_def created_def)
  next
    case (Create p t d)
    let ?fs = "fs\<lparr>files := AList.update p (filled t d) (files fs)\<rparr>"
    have "run_action fs a = Inr ?fs"
      using Cons.prems Create by (auto simp: run_action_def write_file_def parent_exists_def format_filled)
    moreover have "plan_ok (set (dirs ?fs)) (fst ` set (files ?fs)) as" using Cons.prems Create by (simp add: dict_simps)
    ultimately obtain fs' where run: "run_steps run_action fs (a # as) = Inr fs'"
      and "dirs fs' = dirs fs @ made as"
      and files: "map_of (files fs') = (map_of (files fs))(p \<mapsto> filled t d) ++ map_of (rev (created as))"
      using Cons.IH [of ?fs] by (auto simp: map_of_update fun_upd_def)
    moreover have "made (a # as) = made as" "created (a # as) = (p, filled t d) # created as"
      using Create by (simp_all add: made_def created_def)
    moreover have "(map_of (files fs))(p \<mapsto> filled t d) ++ n = map_of (files fs) ++ ([p \<mapsto> filled t d] ++ n)" for n
      by (simp only: map_add_assoc map_add_upd map_add_empty)
    ultimately show ?thesis by (intro exI [of _ fs']) (simp only: rev.simps map_of_append map_of.simps fst_conv snd_conv simp_thms)
  qed
qed (simp add: made_def created_def)

section \<open>Well-formed file systems\<close>

definition fs_ok :: "fsys \<Rightarrow> bool" where
  "fs_ok fs \<longleftrightarrow> (\<forall>p. path_exists fs p \<longrightarrow> parent_exists fs p)"

lemma mkdir_ok: "fs_ok fs \<Longrightarrow> mkdir p fs = Inr fs' \<Longrightarrow> fs_ok fs'"
  by (auto simp: mkdir_def fs_ok_def path_exists_def parent_exists_def split: if_splits)

lemma write_file_ok:
  assumes "fs_ok fs" and "write_file p s fs = Inr fs'"
  shows "fs_ok fs'"
proof -
  have fs': "fs' = fs\<lparr>files := AList.update p s (files fs)\<rparr>" and p: "parent_exists fs p"
    using assms(2) by (auto simp: write_file_def split: if_splits)
  have "path_exists fs' q \<longleftrightarrow> q = p \<or> path_exists fs q" for q
    by (auto simp: fs' path_exists_def has_key_def map_of_update)
  moreover have "parent_exists fs' q \<longleftrightarrow> parent_exists fs q" for q by (simp add: fs' parent_exists_def)
  ultimately show ?thesis using assms(1) p by (auto simp: fs_ok_def)
qed

lemma format_dict_errors: "format_dict t d = Inl e \<Longrightarrow> e \<in> {KeyError, ValueError}"
proof -
  have "py_map (fill_piece d) ps = Inl e \<Longrightarrow> e \<in> {KeyError, ValueError}" for ps
    by (induction ps) (auto simp: py_bind_eq_Inl fill_piece_def dict_get_def split: piece.splits option.splits)
  then show "format_dict t d = Inl e \<Longrightarrow> e \<in> {KeyError, ValueError}"
    by (auto simp: format_dict_def py_bind_eq_Inl)
qed

interpretation creation: guarded_run run_action fs_ok "\<lambda>e. e \<in> {OSError, IOError, KeyError, ValueError}"
proof
  show "fs_ok s'" if "fs_ok s" "run_action s i = Inr s'" for s i s'
    using that by (auto simp: run_action_def intro: mkdir_ok write_file_ok split: action.splits)
  show "e \<in> {OSError, IOError, KeyError, ValueError}" if "run_action s i = Inl e" for s i e
    using that format_dict_errors
    by (auto simp: run_action_def mkdir_def write_file_def py_bind_eq_Inl split: action.splits if_splits)
qed

section \<open>The paths of a module\<close>

lemma path_join_plain: "d \<noteq> [] \<Longrightarrow> last d \<noteq> slash \<Longrightarrow> \<not> startswith n [slash] \<Longrightarrow> path_join d n = d @ slash # n"
  by (simp add: path_join_def)

lemma dirname_child: "d \<noteq> [] \<Longrightarrow> last d \<noteq> slash \<Longrightarrow> slash \<notin> set n \<Longrightarrow> path_dirname (d @ slash # n) = d"
  using path_split_heads [of n d 0] by (simp add: path_dirname_def)

lemma child_absent:
  assumes "fs_ok fs" "d \<notin> set (dirs fs)" "d \<noteq> []" "last d \<noteq> slash" "slash \<notin> set n"
  shows "d @ slash # n \<notin> set (dirs fs) \<and> d @ slash # n \<notin> fst ` set (files fs)"
  using assms dirname_child [of d n] by (force simp: fs_ok_def path_exists_def parent_exists_def has_key_iff)

text \<open>The directories and the files of a module, relative to its directory.\<close>

definition module_dirs :: "string list" where
  "module_dirs = [''model'', ''test'', ''helper'', ''examples'', ''doc'']"

definition new_module_files :: "string \<Rightarrow> (string \<times> string) list" where
  "new_module_files modname =
     (let m = [(''MODULE'', modname)]
      in [(''wscript'', filled wscript_template m),
          (''model/'' @ modname @ ''.cc'', filled model_cc_template m),
          (''model/'' @ modname @ ''.h'', filled model_h_template (m @ [(''INCLUDE_GUARD'', include_guard modname ''_H__'')])),
          (''test/'' @ modname @ ''-test-suite.cc'', filled test_cc_template (m @ [(''CAPITALIZED'', capitalize modname)])),
          (''helper/'' @ modname @ ''-helper.cc'', filled helper_cc_template m),
          (''helper/'' @ modname @ ''-helper.h'',
             filled helper_h_template (m @ [(''INCLUDE_GUARD'', include_guard modname ''_HELPER_H__'')])),
          (''examples/wscript'', filled examples_wscript_template m),
          (''examples/'' @ modname @ ''-example.cc'', filled example_cc_template m),
          (''doc/'' @ modname @ ''.rst'', filled doc_rst_template m)])"

definition inside :: "string \<Rightarrow> string \<Rightarrow> string" where
  "inside d n = d @ slash # n"

lemma inside_inj [simp]: "inside d n = inside d n' \<longleftrightarrow> n = n'"
  by (simp add: inside_def)

lemma inside_not_self [simp]: "inside d n \<noteq> d" "d \<noteq> inside d n" "inside d n \<noteq> []"
  by (simp_all add: inside_def)

lemma sub_one:
  assumes "d \<noteq> []" "last d \<noteq> slash" "\<not> startswith n [slash]"
  shows "sub d [n] = inside d n"
  using assms by (simp add: sub_def inside_def path_join_plain)

lemma sub_two:
  assumes "d \<noteq> []" "last d \<noteq> slash" "\<not> startswith k [slash]" "k \<noteq> []" "last k \<noteq> slash" "\<not> startswith n [slash]"
  shows "sub d [k, n] = inside d (k @ slash # n)"
  using assms path_join_plain [of "d @ slash # k" n] by (simp add: sub_def inside_def path_join_plain)

lemma dirname_inside:
  assumes "d \<noteq> []" "last d \<noteq> slash" "slash \<notin> set n"
  shows "path_dirname (inside d n) = d"
    and "k \<noteq> [] \<Longrightarrow> last k \<noteq> slash \<Longrightarrow> path_dirname (inside d (k @ slash # n)) = inside d k"
  using assms dirname_child [of d n] dirname_child [of "d @ slash # k" n] by (simp_all add: inside_def)

text \<open>The actions with their paths worked out.\<close>

lemma module_actions_inside:
  assumes d: "d \<noteq> []" "last d \<noteq> slash" and m: "m \<noteq> []" "slash \<notin> set m"
  shows "module_actions d m =
     (let D = [(''MODULE'', m)]
      in [MkDir d,
          Create (inside d ''wscript'') wscript_template D,
          MkDir (inside d ''model''),
          Create (inside d (''model'' @ slash # m @ ''.cc'')) model_cc_template D,
          Create (inside d (''model'' @ slash # m @ ''.h'')) model_h_template
            (D @ [(''INCLUDE_GUARD'', include_guard m ''_H__'')]),
          MkDir (inside d ''test''),
          Create (inside d (''test'' @ slash # m @ ''-test-suite.cc'')) test_cc_template
            (D @ [(''CAPITALIZED'', capitalize m)]),
          MkDir (inside d ''helper''),
          Create (inside d (''helper'' @ slash # m @ ''-helper.cc'')) helper_cc_template D,
          Create (inside d (''helper'' @ slash # m @ ''-helper.h'')) helper_h_template
            (D @ [(''INCLUDE_GUARD'', include_guard m ''_HELPER_H__'')]),
          MkDir (inside d ''examples''),
          Create (inside d (''examples'' @ slash # ''wscript'')) examples_wscript_template D,
          Create (inside d (''examples'' @ slash # m @ ''-example.cc'')) example_cc_template D,
          MkDir (inside d ''doc''),
          Create (inside d (''doc'' @ slash # m @ ''.rst'')) doc_rst_template D])"
proof -
  have n: "\<not> startswith (m @ x) [slash]" for x using m by (cases m) (auto simp: startswith_def)
  have k: "\<not> startswith (c # cs) [slash]" if "c \<noteq> slash" for c cs using that by (simp add: startswith_def)
  have ex: "sub (sub d [''examples'']) [''wscript''] = inside d (''examples'' @ slash # ''wscript'')"
    using sub_two [OF d, of "''examples''" "''wscript''"] k by (simp add: sub_def)
  have one: "sub d [c # cs] = inside d (c # cs)" if "c \<noteq> slash" for c cs using sub_one [OF d k] that by simp
  have two: "sub d [c # cs, m @ x] = inside d ((c # cs) @ slash # m @ x)" if "c \<noteq> slash" "last (c # cs) \<noteq> slash" for c cs x
    using sub_two [OF d k [OF that(1)] _ that(2) n] by simp
  show ?thesis unfolding module_actions_def Let_def ex by (simp add: one two)
qed

lemma module_actions_paths:
  assumes "d \<noteq> []" "last d \<noteq> slash" "m \<noteq> []" "slash \<notin> set m"
  shows "made (module_actions d m) = d # map (inside d) module_dirs"
    and "created (module_actions d m) = map (\<lambda>(n, s). (inside d n, s)) (new_module_files m)"
  unfolding module_actions_inside [OF assms]
  by (simp_all add: made_def created_def module_dirs_def new_module_files_def Let_def)

lemma module_plan:
  assumes fs: "fs_ok fs" and d: "d \<noteq> []" "last d \<noteq> slash" and m: "m \<noteq> []" "slash \<notin> set m"
    and new: "\<not> path_exists fs d" and parent: "parent_exists fs d"
  shows "plan_ok (set (dirs fs)) (fst ` set (files fs)) (module_actions d m)"
proof -
  have nd: "d \<notin> set (dirs fs)" "d \<notin> fst ` set (files fs)" using new by (auto simp: path_exists_def has_key_iff)
  have absent: "inside d n \<notin> set (dirs fs)" "inside d n \<notin> fst ` set (files fs)" if "slash \<notin> set n" for n
    using child_absent [OF fs nd(1) d that] by (simp_all add: inside_def)
  have deep: "inside d (k @ slash # n) \<notin> set (dirs fs)"
    if "slash \<notin> set k" "slash \<notin> set n" "k \<noteq> []" "last k \<noteq> slash" for k n
    using child_absent [OF fs absent(1) _ _ that(2), of k] that by (simp add: inside_def)
  note dirname = dirname_inside(1) [OF d] dirname_inside(2) [OF d]
  show ?thesis unfolding module_actions_inside [OF d m] Let_def
    using parent
    by (simp add: nd absent deep dirname templates_ok m parent_exists_def del: append.simps) (simp add: d templates_ok)
qed

lemma map_of_rev_distinct: "distinct (map fst xs) \<Longrightarrow> map_of (rev xs) = map_of xs"
proof (induction xs)
  case (Cons x xs)
  then have "map_of xs (fst x) = None" by (simp add: map_of_eq_None_iff)
  then show ?case using Cons by (auto simp: map_add_def fun_eq_iff split: option.splits)
qed simp

lemma new_module_files_distinct: "modname \<noteq> [] \<Longrightarrow> distinct (map fst (new_module_files modname))"
  by (simp add: new_module_files_def Let_def)

section \<open>Properties\<close>

text \<open>
  C33: what a run of \<open>create-module.py\<close> leaves. When the parent directory exists and the new one does not,
  the run ends with 0; it adds the directory of the module with five directories in it and nine
  files, each with the text of its template filled in; every other file is as before and the
  file system is well-formed. When the path exists, the run ends with 2 and changes nothing.
\<close>

theorem create_module_files:
  assumes "modname \<noteq> []" and "slash \<notin> set modname" and "moduledir = path_join (path_dirname file) modname"
    and "fs_ok fs" and "parent_exists fs moduledir"
  shows "if path_exists fs moduledir then create_main file [modname] fs = Inr (2, fs)
    else \<exists>fs'. create_main file [modname] fs = Inr (0, fs') \<and> fs_ok fs' \<and>
      dirs fs' = dirs fs @ moduledir # map (\<lambda>n. moduledir @ ''/'' @ n) module_dirs \<and>
      map_of (files fs') = map_of (files fs) ++
        map_of (map (\<lambda>(n, s). (moduledir @ ''/'' @ n, s)) (new_module_files modname))"
proof (cases "path_exists fs moduledir")
  case True
  then show ?thesis using assms(2,3) by (simp add: create_main_def)
next
  case False
  have "\<not> startswith modname [slash]" using assms(1,2) by (cases modname) (auto simp: startswith_def)
  then have "moduledir \<noteq> []" "last moduledir = last modname" using assms(1,3) by (auto simp: path_join_def)
  moreover have "last modname \<noteq> slash" using assms(1,2) by (metis last_in_set)
  ultimately have ends: "moduledir \<noteq> []" "last moduledir \<noteq> slash" by simp_all
  obtain fs' where run: "run_steps run_action fs (module_actions moduledir modname) = Inr fs'"
    and "dirs fs' = dirs fs @ made (module_actions moduledir modname)"
    and "map_of (files fs') = map_of (files fs) ++ map_of (rev (created (module_actions moduledir modname)))"
    using run_plan [OF module_plan [OF assms(4) ends assms(1,2) False assms(5)]] by blast
  moreover have "distinct (map fst (map (\<lambda>(n, s). (inside moduledir n, s)) (new_module_files modname)))"
    using new_module_files_distinct [OF assms(1)] by (simp add: distinct_map inj_on_def split_beta)
  ultimately show ?thesis
    using creation.run_inv [OF assms(4) run] False assms(2,3) module_actions_paths [OF ends assms(1,2)]
    by (simp add: create_main_def map_of_rev_distinct inside_def)
qed

text \<open>A source directory without modules.\<close>

definition demo_fsys :: fsys where
  "demo_fsys = \<lparr>dirs = [''src''], files = [(''src/create-module.py'', ''#'')]\<rparr>"

theorem create_module_files_witness:
  "\<exists>fs'. create_main ''src/create-module.py'' [''demo''] demo_fsys = Inr (0, fs') \<and>
     ''src/demo/model'' \<in> set (dirs fs') \<and> map_of (files fs') ''src/create-module.py'' = Some ''#'' \<and>
     map_of (files fs') ''src/demo/model/demo.h'' =
       Some (filled model_h_template [(''MODULE'', ''demo''), (''INCLUDE_GUARD'', ''__DEMO_H__'')])"
proof -
  have dir: "path_dirname ''src/create-module.py'' = ''src''" by code_simp
  have d: "''src/demo'' = path_join (path_dirname ''src/create-module.py'') ''demo''"
    unfolding dir by (simp add: path_join_def startswith_def)
  have root: "path_dirname ''src'' = []" "path_dirname ''src/demo'' = ''src''" by code_simp+
  have ok: "fs_ok demo_fsys"
    by (auto simp: fs_ok_def path_exists_def parent_exists_def demo_fsys_def has_key_iff root dir)
  have parent: "parent_exists demo_fsys ''src/demo''" by (simp add: parent_exists_def demo_fsys_def root)
  have new: "\<not> path_exists demo_fsys ''src/demo''" by (simp add: path_exists_def demo_fsys_def has_key_iff)
  have guard: "include_guard ''demo'' ''_H__'' = ''__DEMO_H__''" by code_simp
  from create_module_files [OF _ _ d ok parent] new obtain fs' where
    "create_main ''src/create-module.py'' [''demo''] demo_fsys = Inr (0, fs')"
    "dirs fs' = dirs demo_fsys @ ''src/demo'' # map (\<lambda>n. ''src/demo'' @ ''/'' @ n) module_dirs"
    "map_of (files fs') = map_of (files demo_fsys) ++
       map_of (map (\<lambda>(n, s). (''src/demo'' @ ''/'' @ n, s)) (new_module_files ''demo''))" by auto
  then show ?thesis
    by (simp add: module_dirs_def new_module_files_def Let_def demo_fsys_def guard)
qed

end
