(* ===== verification/Flow_Monitor.thy ===== *)
theory Flow_Monitor
  imports Py_Prelude Complex_Main
begin

text \<open>
  \<^verbatim>\<open>src/flow-monitor/examples/flowmon-parse-results.py\<close>: the statistics of the flows in the XML file of
  a flow monitor, and the report. An XML element has a tag, attributes and children. Floating-point
  numbers are rational numbers, without rounding and without the values \<open>inf\<close> and \<open>nan\<close>.
\<close>

section \<open>Elements and numbers\<close>

datatype element = Element (tag: string) (attributes: "(string \<times> string) list") (children: "element list")

text \<open>\<open>el.get(name)\<close>, and the two forms of \<open>findall\<close> and \<open>find\<close> that the program uses.\<close>

definition get_attr :: "string \<Rightarrow> element \<Rightarrow> string option" where
  "get_attr name el = map_of (attributes el) name"

definition find_all :: "string \<Rightarrow> element \<Rightarrow> element list" where
  "find_all t el = filter (\<lambda>c. tag c = t) (children el)"

definition find_all2 :: "string \<Rightarrow> string \<Rightarrow> element \<Rightarrow> element list" where
  "find_all2 t u el = concat (map (find_all u) (find_all t el))"

definition find_first :: "string \<Rightarrow> element \<Rightarrow> element option" where
  "find_first t el = List.find (\<lambda>c. tag c = t) (children el)"

definition digits_value :: "string \<Rightarrow> int py" where
  "digits_value s = (if s \<noteq> [] \<and> list_all is_digit s then Inr (int_of_digits s) else Inl ValueError)"

definition signed :: "(string \<Rightarrow> ('a :: uminus) py) \<Rightarrow> string \<Rightarrow> 'a py" where
  "signed f s =
     (case s of
        [] \<Rightarrow> f s
      | c # cs \<Rightarrow>
          if c = CHR ''-'' then py_bind (f cs) (\<lambda>v. Inr (- v))
          else if c = CHR ''+'' then f cs else f s)"

text \<open>\<open>int(s)\<close>; \<open>None\<close> is a \<open>TypeError\<close>. \<open>long(s)\<close> allows a final \<open>L\<close>.\<close>

definition py_int :: "string option \<Rightarrow> int py" where
  "py_int v = (case v of None \<Rightarrow> Inl TypeError | Some s \<Rightarrow> signed digits_value (strip s))"

definition py_long :: "string option \<Rightarrow> int py" where
  "py_long v =
     (case v of
        None \<Rightarrow> Inl TypeError
      | Some s \<Rightarrow>
          let s = strip s
          in signed digits_value (if s \<noteq> [] \<and> last s \<in> {CHR ''L'', CHR ''l''} then butlast s else s))"

text \<open>\<open>float(s)\<close>: digits, with a fraction and an exponent.\<close>

definition decimal_value :: "string \<Rightarrow> rat py" where
  "decimal_value s =
     (let whole = takeWhile is_digit s; rest = dropWhile is_digit s;
          frac = (if startswith rest ''.'' then takeWhile is_digit (tl rest) else []);
          rest = (if startswith rest ''.'' then dropWhile is_digit (tl rest) else rest);
          mantissa = of_int (int_of_digits (whole @ frac)) / 10 ^ length frac
      in if whole = [] \<and> frac = [] then Inl ValueError
         else if rest = [] then Inr mantissa
         else if hd rest \<in> {CHR ''e'', CHR ''E''} then
           py_bind (signed digits_value (tl rest)) (\<lambda>e. Inr (mantissa * power_int 10 e))
         else Inl ValueError)"

definition py_float :: "string option \<Rightarrow> rat py" where
  "py_float v = (case v of None \<Rightarrow> Inl TypeError | Some s \<Rightarrow> signed decimal_value (strip s))"

text \<open>\<open>v[:-2]\<close> for an attribute.\<close>

definition cut_unit :: "string option \<Rightarrow> string option py" where
  "cut_unit v = (case v of None \<Rightarrow> Inl TypeError | Some s \<Rightarrow> Inr (Some (slice_to s (- 2))))"

definition py_div :: "rat \<Rightarrow> rat \<Rightarrow> rat py" where
  "py_div a b = (if b = 0 then Inl ZeroDivisionError else Inr (a / b))"

definition parse_time_ns :: "string option \<Rightarrow> int py" where
  "parse_time_ns tm =
     (case tm of
        None \<Rightarrow> Inl AttributeError
      | Some s \<Rightarrow> if suffix ''ns'' s then py_long (Some (slice_to s (- 2))) else Inl ValueError)"

section \<open>Flows\<close>

record five_tuple =
  sourceAddress :: "string option"
  destinationAddress :: "string option"
  sourcePort :: int
  destinationPort :: int
  protocol :: int

definition read_five_tuple :: "element \<Rightarrow> five_tuple py" where
  "read_five_tuple el =
     py_bind (py_int (get_attr ''sourcePort'' el)) (\<lambda>sp.
     py_bind (py_int (get_attr ''destinationPort'' el)) (\<lambda>dp.
     py_bind (py_int (get_attr ''protocol'' el)) (\<lambda>p.
       Inr \<lparr>sourceAddress = get_attr ''sourceAddress'' el, destinationAddress = get_attr ''destinationAddress'' el,
            sourcePort = sp, destinationPort = dp, protocol = p\<rparr>)))"

type_synonym histogram = "(rat \<times> rat \<times> int) list"

definition read_histogram :: "element \<Rightarrow> histogram py" where
  "read_histogram el =
     py_map (\<lambda>b.
       py_bind (py_float (get_attr ''start'' b)) (\<lambda>s.
       py_bind (py_float (get_attr ''width'' b)) (\<lambda>w.
       py_bind (py_int (get_attr ''count'' b)) (\<lambda>c. Inr (s, w, c))))) (find_all ''bin'' el)"

record probe_stats =
  ps_probeId :: int
  ps_packets :: int
  ps_bytes :: int
  ps_delay :: rat

record flow =
  flowId :: int
  delayMean :: "rat option"
  packetLossRatio :: "rat option"
  rxBitrate :: "rat option"
  txBitrate :: "rat option"
  fiveTuple :: "five_tuple option"
  packetSizeMean :: "rat option"
  probe_stats_unsorted :: "probe_stats list"
  hopCount :: rat
  interruptions :: "histogram option"
  rx_duration :: rat

definition duration :: "element \<Rightarrow> string \<Rightarrow> string \<Rightarrow> rat py" where
  "duration el last_name first_name =
     py_bind (py_bind (cut_unit (get_attr last_name el)) py_long) (\<lambda>t1.
     py_bind (py_bind (cut_unit (get_attr first_name el)) py_long) (\<lambda>t0.
       Inr (of_int (t1 - t0) / 10 ^ 9)))"

text \<open>A rate in bits per second, when there was any time.\<close>

definition bitrate :: "element \<Rightarrow> string \<Rightarrow> rat \<Rightarrow> rat option py" where
  "bitrate el bytes_name d =
     (if 0 < d then py_bind (py_long (get_attr bytes_name el)) (\<lambda>b. Inr (Some (of_int (b * 8) / d))) else Inr None)"

text \<open>Means over the packets received, when there were any.\<close>

definition flow_means :: "element \<Rightarrow> int \<Rightarrow> (rat \<times> rat option \<times> rat option) py" where
  "flow_means el rxPackets =
     (if rxPackets \<noteq> 0 then
        py_bind (py_float (get_attr ''timesForwarded'' el)) (\<lambda>forwarded.
        py_bind (py_bind (cut_unit (get_attr ''delaySum'' el)) py_float) (\<lambda>delay.
        py_bind (py_float (get_attr ''rxBytes'' el)) (\<lambda>bytes.
          Inr (forwarded / of_int rxPackets + 1, Some (delay / of_int rxPackets / 10 ^ 9),
               Some (bytes / of_int rxPackets)))))
      else Inr (- 1000, None, None))"

definition loss_ratio :: "int \<Rightarrow> rat \<Rightarrow> rat option py" where
  "loss_ratio rxPackets lost =
     (if rxPackets = 0 then Inr None
      else py_bind (py_div lost (of_int rxPackets + lost)) (\<lambda>r. Inr (Some r)))"

definition read_flow :: "element \<Rightarrow> flow py" where
  "read_flow el =
     py_bind (py_int (get_attr ''flowId'' el)) (\<lambda>fid.
     py_bind (py_long (get_attr ''rxPackets'' el)) (\<lambda>rxPackets.
     py_bind (py_long (get_attr ''txPackets'' el)) (\<lambda>txPackets.
     py_bind (duration el ''timeLastTxPacket'' ''timeFirstTxPacket'') (\<lambda>tx_duration.
     py_bind (duration el ''timeLastRxPacket'' ''timeFirstRxPacket'') (\<lambda>rxd.
     py_bind (flow_means el rxPackets) (\<lambda>(hops, delay, size).
     py_bind (bitrate el ''rxBytes'' rxd) (\<lambda>rx.
     py_bind (bitrate el ''txBytes'' tx_duration) (\<lambda>tx.
     py_bind (py_float (get_attr ''lostPackets'' el)) (\<lambda>lost.
     py_bind (loss_ratio rxPackets lost) (\<lambda>ratio.
     py_bind (case find_first ''flowInterruptionsHistogram'' el of
                None \<Rightarrow> Inr None
              | Some h \<Rightarrow> py_bind (read_histogram h) (\<lambda>bins. Inr (Some bins))) (\<lambda>hist.
       Inr \<lparr>flowId = fid, delayMean = delay, packetLossRatio = ratio, rxBitrate = rx, txBitrate = tx,
            fiveTuple = None, packetSizeMean = size, probe_stats_unsorted = [], hopCount = hops,
            interruptions = hist, rx_duration = rxd\<rparr>)))))))))))"

section \<open>A simulation\<close>

text \<open>\<open>flow_map\<close> maps an id to the position of a flow: a later flow with the same id replaces an earlier one.\<close>

definition flow_index :: "flow list \<Rightarrow> (int, nat) dict" where
  "flow_index flows = foldl (\<lambda>d (i, f). AList.update (flowId f) i d) [] (enumerate 0 flows)"

definition update_flow :: "(int, nat) dict \<Rightarrow> int \<Rightarrow> (flow \<Rightarrow> flow) \<Rightarrow> flow list \<Rightarrow> flow list py" where
  "update_flow flow_map fid f flows = py_bind (dict_get flow_map fid) (\<lambda>i. Inr (update_nth i f flows))"

definition add_classification :: "(int, nat) dict \<Rightarrow> flow list \<Rightarrow> element \<Rightarrow> flow list py" where
  "add_classification flow_map flows el =
     py_bind (py_int (get_attr ''flowId'' el)) (\<lambda>fid.
     py_bind (read_five_tuple el) (\<lambda>t. update_flow flow_map fid (fiveTuple_update (\<lambda>_. Some t)) flows))"

definition add_probe_stats :: "(int, nat) dict \<Rightarrow> int \<Rightarrow> flow list \<Rightarrow> element \<Rightarrow> flow list py" where
  "add_probe_stats flow_map probeId flows el =
     py_bind (py_int (get_attr ''flowId'' el)) (\<lambda>fid.
     py_bind (py_int (get_attr ''packets'' el)) (\<lambda>packets.
     py_bind (py_long (get_attr ''bytes'' el)) (\<lambda>bytes.
     py_bind (if 0 < packets
              then py_bind (parse_time_ns (get_attr ''delayFromFirstProbeSum'' el)) (\<lambda>t.
                     Inr (of_int t / of_int packets))
              else Inr 0) (\<lambda>delay.
       update_flow flow_map fid
         (probe_stats_unsorted_update (\<lambda>ps. ps @ [\<lparr>ps_probeId = probeId, ps_packets = packets, ps_bytes = bytes,
            ps_delay = delay\<rparr>])) flows))))"

definition add_probe :: "(int, nat) dict \<Rightarrow> flow list \<Rightarrow> element \<Rightarrow> flow list py" where
  "add_probe flow_map flows el =
     py_bind (py_int (get_attr ''index'' el)) (\<lambda>probeId.
       run_steps (add_probe_stats flow_map probeId) flows (find_all ''FlowStats'' el))"

definition read_simulation :: "element \<Rightarrow> flow list py" where
  "read_simulation el =
     (case find_all ''Ipv4FlowClassifier'' el of
        [classifier] \<Rightarrow>
          py_bind (py_map read_flow (find_all2 ''FlowStats'' ''Flow'' el)) (\<lambda>flows.
          py_bind (run_steps (add_classification (flow_index flows)) flows (find_all ''Flow'' classifier)) (\<lambda>flows'.
            run_steps (add_probe (flow_index flows)) flows' (find_all2 ''FlowProbes'' ''FlowProbe'' el)))
      | _ \<Rightarrow> Inl ValueError)"

section \<open>The program\<close>

datatype xml_event = StartOf element | EndOf element

fun iterparse :: "element \<Rightarrow> xml_event list" where
  "iterparse (Element t as cs) =
     StartOf (Element t as cs) # concat (map iterparse cs) @ [EndOf (Element t as cs)]"

text \<open>The loop over the events, with the depth and the simulations so far.\<close>

fun event_step :: "int \<times> flow list list \<Rightarrow> xml_event \<Rightarrow> (int \<times> flow list list) py" where
  "event_step (level, sims) (StartOf el) = Inr (level + 1, sims)"
| "event_step (level, sims) (EndOf el) =
     (if level - 1 = 0 \<and> tag el = ''FlowMonitor''
      then py_bind (read_simulation el) (\<lambda>sim. Inr (level - 1, sims @ [sim]))
      else Inr (level - 1, sims))"

text \<open>The values that are printed for a flow.\<close>

record report_line =
  rl_flow :: int
  rl_proto :: string
  rl_source :: "string option \<times> int"
  rl_destination :: "string option \<times> int"
  rl_tx_kbit :: rat
  rl_rx_kbit :: rat
  rl_delay_ms :: rat
  rl_loss_percent :: rat

definition protocol_name :: "int \<Rightarrow> string py" where
  "protocol_name p = dict_get [(6, ''TCP''), (17, ''UDP'')] p"

text \<open>Arithmetic on \<open>None\<close> is a \<open>TypeError\<close>.\<close>

definition scaled :: "rat option \<Rightarrow> rat \<Rightarrow> rat py" where
  "scaled v k = (case v of None \<Rightarrow> Inl TypeError | Some x \<Rightarrow> Inr (x * k))"

definition report_flow :: "flow \<Rightarrow> report_line py" where
  "report_flow f =
     (case fiveTuple f of
        None \<Rightarrow> Inl AttributeError
      | Some t \<Rightarrow>
          py_bind (protocol_name (protocol t)) (\<lambda>proto.
          py_bind (scaled (txBitrate f) (1 / 1000)) (\<lambda>tx.
          py_bind (scaled (rxBitrate f) (1 / 1000)) (\<lambda>rx.
          py_bind (scaled (delayMean f) 1000) (\<lambda>delay.
          py_bind (scaled (packetLossRatio f) 100) (\<lambda>loss.
            Inr \<lparr>rl_flow = flowId f, rl_proto = proto, rl_source = (sourceAddress t, sourcePort t),
                 rl_destination = (destinationAddress t, destinationPort t),
                 rl_tx_kbit = tx, rl_rx_kbit = rx, rl_delay_ms = delay, rl_loss_percent = loss\<rparr>))))))"

definition flowmon_main :: "element \<Rightarrow> report_line list py" where
  "flowmon_main document =
     py_bind (run_steps event_step (0, []) (iterparse document)) (\<lambda>(level, sims).
       py_map report_flow (concat sims))"

section \<open>The document element\<close>

lemma iterparse_inner:
  "1 \<le> l \<Longrightarrow> run_steps event_step (l, sims) (iterparse el) = Inr (l, sims)"
proof (induction el arbitrary: l)
  case (Element t as cs)
  have inner: "run_steps event_step (l + 1, sims) (concat (map iterparse xs)) = Inr (l + 1, sims)"
    if "set xs \<subseteq> set cs" for xs
    using that Element by (induction xs) (auto simp: run_steps_append)
  show ?case using inner [of cs] Element.prems by (simp add: run_steps_append)
qed

lemma parse_document:
  "run_steps event_step (0, []) (iterparse el) =
     (if tag el = ''FlowMonitor'' then py_bind (read_simulation el) (\<lambda>sim. Inr (0, [sim])) else Inr (0, []))"
proof (cases el)
  case (Element t as cs)
  have inner: "run_steps event_step (1, []) (concat (map iterparse xs)) = Inr (1, [])" for xs
    by (induction xs) (simp_all add: run_steps_append iterparse_inner)
  show ?thesis using inner [of cs] by (simp add: Element run_steps_append py_bind_assoc)
qed

lemma flowmon_main_document:
  "flowmon_main el = (if tag el = ''FlowMonitor'' then py_bind (read_simulation el) (py_map report_flow) else Inr [])"
  by (simp add: flowmon_main_def parse_document py_bind_assoc)

section \<open>What the later passes keep\<close>

definition core :: "flow \<Rightarrow> flow" where
  "core f = f\<lparr>fiveTuple := None, probe_stats_unsorted := []\<rparr>"

lemma update_flow_core:
  "update_flow fm fid g flows = Inr flows' \<Longrightarrow> (\<And>f. core (g f) = core f) \<Longrightarrow> map core flows' = map core flows"
  by (auto simp: update_flow_def update_nth_def map_update list_update_id)
    (metis list_update_id list_update_beyond map_update nth_map not_le_imp_less)

interpretation classification: guarded_run "add_classification fm" "\<lambda>flows. map core flows = cs" "\<lambda>e. True" for fm cs
proof
  show "map core s' = cs" if "map core s = cs" "add_classification fm s i = Inr s'" for s i s'
    using that update_flow_core [of fm _ _ s s'] by (fastforce simp: add_classification_def core_def)
qed simp

interpretation probe_stats: guarded_run "add_probe_stats fm pid" "\<lambda>flows. map core flows = cs" "\<lambda>e. True" for fm pid cs
proof
  show "map core s' = cs" if "map core s = cs" "add_probe_stats fm pid s i = Inr s'" for s i s'
    using that update_flow_core [of fm _ _ s s'] by (fastforce simp: add_probe_stats_def core_def)
qed simp

interpretation probes: guarded_run "add_probe fm" "\<lambda>flows. map core flows = cs" "\<lambda>e. True" for fm cs
proof
  show "map core s' = cs" if "map core s = cs" "add_probe fm s i = Inr s'" for s i s'
    using that probe_stats.run_inv [of s cs fm] by (auto simp: add_probe_def)
qed simp

abbreviation flow_elements :: "element \<Rightarrow> element list" where
  "flow_elements doc \<equiv> find_all2 ''FlowStats'' ''Flow'' doc"

lemma read_simulation_core:
  assumes "read_simulation el = Inr flows"
  shows "\<exists>fs. list_all2 (\<lambda>e f. read_flow e = Inr f) (flow_elements el) fs \<and> map core flows = map core fs"
proof -
  obtain cl fs flows' where fs: "py_map read_flow (flow_elements el) = Inr fs"
    and c: "run_steps (add_classification (flow_index fs)) fs (find_all ''Flow'' cl) = Inr flows'"
    and p: "run_steps (add_probe (flow_index fs)) flows' (find_all2 ''FlowProbes'' ''FlowProbe'' el) = Inr flows"
    using assms by (auto simp: read_simulation_def split: list.splits)
  have "map core flows' = map core fs" using classification.run_inv [OF refl c] .
  then have "map core flows = map core fs" using probes.run_inv [OF _ p] by blast
  then show ?thesis using fs by (auto simp: py_map_list_all2)
qed

section \<open>Reading and reporting a flow\<close>

definition flow_counts :: "element \<Rightarrow> int \<Rightarrow> rat \<Rightarrow> rat \<Rightarrow> rat \<Rightarrow> bool" where
  "flow_counts el rx td rd lost \<longleftrightarrow>
     py_long (get_attr ''rxPackets'' el) = Inr rx \<and> py_float (get_attr ''lostPackets'' el) = Inr lost \<and>
     duration el ''timeLastTxPacket'' ''timeFirstTxPacket'' = Inr td \<and>
     duration el ''timeLastRxPacket'' ''timeFirstRxPacket'' = Inr rd"

lemma bitrate_Inr:
  "bitrate el n d = Inr r \<Longrightarrow>
     (if 0 < d then \<exists>b. py_long (get_attr n el) = Inr b \<and> r = Some (of_int (b * 8) / d) else r = None)"
  by (auto simp: bitrate_def split: if_splits)

lemma flow_means_Inr: "flow_means el rx = Inr (hops, delay, mean) \<Longrightarrow> delay = None \<longleftrightarrow> rx = 0"
  by (auto simp: flow_means_def split: if_splits)

lemma loss_ratio_Inr:
  "loss_ratio rx lost = Inr r \<Longrightarrow>
     (if rx = 0 then r = None else of_int rx + lost \<noteq> 0 \<and> r = Some (lost / (of_int rx + lost)))"
  by (auto simp: loss_ratio_def py_div_def split: if_splits)

lemma read_flow_facts:
  assumes "read_flow el = Inr f"
  shows "\<exists>rx td rd lost. flow_counts el rx td rd lost \<and> py_int (get_attr ''flowId'' el) = Inr (flowId f) \<and>
     (if 0 < td then \<exists>b. py_long (get_attr ''txBytes'' el) = Inr b \<and> txBitrate f = Some (of_int (b * 8) / td)
      else txBitrate f = None) \<and>
     (if 0 < rd then \<exists>b. py_long (get_attr ''rxBytes'' el) = Inr b \<and> rxBitrate f = Some (of_int (b * 8) / rd)
      else rxBitrate f = None) \<and>
     (delayMean f = None \<longleftrightarrow> rx = 0) \<and>
     (if rx = 0 then packetLossRatio f = None
      else of_int rx + lost \<noteq> 0 \<and> packetLossRatio f = Some (lost / (of_int rx + lost)))"
proof -
  obtain rx td rd hops delay mean rxb txb lost ratio where
    counts: "flow_counts el rx td rd lost" "py_int (get_attr ''flowId'' el) = Inr (flowId f)"
    and parts: "flow_means el rx = Inr (hops, delay, mean)" "bitrate el ''rxBytes'' rd = Inr rxb"
      "bitrate el ''txBytes'' td = Inr txb" "loss_ratio rx lost = Inr ratio"
    and f: "delayMean f = delay" "rxBitrate f = rxb" "txBitrate f = txb" "packetLossRatio f = ratio"
    using assms unfolding read_flow_def flow_counts_def by (auto simp only: py_bind_eq_Inr split_paired_Ex prod.case sum.inject flow.simps)
  show ?thesis
    by (rule exI [of _ rx], rule exI [of _ td], rule exI [of _ rd], rule exI [of _ lost])
      (use counts f flow_means_Inr [OF parts(1)] bitrate_Inr [OF parts(2)] bitrate_Inr [OF parts(3)]
        loss_ratio_Inr [OF parts(4)] in \<open>simp only: f simp_thms\<close>)
qed

lemma report_flow_Inr:
  "report_flow f = Inr l \<longleftrightarrow>
     (\<exists>t proto tx rx delay loss. fiveTuple f = Some t \<and> protocol_name (protocol t) = Inr proto \<and>
        txBitrate f = Some tx \<and> rxBitrate f = Some rx \<and> delayMean f = Some delay \<and> packetLossRatio f = Some loss \<and>
        l = \<lparr>rl_flow = flowId f, rl_proto = proto, rl_source = (sourceAddress t, sourcePort t),
             rl_destination = (destinationAddress t, destinationPort t),
             rl_tx_kbit = tx / 1000, rl_rx_kbit = rx / 1000, rl_delay_ms = delay * 1000,
             rl_loss_percent = loss * 100\<rparr>)"
  by (cases "fiveTuple f"; cases "txBitrate f"; cases "rxBitrate f"; cases "delayMean f"; cases "packetLossRatio f")
    (auto simp: report_flow_def scaled_def)

lemma report_flow_fields:
  assumes "report_flow f = Inr l"
  shows "\<exists>tx rx delay loss. rl_proto l \<in> {''TCP'', ''UDP''} \<and> txBitrate f = Some tx \<and> rxBitrate f = Some rx \<and>
     delayMean f = Some delay \<and> packetLossRatio f = Some loss \<and> rl_flow l = flowId f \<and>
     rl_tx_kbit l = tx / 1000 \<and> rl_loss_percent l = loss * 100"
proof -
  have "protocol_name p = Inr proto \<Longrightarrow> proto \<in> {''TCP'', ''UDP''}" for p proto
    by (auto simp: protocol_name_def dict_get_def split: option.splits if_splits)
  then show ?thesis using assms unfolding report_flow_Inr by (elim exE conjE) simp
qed

lemma core_eqD:
  assumes "core f = core g"
  shows "flowId f = flowId g" "delayMean f = delayMean g" "packetLossRatio f = packetLossRatio g"
    "rxBitrate f = rxBitrate g" "txBitrate f = txBitrate g"
  using assms by (cases f; cases g; simp add: core_def)+

text \<open>What a line says of the element of its flow.\<close>

definition line_of_flow :: "element \<Rightarrow> report_line \<Rightarrow> bool" where
  "line_of_flow el l \<longleftrightarrow>
    (\<exists>rx td rd lost b.
      flow_counts el rx td rd lost \<and> py_int (get_attr ''flowId'' el) = Inr (rl_flow l) \<and> rl_proto l \<in> {''TCP'', ''UDP''} \<and>
      rx \<noteq> 0 \<and> 0 < td \<and> 0 < rd \<and>
      rl_loss_percent l = 100 * lost / (of_int rx + lost) \<and>
      (0 < rx \<and> 0 \<le> lost \<longrightarrow> 0 \<le> rl_loss_percent l \<and> rl_loss_percent l \<le> 100) \<and>
      py_long (get_attr ''txBytes'' el) = Inr b \<and> rl_tx_kbit l = of_int (b * 8) / td / 1000)"

section \<open>Properties\<close>

text \<open>
  C34: what a complete report says. When the program returns, it has a line for every flow of the document,
  in order; every flow has received packets and has sent and received for a positive time; the loss
  is the share of the lost packets among those lost and received, between 0 and 100 percent, and the rate
  is the number of bits by the duration. (A single flow that received nothing makes the program raise.)
\<close>

theorem flow_report:
  assumes "flowmon_main document = Inr ls" and "tag document = ''FlowMonitor''"
  shows "list_all2 line_of_flow (flow_elements document) ls"
proof -
  obtain flows where sim: "read_simulation document = Inr flows" and ls: "py_map report_flow flows = Inr ls"
    using assms by (auto simp: flowmon_main_document)
  obtain fs where fs: "list_all2 (\<lambda>e f. read_flow e = Inr f) (flow_elements document) fs"
    and core: "map core flows = map core fs" using read_simulation_core [OF sim] by blast
  have len: "length fs = length flows" using core by (metis length_map)
  show ?thesis
  proof (rule list_all2_all_nthI)
    show n: "length (flow_elements document) = length ls"
      using fs ls len by (simp add: py_map_list_all2 list_all2_lengthD)
    fix i
    assume i: "i < length (flow_elements document)"
    let ?el = "flow_elements document ! i" and ?l = "ls ! i"
    have "i < length flows" using i fs len by (simp add: list_all2_lengthD)
    then have same: "core (flows ! i) = core (fs ! i)" using core len by (metis nth_map)
    have "report_flow (flows ! i) = Inr ?l" using ls \<open>i < length flows\<close> by (simp add: py_map_list_all2 list_all2_conv_all_nth)
    from report_flow_fields [OF this, unfolded core_eqD [OF same]]
    obtain tx rx delay loss where l: "rl_proto ?l \<in> {''TCP'', ''UDP''}"
      "txBitrate (fs ! i) = Some tx" "rxBitrate (fs ! i) = Some rx" "delayMean (fs ! i) = Some delay"
      "packetLossRatio (fs ! i) = Some loss" "rl_flow ?l = flowId (fs ! i)"
      "rl_tx_kbit ?l = tx / 1000" "rl_loss_percent ?l = loss * 100" by blast
    have "read_flow ?el = Inr (fs ! i)" using fs i by (simp add: list_all2_conv_all_nth)
    from read_flow_facts [OF this] l obtain rx' td rd lost b where
      c: "flow_counts ?el rx' td rd lost" "py_int (get_attr ''flowId'' ?el) = Inr (flowId (fs ! i))"
      "rx' \<noteq> 0" "0 < td" "0 < rd" "py_long (get_attr ''txBytes'' ?el) = Inr b" "tx = of_int (b * 8) / td"
      "loss = lost / (of_int rx' + lost)"
      by (auto split: if_splits)
    have "0 \<le> loss * 100 \<and> loss * 100 \<le> 100" if "0 < rx'" "0 \<le> lost"
    proof -
      have "0 < of_int rx' + lost" using that by (simp add: add_pos_nonneg)
      then have "0 \<le> loss" "loss \<le> 1" using that unfolding c(8) by simp_all
      then show ?thesis by simp
    qed
    note bound = this
    show "line_of_flow ?el ?l" unfolding line_of_flow_def
      by (rule exI [of _ rx'], rule exI [of _ td], rule exI [of _ rd], rule exI [of _ lost], rule exI [of _ b])
        (use c l bound in simp)
  qed
qed

text \<open>A document with one flow: 10 packets received, 30 lost, one second long.\<close>

definition demo_document :: element where
  "demo_document = Element ''FlowMonitor'' []
     [Element ''FlowStats'' [] [Element ''Flow''
        [(''flowId'', ''1''), (''rxPackets'', ''10''), (''txPackets'', ''40''),
         (''timeFirstTxPacket'', ''+0ns''), (''timeLastTxPacket'', ''+1000000000ns''),
         (''timeFirstRxPacket'', ''+500000000ns''), (''timeLastRxPacket'', ''+1500000000ns''),
         (''timesForwarded'', ''10''), (''delaySum'', ''+5e9ns''), (''rxBytes'', ''1000''), (''txBytes'', ''4000''),
         (''lostPackets'', ''30'')] []],
      Element ''Ipv4FlowClassifier'' [] [Element ''Flow''
        [(''flowId'', ''1''), (''sourceAddress'', ''10.1.1.1''), (''destinationAddress'', ''10.1.1.2''),
         (''sourcePort'', ''49153''), (''destinationPort'', ''9''), (''protocol'', ''17'')] []],
      Element ''FlowProbes'' [] []]"

theorem flow_report_witness:
  "\<exists>l. flowmon_main demo_document = Inr [l] \<and> rl_proto l \<in> {''TCP'', ''UDP''} \<and>
     0 \<le> rl_loss_percent l \<and> rl_loss_percent l \<le> 100"
proof -
  have "case flowmon_main demo_document of Inr ls \<Rightarrow> length ls = 1 | Inl e \<Rightarrow> False" by code_simp
  then obtain l where run: "flowmon_main demo_document = Inr [l]"
    by (cases "flowmon_main demo_document") (auto simp: length_Suc_conv)
  have doc: "tag demo_document = ''FlowMonitor''" by (simp add: demo_document_def)
  obtain el where el: "flow_elements demo_document = [el]"
    and counts: "py_long (get_attr ''rxPackets'' el) = Inr 10" "py_float (get_attr ''lostPackets'' el) = Inr 30"
  proof
    show "flow_elements demo_document = [hd (flow_elements demo_document)]" by code_simp
    show "py_long (get_attr ''rxPackets'' (hd (flow_elements demo_document))) = Inr 10" by code_simp
    show "py_float (get_attr ''lostPackets'' (hd (flow_elements demo_document))) = Inr 30" by code_simp
  qed
  show ?thesis using flow_report [OF run doc] run counts by (auto simp: el flow_counts_def line_of_flow_def)
qed

end
