(* ===== verification/Viz_Thread.thy ===== *)
theory Viz_Thread
  imports Py_Prelude Complex_Main
begin

text \<open>
  The two threads of \<^verbatim>\<open>src/visualizer/visualizer/core.py\<close>: the view, which is the main thread with its event
  loop, and the simulation thread. They share the simulator under a lock, a flag that starts the next
  period, a flag that ends the thread, the time up to which to simulate, and the messages of the
  simulation. The two threads interleave at every access to what they share. The simulator is a
  parameter: how far a call runs, and its messages. Times are rational numbers, in seconds.
\<close>

section \<open>The state\<close>

datatype owner = Simulation | View

text \<open>The points of \<open>SimulationThread.run\<close>.\<close>

datatype sim_pc = SimLoop | SimWait | SimClear | SimCheck | SimAcquire | SimRun | SimNotify | SimRelease | SimEnd

text \<open>
  A callback of the view in progress. \<open>update_view_timeout\<close> waits for the lock in an inner event loop, so
  that other callbacks can run on top of it; the callbacks form a stack. The others are those that hold
  the lock around their body (\<open>update_model\<close>, and tooltips, drags and windows), and \<open>_quit\<close>.
\<close>

datatype callback = UpdateModel | OtherLocked

datatype frame =
    TimeoutPoll nat
  | TimeoutLocked nat "string list"
  | TimeoutTarget nat "string list"
  | TimeoutRelease nat "string list"
  | TimeoutRest nat "string list"
  | CallbackAcquire callback
  | CallbackBody callback
  | CallbackRelease
  | QuitFlag
  | QuitGo
  | QuitJoin

record viz =
  sim_at :: sim_pc
  view_stack :: "frame list"
  sim_lock :: "owner option"
  go :: bool
  quit_flag :: bool
  target_time :: rat
  sample_period :: rat
  pause_messages :: "string list"
  playing :: bool
  timeout_id :: "nat option"
  sources :: "nat list"
  next_source :: nat
  idle_updates :: nat
  sim_now :: rat
  viewed :: rat
  runs :: nat
  updates :: nat
  dialogs :: "string list"

text \<open>
  \<open>SimulatorRunUntil\<close> gives the new time of the simulator for its time and the target;
  \<open>GetPauseMessages\<close> gives the messages of the last call, here by its number.
\<close>

record simulator =
  run_until :: "rat \<Rightarrow> rat \<Rightarrow> rat"
  messages_of :: "nat \<Rightarrow> string list"

text \<open>The call stops at the target, and never goes back.\<close>

definition stops_at_target :: "simulator \<Rightarrow> bool" where
  "stops_at_target w \<longleftrightarrow> (\<forall>now target. now \<le> run_until w now target \<and> run_until w now target \<le> max now target)"

section \<open>The simulation thread\<close>

definition sim_step :: "simulator \<Rightarrow> viz \<Rightarrow> viz option" where
  "sim_step w s =
     (case sim_at s of
        SimLoop \<Rightarrow> Some (s\<lparr>sim_at := if quit_flag s then SimEnd else SimWait\<rparr>)
      | SimWait \<Rightarrow> if go s then Some (s\<lparr>sim_at := SimClear\<rparr>) else None
      | SimClear \<Rightarrow> Some (s\<lparr>go := False, sim_at := SimCheck\<rparr>)
      | SimCheck \<Rightarrow> Some (s\<lparr>sim_at := if quit_flag s then SimEnd else SimAcquire\<rparr>)
      | SimAcquire \<Rightarrow> if sim_lock s = None then Some (s\<lparr>sim_lock := Some Simulation, sim_at := SimRun\<rparr>) else None
      | SimRun \<Rightarrow>
          Some (s\<lparr>sim_now := run_until w (sim_now s) (target_time s),
                  pause_messages := pause_messages s @ messages_of w (runs s),
                  runs := runs s + 1, sim_at := SimNotify\<rparr>)
      | SimNotify \<Rightarrow> Some (s\<lparr>idle_updates := idle_updates s + 1, sim_at := SimRelease\<rparr>)
      | SimRelease \<Rightarrow> Some (s\<lparr>sim_lock := None, sim_at := SimLoop\<rparr>)
      | SimEnd \<Rightarrow> None)"

section \<open>The view\<close>

definition source_remove :: "nat \<Rightarrow> viz \<Rightarrow> viz" where
  "source_remove i s = s\<lparr>sources := filter (\<lambda>j. j \<noteq> i) (sources s)\<rparr>"

definition remove_timer :: "viz \<Rightarrow> viz" where
  "remove_timer s = (case timeout_id s of None \<Rightarrow> s | Some i \<Rightarrow> source_remove i s)"

definition start_update_timer :: "viz \<Rightarrow> viz" where
  "start_update_timer s =
     (let s = remove_timer s
      in s\<lparr>timeout_id := Some (next_source s), sources := sources s @ [next_source s],
           next_source := next_source s + 1\<rparr>)"

text \<open>Setting the button emits \<open>toggled\<close> when it changes. The id of a removed timer is kept.\<close>

definition on_play_button_toggled :: "viz \<Rightarrow> viz" where
  "on_play_button_toggled s = (if playing s then start_update_timer s else remove_timer s)"

definition set_playing :: "bool \<Rightarrow> viz \<Rightarrow> viz" where
  "set_playing p s = (if playing s = p then s else on_play_button_toggled (s\<lparr>playing := p\<rparr>))"

text \<open>
  The end of \<open>update_view_timeout\<close>: a dialog for the messages, which pauses, then either the timer ends
  or the simulation thread gets the signal.
\<close>

definition timeout_rest :: "nat \<Rightarrow> string list \<Rightarrow> viz \<Rightarrow> viz" where
  "timeout_rest i messages s =
     (let s = (if messages \<noteq> [] then set_playing False (s\<lparr>dialogs := dialogs s @ messages\<rparr>) else s)
      in if playing s then s\<lparr>go := True\<rparr>
         else (source_remove i s)\<lparr>timeout_id := None\<rparr>)"

text \<open>
  The actions of \<open>update_view_timeout\<close>, of a callback that holds the lock, and of \<open>_quit\<close>; \<open>fs\<close> are the
  callbacks below, and \<open>None\<close> means that the callback has to wait.
\<close>

definition timeout_step :: "frame \<Rightarrow> frame list \<Rightarrow> viz \<Rightarrow> viz option" where
  "timeout_step f fs s =
     (case f of
        TimeoutPoll i \<Rightarrow>
          if sim_lock s = None
          then Some (s\<lparr>sim_lock := Some View, pause_messages := [],
                       view_stack := TimeoutLocked i (pause_messages s) # fs\<rparr>)
          else None
      | TimeoutLocked i m \<Rightarrow> Some (s\<lparr>viewed := sim_now s, view_stack := TimeoutTarget i m # fs\<rparr>)
      | TimeoutTarget i m \<Rightarrow>
          Some (s\<lparr>target_time := sim_now s + sample_period s, view_stack := TimeoutRelease i m # fs\<rparr>)
      | TimeoutRelease i m \<Rightarrow> Some (s\<lparr>sim_lock := None, view_stack := TimeoutRest i m # fs\<rparr>)
      | TimeoutRest i m \<Rightarrow> Some (timeout_rest i m (s\<lparr>view_stack := fs\<rparr>))
      | _ \<Rightarrow> None)"

definition locked_callback_step :: "frame \<Rightarrow> frame list \<Rightarrow> viz \<Rightarrow> viz option" where
  "locked_callback_step f fs s =
     (case f of
        CallbackAcquire c \<Rightarrow>
          if sim_lock s = None then Some (s\<lparr>sim_lock := Some View, view_stack := CallbackBody c # fs\<rparr>)
          else None
      | CallbackBody c \<Rightarrow>
          Some (s\<lparr>updates := (if c = UpdateModel then updates s + 1 else updates s),
                  view_stack := CallbackRelease # fs\<rparr>)
      | CallbackRelease \<Rightarrow> Some (s\<lparr>sim_lock := None, view_stack := fs\<rparr>)
      | _ \<Rightarrow> None)"

definition quit_step :: "frame \<Rightarrow> frame list \<Rightarrow> viz \<Rightarrow> viz option" where
  "quit_step f fs s =
     (case f of
        QuitFlag \<Rightarrow> Some (s\<lparr>quit_flag := True, view_stack := QuitGo # fs\<rparr>)
      | QuitGo \<Rightarrow> Some (s\<lparr>go := True, view_stack := QuitJoin # fs\<rparr>)
      | QuitJoin \<Rightarrow> if sim_at s = SimEnd then Some (s\<lparr>view_stack := fs\<rparr>) else None
      | _ \<Rightarrow> None)"

text \<open>The next action of the callback on top.\<close>

definition view_step :: "viz \<Rightarrow> viz option" where
  "view_step s =
     (case view_stack s of
        [] \<Rightarrow> None
      | f # fs \<Rightarrow>
          (case f of
             CallbackAcquire _ \<Rightarrow> locked_callback_step f fs s
           | CallbackBody _ \<Rightarrow> locked_callback_step f fs s
           | CallbackRelease \<Rightarrow> locked_callback_step f fs s
           | QuitFlag \<Rightarrow> quit_step f fs s
           | QuitGo \<Rightarrow> quit_step f fs s
           | QuitJoin \<Rightarrow> quit_step f fs s
           | _ \<Rightarrow> timeout_step f fs s))"

lemmas view_step_defs = view_step_def timeout_step_def locked_callback_step_def quit_step_def

text \<open>Events are dispatched by the main loop, until it is quit, and by the inner loop.\<close>

fun polling :: "frame \<Rightarrow> bool" where
  "polling (TimeoutPoll _) = True"
| "polling _ = False"

definition dispatching :: "viz \<Rightarrow> bool" where
  "dispatching s \<longleftrightarrow> (case view_stack s of [] \<Rightarrow> \<not> quit_flag s | f # fs \<Rightarrow> polling f)"

fun timeout_of :: "frame \<Rightarrow> nat option" where
  "timeout_of (TimeoutPoll i) = Some i"
| "timeout_of _ = None"

text \<open>A change of the speed restarts the timer even when the simulation is paused.\<close>

definition speed_changed :: "rat \<Rightarrow> viz \<Rightarrow> viz" where
  "speed_changed v s = start_update_timer (s\<lparr>sample_period := v / 10\<rparr>)"

definition quit_event :: "viz \<Rightarrow> viz" where
  "quit_event s =
     (let s = (if timeout_id s = None then s else (remove_timer s)\<lparr>timeout_id := None\<rparr>)
      in s\<lparr>view_stack := QuitFlag # view_stack s\<rparr>)"

inductive event :: "viz \<Rightarrow> viz \<Rightarrow> bool" where
  timer: "i \<in> set (sources s) \<Longrightarrow> Some i \<notin> timeout_of ` set (view_stack s) \<Longrightarrow>
     event s (s\<lparr>view_stack := TimeoutPoll i # view_stack s\<rparr>)"
| idle: "0 < idle_updates s \<Longrightarrow>
     event s (s\<lparr>idle_updates := idle_updates s - 1, view_stack := CallbackAcquire UpdateModel # view_stack s\<rparr>)"
| user: "event s (s\<lparr>view_stack := CallbackAcquire OtherLocked # view_stack s\<rparr>)"
| play: "event s (set_playing (\<not> playing s) s)"
| speed: "1 / 100 \<le> v \<Longrightarrow> v \<le> 10 \<Longrightarrow> event s (speed_changed v s)"
| close: "\<not> quit_flag s \<Longrightarrow> event s (quit_event s)"

inductive viz_step :: "simulator \<Rightarrow> viz \<Rightarrow> viz \<Rightarrow> bool" for w :: simulator where
  by_simulation: "sim_step w s = Some s' \<Longrightarrow> viz_step w s s'"
| by_view: "view_step s = Some s' \<Longrightarrow> viz_step w s s'"
| by_event: "dispatching s \<Longrightarrow> event s s' \<Longrightarrow> viz_step w s s'"

text \<open>The state in which the thread is started: paused, with the timer that setting up the speed has started.\<close>

definition viz_start :: viz where
  "viz_start =
     \<lparr>sim_at = SimLoop, view_stack = [], sim_lock = None, go = False, quit_flag = False, target_time = 0,
      sample_period = 1 / 10, pause_messages = [], playing = False, timeout_id = Some 0, sources = [0],
      next_source = 1, idle_updates = 0, sim_now = 0, viewed = 0, runs = 0, updates = 0, dialogs = []\<rparr>"

inductive viz_reachable :: "simulator \<Rightarrow> viz \<Rightarrow> bool" for w :: simulator where
  started: "viz_reachable w viz_start"
| stepped: "viz_reachable w s \<Longrightarrow> viz_step w s s' \<Longrightarrow> viz_reachable w s'"

inductive_cases event_cases [elim]: "event s s'"

section \<open>Invariants\<close>

text \<open>The timers are apart from the rest of the state.\<close>

lemma remove_timer_fields [simp]:
  "sim_at (remove_timer s) = sim_at s" "view_stack (remove_timer s) = view_stack s"
  "sim_lock (remove_timer s) = sim_lock s" "go (remove_timer s) = go s" "quit_flag (remove_timer s) = quit_flag s"
  "target_time (remove_timer s) = target_time s" "sample_period (remove_timer s) = sample_period s"
  "pause_messages (remove_timer s) = pause_messages s" "playing (remove_timer s) = playing s"
  "idle_updates (remove_timer s) = idle_updates s" "sim_now (remove_timer s) = sim_now s"
  "viewed (remove_timer s) = viewed s" "runs (remove_timer s) = runs s" "updates (remove_timer s) = updates s"
  "dialogs (remove_timer s) = dialogs s"
  by (simp_all add: remove_timer_def source_remove_def split: option.splits)

lemma start_update_timer_fields [simp]:
  "sim_at (start_update_timer s) = sim_at s" "view_stack (start_update_timer s) = view_stack s"
  "sim_lock (start_update_timer s) = sim_lock s" "go (start_update_timer s) = go s"
  "quit_flag (start_update_timer s) = quit_flag s" "target_time (start_update_timer s) = target_time s"
  "sample_period (start_update_timer s) = sample_period s"
  "pause_messages (start_update_timer s) = pause_messages s" "playing (start_update_timer s) = playing s"
  "idle_updates (start_update_timer s) = idle_updates s" "sim_now (start_update_timer s) = sim_now s"
  "viewed (start_update_timer s) = viewed s" "runs (start_update_timer s) = runs s"
  "updates (start_update_timer s) = updates s" "dialogs (start_update_timer s) = dialogs s"
  by (simp_all add: start_update_timer_def Let_def)

lemma set_playing_fields [simp]:
  "sim_at (set_playing p s) = sim_at s" "view_stack (set_playing p s) = view_stack s"
  "sim_lock (set_playing p s) = sim_lock s" "go (set_playing p s) = go s"
  "quit_flag (set_playing p s) = quit_flag s" "target_time (set_playing p s) = target_time s"
  "sample_period (set_playing p s) = sample_period s" "pause_messages (set_playing p s) = pause_messages s"
  "playing (set_playing p s) = p" "idle_updates (set_playing p s) = idle_updates s"
  "sim_now (set_playing p s) = sim_now s" "viewed (set_playing p s) = viewed s" "runs (set_playing p s) = runs s"
  "updates (set_playing p s) = updates s" "dialogs (set_playing p s) = dialogs s"
  by (simp_all add: set_playing_def on_play_button_toggled_def)

lemma timeout_rest_fields [simp]:
  "sim_at (timeout_rest i m s) = sim_at s" "view_stack (timeout_rest i m s) = view_stack s"
  "sim_lock (timeout_rest i m s) = sim_lock s" "go (timeout_rest i m s) = (go s \<or> m = [] \<and> playing s)"
  "quit_flag (timeout_rest i m s) = quit_flag s" "target_time (timeout_rest i m s) = target_time s"
  "sample_period (timeout_rest i m s) = sample_period s" "pause_messages (timeout_rest i m s) = pause_messages s"
  "idle_updates (timeout_rest i m s) = idle_updates s"
  "sim_now (timeout_rest i m s) = sim_now s" "viewed (timeout_rest i m s) = viewed s"
  "runs (timeout_rest i m s) = runs s" "updates (timeout_rest i m s) = updates s"
  "dialogs (timeout_rest i m s) = dialogs s @ m"
  by (auto simp: timeout_rest_def source_remove_def Let_def)

lemma quit_event_fields [simp]:
  "view_stack (quit_event s) = QuitFlag # view_stack s" "sim_at (quit_event s) = sim_at s"
  "sim_lock (quit_event s) = sim_lock s" "go (quit_event s) = go s"
  "quit_flag (quit_event s) = quit_flag s" "target_time (quit_event s) = target_time s"
  "sample_period (quit_event s) = sample_period s" "pause_messages (quit_event s) = pause_messages s"
  "idle_updates (quit_event s) = idle_updates s" "sim_now (quit_event s) = sim_now s"
  "viewed (quit_event s) = viewed s" "runs (quit_event s) = runs s" "updates (quit_event s) = updates s"
  "dialogs (quit_event s) = dialogs s"
  by (simp_all add: quit_event_def Let_def)

text \<open>The simulation thread and the view inside their parts that hold the lock.\<close>

definition sim_inside :: "viz \<Rightarrow> bool" where
  "sim_inside s \<longleftrightarrow> sim_at s \<in> {SimRun, SimNotify, SimRelease}"

fun locked :: "frame \<Rightarrow> bool" where
  "locked (TimeoutLocked _ _) = True"
| "locked (TimeoutTarget _ _) = True"
| "locked (TimeoutRelease _ _) = True"
| "locked (CallbackBody _) = True"
| "locked CallbackRelease = True"
| "locked _ = False"

definition view_inside :: "viz \<Rightarrow> bool" where
  "view_inside s \<longleftrightarrow> (\<exists>f \<in> set (view_stack s). locked f)"

fun frame_messages :: "frame \<Rightarrow> string list" where
  "frame_messages (TimeoutLocked _ m) = m"
| "frame_messages (TimeoutTarget _ m) = m"
| "frame_messages (TimeoutRelease _ m) = m"
| "frame_messages (TimeoutRest _ m) = m"
| "frame_messages _ = []"

fun targeting :: "frame \<Rightarrow> bool" where
  "targeting (TimeoutTarget _ _) = True"
| "targeting _ = False"

lemma targeting_locked: "targeting f \<Longrightarrow> locked f"
  by (cases f) simp_all

definition update_frame :: "frame \<Rightarrow> nat" where
  "update_frame f = (if f \<in> {CallbackAcquire UpdateModel, CallbackBody UpdateModel} then 1 else 0)"

text \<open>Only the callback on top is not waiting in the inner loop.\<close>

definition stack_ok :: "viz \<Rightarrow> bool" where
  "stack_ok s \<longleftrightarrow> list_all polling (tl (view_stack s)) \<and>
     sim_lock s = (if sim_inside s then Some Simulation else if view_inside s then Some View else None) \<and>
     \<not> (sim_inside s \<and> view_inside s)"

definition quit_ok :: "viz \<Rightarrow> bool" where
  "quit_ok s \<longleftrightarrow>
     (QuitGo \<in> set (view_stack s) \<or> QuitJoin \<in> set (view_stack s) \<longrightarrow> quit_flag s) \<and>
     (quit_flag s \<and> sim_at s = SimWait \<longrightarrow> go s \<or> QuitGo \<in> set (view_stack s))"

definition time_ok :: "viz \<Rightarrow> bool" where
  "time_ok s \<longleftrightarrow> 0 < sample_period s \<and> sample_period s \<le> 1 \<and>
     viewed s \<le> sim_now s \<and> sim_now s \<le> target_time s \<and> target_time s \<le> viewed s + 1 \<and>
     ((\<exists>f \<in> set (view_stack s). targeting f) \<longrightarrow> viewed s = sim_now s)"

definition account_ok :: "simulator \<Rightarrow> viz \<Rightarrow> bool" where
  "account_ok w s \<longleftrightarrow>
     dialogs s @ concat (map frame_messages (view_stack s)) @ pause_messages s =
       concat (map (messages_of w) [0..<runs s]) \<and>
     runs s = updates s + idle_updates s + sum_list (map update_frame (view_stack s)) +
       (if sim_at s = SimNotify then 1 else 0)"

lemma polling_frame [simp]:
  "polling f \<Longrightarrow> \<not> locked f" "polling f \<Longrightarrow> frame_messages f = []" "polling f \<Longrightarrow> update_frame f = 0"
  "polling f \<Longrightarrow> \<not> targeting f" "polling f \<Longrightarrow> f \<noteq> QuitGo" "polling f \<Longrightarrow> f \<noteq> QuitJoin"
  by (cases f; simp add: update_frame_def)+

lemma polling_frames [simp]:
  assumes "list_all polling fs"
  shows "\<not> (\<exists>f \<in> set fs. locked f)" "concat (map frame_messages fs) = []" "sum_list (map update_frame fs) = 0"
    "\<not> (\<exists>f \<in> set fs. targeting f)" "QuitGo \<notin> set fs" "QuitJoin \<notin> set fs"
  using assms by (induction fs) (auto simp: list_all_iff)

definition viz_inv :: "simulator \<Rightarrow> viz \<Rightarrow> bool" where
  "viz_inv w s \<longleftrightarrow> stack_ok s \<and> quit_ok s \<and> time_ok s \<and> account_ok w s"

lemmas viz_inv_defs = viz_inv_def stack_ok_def quit_ok_def time_ok_def account_ok_def sim_inside_def view_inside_def

lemma start_inv: "viz_inv w viz_start"
  by (simp add: viz_inv_defs viz_start_def)

lemma sim_step_stack: "stack_ok s \<Longrightarrow> sim_step w s = Some s' \<Longrightarrow> stack_ok s'"
  by (cases "sim_at s")
    (auto simp: stack_ok_def sim_inside_def view_inside_def sim_step_def split: if_splits)

lemma sim_step_quit: "quit_ok s \<Longrightarrow> sim_step w s = Some s' \<Longrightarrow> quit_ok s'"
  by (cases "sim_at s") (auto simp: quit_ok_def sim_step_def split: if_splits)

lemma sim_step_time:
  assumes "stops_at_target w" "stack_ok s" "time_ok s" "sim_step w s = Some s'"
  shows "time_ok s'"
proof (cases "sim_at s = SimRun")
  case True
  have w: "sim_now s \<le> run_until w (sim_now s) (target_time s)"
    "run_until w (sim_now s) (target_time s) \<le> max (sim_now s) (target_time s)"
    using assms(1) by (simp_all add: stops_at_target_def)
  have "\<not> view_inside s" using assms(2) True by (simp add: stack_ok_def sim_inside_def)
  then have free: "\<not> (\<exists>f \<in> set (view_stack s). targeting f)"
    using targeting_locked by (auto simp: view_inside_def)
  have s': "sim_now s' = run_until w (sim_now s) (target_time s)" "target_time s' = target_time s"
    "viewed s' = viewed s" "view_stack s' = view_stack s" "sample_period s' = sample_period s"
    using assms(4) True by (auto simp: sim_step_def)
  have "sim_now s \<le> target_time s" "viewed s \<le> sim_now s" using assms(3) by (simp_all add: time_ok_def)
  with w have "viewed s \<le> sim_now s'" "sim_now s' \<le> target_time s" by (simp_all add: s')
  with assms(3) free show ?thesis by (simp add: time_ok_def s'(2-5))
next
  case False
  then have "sim_now s' = sim_now s" "target_time s' = target_time s"
    "viewed s' = viewed s" "view_stack s' = view_stack s" "sample_period s' = sample_period s"
    using assms(4) by (cases "sim_at s"; auto simp: sim_step_def split: if_splits)+
  with assms(3) show ?thesis by (simp add: time_ok_def)
qed

lemma sim_step_account:
  assumes "stack_ok s" "account_ok w s" "sim_step w s = Some s'"
  shows "account_ok w s'"
proof (cases "sim_at s")
  case SimRun
  then have "s' = s\<lparr>sim_now := run_until w (sim_now s) (target_time s),
      pause_messages := pause_messages s @ messages_of w (runs s), runs := runs s + 1, sim_at := SimNotify\<rparr>"
    using assms(3) by (simp add: sim_step_def)
  moreover have "dialogs s @ concat (map frame_messages (view_stack s)) @ pause_messages s @ messages_of w (runs s) =
      concat (map (messages_of w) [0..<runs s]) @ messages_of w (runs s)"
    using assms(2) by (simp add: account_ok_def flip: append_assoc)
  ultimately show ?thesis using assms(2) SimRun by (simp add: account_ok_def)
qed (use assms(2,3) in \<open>auto simp: account_ok_def sim_step_def split: if_splits\<close>)

text \<open>The steps of the view, frame by frame.\<close>

lemma view_step_frame:
  assumes "stack_ok s" "view_step s = Some s'"
  obtains f fs where "view_stack s = f # fs" "list_all polling fs" "\<forall>g \<in> set fs. \<not> locked g \<and> \<not> targeting g"
proof (cases "view_stack s")
  case (Cons f fs)
  then have fs: "list_all polling fs" using assms(1) by (simp add: stack_ok_def)
  then have "\<forall>g \<in> set fs. \<not> locked g \<and> \<not> targeting g" by (auto simp: list_all_iff)
  with Cons fs show thesis by (rule that)
qed (use assms in \<open>simp add: view_step_defs\<close>)

lemma stack_ok_iff:
  assumes "\<forall>g \<in> set fs. \<not> locked g \<and> \<not> targeting g"
  shows "view_stack s = f # fs \<Longrightarrow> stack_ok s \<longleftrightarrow> list_all polling fs \<and> \<not> (sim_inside s \<and> locked f) \<and>
      sim_lock s = (if sim_inside s then Some Simulation else if locked f then Some View else None)"
    "view_stack s = fs \<Longrightarrow> list_all polling fs \<Longrightarrow>
      stack_ok s \<longleftrightarrow> sim_lock s = (if sim_inside s then Some Simulation else None)"
proof -
  show "view_stack s = f # fs \<Longrightarrow> stack_ok s \<longleftrightarrow> list_all polling fs \<and> \<not> (sim_inside s \<and> locked f) \<and>
      sim_lock s = (if sim_inside s then Some Simulation else if locked f then Some View else None)"
    using assms by (auto simp: stack_ok_def view_inside_def)
  have "list_all polling fs \<Longrightarrow> list_all polling (tl fs)" by (cases fs) simp_all
  then show "view_stack s = fs \<Longrightarrow> list_all polling fs \<Longrightarrow>
      stack_ok s \<longleftrightarrow> sim_lock s = (if sim_inside s then Some Simulation else None)"
    using assms by (auto simp: stack_ok_def view_inside_def)
qed

lemma view_step_sim_at: "view_step s = Some s' \<Longrightarrow> sim_inside s' = sim_inside s"
  by (cases "view_stack s") (auto simp: view_step_defs sim_inside_def split: frame.splits if_splits)

lemma view_step_stack:
  assumes "stack_ok s" "view_step s = Some s'"
  shows "stack_ok s'"
proof -
  obtain f fs where f: "view_stack s = f # fs" "list_all polling fs" "\<forall>g \<in> set fs. \<not> locked g \<and> \<not> targeting g"
    using view_step_frame [OF assms] .
  note [simp] = view_step_sim_at [OF assms(2)]
  note ok = stack_ok_iff [OF f(3)]
  have s: "\<not> (sim_inside s \<and> locked f)"
    "sim_lock s = (if sim_inside s then Some Simulation else if locked f then Some View else None)"
    using assms(1) ok(1) [OF f(1)] by simp_all
  let ?f' = "hd (view_stack s')"
  have "view_stack s' = ?f' # fs \<and> sim_lock s' = (if locked ?f' then Some View else if locked f then None else sim_lock s) \<and>
      (locked ?f' \<and> \<not> locked f \<longrightarrow> sim_lock s = None) \<or>
    view_stack s' = fs \<and> sim_lock s' = (if locked f then None else sim_lock s)"
    using assms(2) f(1) s by (cases f) (auto simp: view_step_defs split: if_splits)
  then show ?thesis using ok(1) [of s' ?f'] ok(2) [of s'] f(2) s by (auto split: if_splits)
qed

lemma view_step_quit:
  assumes "stack_ok s" "quit_ok s" "view_step s = Some s'"
  shows "quit_ok s'"
proof -
  obtain f fs where f: "view_stack s = f # fs" "list_all polling fs" "\<forall>g \<in> set fs. \<not> locked g \<and> \<not> targeting g"
    using view_step_frame [OF assms(1,3)] .
  then show ?thesis using assms(2,3) by (cases f) (auto simp: quit_ok_def view_step_defs split: if_splits)
qed

lemma view_step_time:
  assumes "stack_ok s" "time_ok s" "view_step s = Some s'"
  shows "time_ok s'"
proof -
  obtain f fs where f: "view_stack s = f # fs" "list_all polling fs" "\<forall>g \<in> set fs. \<not> locked g \<and> \<not> targeting g"
    using view_step_frame [OF assms(1,3)] .
  then show ?thesis using assms(2,3) by (cases f) (auto simp: time_ok_def view_step_defs split: if_splits)
qed

lemma view_step_account:
  assumes "stack_ok s" "account_ok w s" "view_step s = Some s'"
  shows "account_ok w s'"
proof -
  obtain f fs where f: "view_stack s = f # fs" "list_all polling fs" "\<forall>g \<in> set fs. \<not> locked g \<and> \<not> targeting g"
    using view_step_frame [OF assms(1,3)] .
  then show ?thesis using assms(2,3)
    by (cases f) (auto simp: account_ok_def view_step_defs update_frame_def split: if_splits)
qed

text \<open>An event pushes at most one callback, which has not got the lock.\<close>

lemma speed_changed_fields [simp]:
  "sim_at (speed_changed v s) = sim_at s" "view_stack (speed_changed v s) = view_stack s"
  "sim_lock (speed_changed v s) = sim_lock s" "go (speed_changed v s) = go s"
  "quit_flag (speed_changed v s) = quit_flag s" "target_time (speed_changed v s) = target_time s"
  "sample_period (speed_changed v s) = v / 10" "pause_messages (speed_changed v s) = pause_messages s"
  "idle_updates (speed_changed v s) = idle_updates s" "sim_now (speed_changed v s) = sim_now s"
  "viewed (speed_changed v s) = viewed s" "runs (speed_changed v s) = runs s"
  "updates (speed_changed v s) = updates s" "dialogs (speed_changed v s) = dialogs s"
  by (simp_all add: speed_changed_def)

lemma event_same:
  "event s s' \<Longrightarrow>
     sim_at s' = sim_at s \<and> sim_lock s' = sim_lock s \<and> go s' = go s \<and> quit_flag s' = quit_flag s \<and>
     target_time s' = target_time s \<and> pause_messages s' = pause_messages s \<and> sim_now s' = sim_now s \<and>
     viewed s' = viewed s \<and> runs s' = runs s \<and> updates s' = updates s \<and> dialogs s' = dialogs s"
  by (erule event_cases) simp_all

lemma event_period:
  "event s s' \<Longrightarrow> 0 < sample_period s \<Longrightarrow> sample_period s \<le> 1 \<Longrightarrow>
     0 < sample_period s' \<and> sample_period s' \<le> 1"
  by (erule event_cases) (simp_all add: quit_event_def Let_def)

definition pushed_ok :: "frame list \<Rightarrow> bool" where
  "pushed_ok fs \<longleftrightarrow> length fs \<le> 1 \<and>
     (\<forall>f \<in> set fs. \<not> locked f \<and> \<not> targeting f \<and> frame_messages f = [] \<and> f \<noteq> QuitGo \<and> f \<noteq> QuitJoin)"

lemma event_frame:
  assumes "event s s'"
  obtains fs where "view_stack s' = fs @ view_stack s" "pushed_ok fs"
    "idle_updates s' + sum_list (map update_frame fs) = idle_updates s"
  using assms
proof cases
  case (timer i)
  then show thesis by (intro that [of "[TimeoutPoll i]"]) (simp_all add: update_frame_def pushed_ok_def)
next
  case idle
  then show thesis by (intro that [of "[CallbackAcquire UpdateModel]"]) (simp_all add: update_frame_def pushed_ok_def)
next
  case user
  then show thesis by (intro that [of "[CallbackAcquire OtherLocked]"]) (simp_all add: update_frame_def pushed_ok_def)
next
  case close
  then show thesis by (intro that [of "[QuitFlag]"]) (simp_all add: update_frame_def pushed_ok_def)
qed (intro that [of "[]"]; simp add: pushed_ok_def)+

lemma event_stack:
  assumes "stack_ok s" "quit_ok s" "dispatching s" "event s s'"
  shows "stack_ok s' \<and> quit_ok s'"
proof -
  obtain fs where fs: "view_stack s' = fs @ view_stack s" "pushed_ok fs" using event_frame [OF assms(4)] .
  note same = event_same [OF assms(4)]
  have inside: "view_inside s' = view_inside s" "sim_inside s' = sim_inside s"
    using fs same by (auto simp: view_inside_def sim_inside_def pushed_ok_def)
  have "list_all polling (view_stack s)"
    using assms(1,3) by (cases "view_stack s") (auto simp: stack_ok_def dispatching_def)
  then have "list_all polling (tl (view_stack s'))"
    using fs by (cases fs; cases "view_stack s") (auto simp: pushed_ok_def)
  then show ?thesis using assms(1,2) same inside fs by (auto simp: stack_ok_def quit_ok_def pushed_ok_def)
qed

lemma event_account:
  assumes "account_ok w s" "event s s'"
  shows "account_ok w s'"
proof -
  obtain fs where fs: "view_stack s' = fs @ view_stack s" "pushed_ok fs"
      "idle_updates s' + sum_list (map update_frame fs) = idle_updates s"
    using event_frame [OF assms(2)] .
  have "concat (map frame_messages (view_stack s')) = concat (map frame_messages (view_stack s))"
    using fs(1,2) by (simp add: pushed_ok_def)
  moreover have "idle_updates s' + sum_list (map update_frame (view_stack s')) =
      idle_updates s + sum_list (map update_frame (view_stack s))"
    using fs(1,3) by simp
  ultimately show ?thesis
    using assms(1) event_same [OF assms(2)] unfolding account_ok_def by (metis (no_types, lifting) add.assoc)
qed

lemma event_time:
  assumes "time_ok s" "event s s'"
  shows "time_ok s'"
proof -
  obtain fs where "view_stack s' = fs @ view_stack s" "pushed_ok fs" using event_frame [OF assms(2)] .
  then have "(\<exists>f \<in> set (view_stack s'). targeting f) = (\<exists>f \<in> set (view_stack s). targeting f)"
    by (auto simp: pushed_ok_def)
  moreover have "sim_now s' = sim_now s" "viewed s' = viewed s" "target_time s' = target_time s"
    using event_same [OF assms(2)] by simp_all
  moreover have "0 < sample_period s' \<and> sample_period s' \<le> 1"
    using event_period [OF assms(2)] assms(1) unfolding time_ok_def by blast
  ultimately show ?thesis using assms(1) unfolding time_ok_def by (simp only: simp_thms) blast
qed

text \<open>Only the time depends on what the simulator does.\<close>

lemma reachable_inv: "viz_reachable w s \<Longrightarrow> stack_ok s \<and> quit_ok s \<and> account_ok w s"
proof (induction rule: viz_reachable.induct)
  case started
  show ?case using start_inv by (simp add: viz_inv_def)
next
  case (stepped s s')
  note IH = conjunct1 [OF stepped.IH] conjunct1 [OF conjunct2 [OF stepped.IH]] conjunct2 [OF conjunct2 [OF stepped.IH]]
  from stepped.hyps(2) show ?case
  proof cases
    case by_simulation
    with IH show ?thesis using sim_step_stack sim_step_quit sim_step_account by metis
  next
    case by_view
    with IH show ?thesis using view_step_stack view_step_quit view_step_account by metis
  next
    case by_event
    with IH show ?thesis using event_stack event_account by metis
  qed
qed

lemma reachable_time: "viz_reachable w s \<Longrightarrow> stops_at_target w \<Longrightarrow> time_ok s"
proof (induction rule: viz_reachable.induct)
  case started
  show ?case using start_inv by (simp add: viz_inv_def)
next
  case (stepped s s')
  note inv = reachable_inv [OF stepped.hyps(1)]
  from stepped.hyps(2) show ?case
    by cases (use stepped.IH stepped.prems inv sim_step_time view_step_time event_time in metis)+
qed

section \<open>Progress\<close>

fun sim_steps :: "simulator \<Rightarrow> nat \<Rightarrow> viz \<Rightarrow> viz option" where
  "sim_steps w 0 s = Some s"
| "sim_steps w (Suc n) s = (case sim_step w s of None \<Rightarrow> None | Some s' \<Rightarrow> sim_steps w n s')"

lemmas sim_steps_simps = numeral_eq_Suc sim_step_def

text \<open>From inside, three steps give the lock back; after \<open>_quit\<close> has set its flags, five steps end the thread.\<close>

lemma sim_releases:
  assumes "sim_inside s"
  shows "\<exists>n \<le> 3. \<exists>s'. sim_steps w n s = Some s' \<and> view_stack s' = view_stack s \<and> sim_lock s' = None"
proof -
  consider "sim_at s = SimRun" | "sim_at s = SimNotify" | "sim_at s = SimRelease"
    using assms by (auto simp: sim_inside_def)
  then show ?thesis
  proof cases
    case 1
    then show ?thesis by (intro exI [of _ 3]) (simp add: sim_steps_simps)
  next
    case 2
    then show ?thesis by (intro exI [of _ 2]) (simp add: sim_steps_simps)
  next
    case 3
    then show ?thesis by (intro exI [of _ 1]) (simp add: sim_steps_simps)
  qed
qed

lemma sim_ends:
  assumes "quit_flag s" "sim_at s = SimWait \<longrightarrow> go s" "sim_at s = SimAcquire \<longrightarrow> sim_lock s = None"
  shows "\<exists>n \<le> 5. \<exists>s'. sim_steps w n s = Some s' \<and> view_stack s' = view_stack s \<and> sim_at s' = SimEnd"
proof (cases "sim_at s")
  case SimLoop
  then show ?thesis using assms by (intro exI [of _ 1]) (simp add: sim_steps_simps)
next
  case SimWait
  then show ?thesis using assms by (intro exI [of _ 3]) (simp add: sim_steps_simps)
next
  case SimClear
  then show ?thesis using assms by (intro exI [of _ 2]) (simp add: sim_steps_simps)
next
  case SimCheck
  then show ?thesis using assms by (intro exI [of _ 1]) (simp add: sim_steps_simps)
next
  case SimAcquire
  then show ?thesis using assms by (intro exI [of _ 5]) (simp add: sim_steps_simps)
next
  case SimRun
  then show ?thesis using assms by (intro exI [of _ 4]) (simp add: sim_steps_simps)
next
  case SimNotify
  then show ?thesis using assms by (intro exI [of _ 3]) (simp add: sim_steps_simps)
next
  case SimRelease
  then show ?thesis using assms by (intro exI [of _ 2]) (simp add: sim_steps_simps)
next
  case SimEnd
  then show ?thesis by (intro exI [of _ 0]) simp
qed

text \<open>What the callback on top can be waiting for.\<close>

lemma view_waits:
  assumes "stack_ok s" "view_stack s = f # fs" "view_step s = None"
  shows "f = QuitJoin \<and> sim_at s \<noteq> SimEnd \<or>
     ((\<exists>i. f = TimeoutPoll i) \<or> (\<exists>c. f = CallbackAcquire c)) \<and> sim_inside s"
proof -
  have fs: "\<not> (\<exists>g \<in> set fs. locked g)"
    using assms(1,2) by (intro polling_frames(1)) (simp add: stack_ok_def)
  have "\<not> locked f \<and> (sim_lock s \<noteq> None \<or> f = QuitJoin \<and> sim_at s \<noteq> SimEnd) \<and>
      (f = QuitJoin \<or> (\<exists>i. f = TimeoutPoll i) \<or> (\<exists>c. f = CallbackAcquire c))"
    using assms(2,3) by (cases f) (auto simp: view_step_defs split: if_splits)
  moreover have "sim_inside s" if "\<not> locked f" "sim_lock s \<noteq> None"
    using assms(1,2) fs that by (auto simp: stack_ok_def view_inside_def split: if_splits)
  moreover have "sim_at s \<noteq> SimEnd" if "f = QuitJoin"
    using assms(2,3) that by (simp add: view_step_defs split: if_splits)
  ultimately show ?thesis by blast
qed

section \<open>Properties\<close>


definition demo_simulator :: simulator where
  "demo_simulator = \<lparr>run_until = max, messages_of = (\<lambda>n. if n = 0 then [''paused''] else [])\<rparr>"

definition sim_waiting :: viz where
  "sim_waiting = viz_start\<lparr>sim_at := SimWait\<rparr>"

lemma reachable_waiting: "viz_reachable w sim_waiting"
  unfolding sim_waiting_def
  by (rule stepped [OF started by_simulation]) (simp add: sim_step_def viz_start_def)

text \<open>The first timeout, up to the signal for the simulation thread; the user has pressed play.\<close>

lemma reachable_event: "viz_reachable w s \<Longrightarrow> dispatching s \<Longrightarrow> event s s' \<Longrightarrow> viz_reachable w s'"
  by (blast intro: stepped by_event)

lemma reachable_view: "viz_reachable w s \<Longrightarrow> view_step s = Some s' \<Longrightarrow> viz_reachable w s'"
  by (blast intro: stepped by_view)

lemma reachable_sim: "viz_reachable w s \<Longrightarrow> sim_steps w n s = Some s' \<Longrightarrow> viz_reachable w s'"
  by (induction n arbitrary: s) (auto split: option.splits intro: stepped by_simulation)

definition first_timeout :: viz where
  "first_timeout =
     (let s = set_playing True sim_waiting
      in s\<lparr>view_stack := [TimeoutLocked 1 []], sim_lock := Some View\<rparr>)"

lemma reachable_first_timeout: "viz_reachable w first_timeout"
proof -
  let ?s = "set_playing True sim_waiting"
  have 1: "viz_reachable w ?s"
    by (rule reachable_event [OF reachable_waiting])
      (use event.play [of sim_waiting] in \<open>simp_all add: dispatching_def sim_waiting_def viz_start_def\<close>)
  have "viz_reachable w (?s\<lparr>view_stack := TimeoutPoll 1 # view_stack ?s\<rparr>)"
    by (rule reachable_event [OF 1 _ event.timer])
      (simp_all add: dispatching_def sim_waiting_def viz_start_def set_playing_def on_play_button_toggled_def
        start_update_timer_def remove_timer_def source_remove_def Let_def)
  then show ?thesis
    by (rule reachable_view) (simp add: view_step_defs first_timeout_def sim_waiting_def viz_start_def Let_def)
qed





text \<open>The rest of the first timeout, and the first call of the simulator.\<close>

fun view_steps :: "nat \<Rightarrow> viz \<Rightarrow> viz option" where
  "view_steps 0 s = Some s"
| "view_steps (Suc n) s = (case view_step s of None \<Rightarrow> None | Some s' \<Rightarrow> view_steps n s')"

lemma reachable_views: "viz_reachable w s \<Longrightarrow> view_steps n s = Some s' \<Longrightarrow> viz_reachable w s'"
  by (induction n arbitrary: s) (auto split: option.splits intro: reachable_view)

lemma first_period:
  "\<exists>s. viz_reachable demo_simulator s \<and> sim_now s = 1 / 10 \<and> viewed s = 0 \<and> runs s = 1 \<and>
     pause_messages s = [''paused''] \<and> dialogs s = [] \<and> view_stack s = []"
proof -
  obtain s1 where s1: "view_steps 4 first_timeout = Some s1" and at: "sim_at s1 = SimWait" "go s1"
      "sim_lock s1 = None" "\<not> quit_flag s1" "sim_now s1 = 0" "target_time s1 = 1 / 10" "runs s1 = 0"
      "pause_messages s1 = []" "viewed s1 = 0" "dialogs s1 = []" "view_stack s1 = []"
    by (simp add: numeral_eq_Suc view_step_defs first_timeout_def sim_waiting_def viz_start_def Let_def)
  obtain s2 where s2: "sim_steps demo_simulator 5 s1 = Some s2" and "sim_now s2 = 1 / 10" "viewed s2 = 0"
      "runs s2 = 1" "pause_messages s2 = [''paused'']" "dialogs s2 = []" "view_stack s2 = []"
    using at by (simp add: sim_steps_simps demo_simulator_def)
  with reachable_sim [OF reachable_views [OF reachable_first_timeout s1] s2] show ?thesis by blast
qed




end
