(* ===== verification/Viz_Scene.thy ===== *)
theory Viz_Scene
  imports Py_Prelude Complex_Main
begin

text \<open>
  The scene of the visualizer, \<^verbatim>\<open>src/visualizer/visualizer/core.py\<close>, \<open>base.py\<close> and
  \<open>plugins/wifi_intrastructure_link.py\<close>: nodes and channels with their positions, the links between them, the
  scan of the topology, the selected node, and the links of stations to access points. An object has a
  list of its links and a link refers to its ends; objects are kept in a dictionary and links in a
  list, and refer to each other by key and index. The simulator and the layout of graphs are
  parameters. Coordinates are rational numbers, without rounding.
\<close>

section \<open>Coordinates and device traits\<close>

type_synonym point = "rat \<times> rat"

definition PIXELS_PER_METER :: rat where
  "PIXELS_PER_METER = 3"

definition transform_distance_simulation_to_canvas :: "rat \<Rightarrow> rat" where
  "transform_distance_simulation_to_canvas d = d * PIXELS_PER_METER"

definition transform_point_simulation_to_canvas :: "point \<Rightarrow> point" where
  "transform_point_simulation_to_canvas p = (fst p * PIXELS_PER_METER, snd p * PIXELS_PER_METER)"

definition transform_distance_canvas_to_simulation :: "rat \<Rightarrow> rat" where
  "transform_distance_canvas_to_simulation d = d / PIXELS_PER_METER"

definition transform_point_canvas_to_simulation :: "point \<Rightarrow> point" where
  "transform_point_canvas_to_simulation p = (fst p / PIXELS_PER_METER, snd p / PIXELS_PER_METER)"

record traits =
  is_wireless :: "bool option"
  is_virtual :: bool

definition NetDeviceTraits :: "bool option \<Rightarrow> bool \<Rightarrow> traits py" where
  "NetDeviceTraits w v =
     (if v \<or> w \<noteq> None then Inr \<lparr>is_wireless = w, is_virtual = v\<rparr> else Inl AssertionError)"

text \<open>The table of device types; an unknown type is entered as a wireless device.\<close>

definition lookup_netdevice_traits :: "(string, traits) dict \<Rightarrow> string \<Rightarrow> traits \<times> (string, traits) dict" where
  "lookup_netdevice_traits table t =
     (case map_of table t of
        Some tr \<Rightarrow> (tr, table)
      | None \<Rightarrow>
          (let tr = \<lparr>is_wireless = Some True, is_virtual = False\<rparr> in (tr, AList.update t tr table)))"

section \<open>Objects and links\<close>

datatype vref = NodeRef int | ChannelRef int

record vobject =
  v_pos :: point
  v_links :: "nat list"
  v_selected :: bool

text \<open>
  A \<open>WiredLink\<close> has two ends; a \<open>WifiLink\<close> has a station and maybe an access point, and none of both after
  \<open>destroy\<close>. The last component is the line that is drawn, once there is one.
\<close>

datatype vlink =
    Wired vref vref "(point \<times> point) option"
  | Wifi "vref option" "vref option" "(point \<times> point) option"

datatype show_mode = ShowAll | ShowNone | ShowSelected

record scene =
  objects :: "(vref, vobject) dict"
  links :: "vlink list"
  selected_node :: "int option"
  mode :: show_mode
  interest :: "int list"

definition get_position_of :: "scene \<Rightarrow> vref \<Rightarrow> point" where
  "get_position_of sc r = (case map_of (objects sc) r of None \<Rightarrow> (0, 0) | Some v \<Rightarrow> v_pos v)"

definition change_object :: "vref \<Rightarrow> (vobject \<Rightarrow> vobject) \<Rightarrow> scene \<Rightarrow> scene" where
  "change_object r f sc =
     (case map_of (objects sc) r of
        None \<Rightarrow> sc
      | Some v \<Rightarrow> sc\<lparr>objects := AList.update r (f v) (objects sc)\<rparr>)"

text \<open>\<open>get_node\<close> and \<open>get_channel\<close> create the object on the first use; a new item is at the origin.\<close>

definition get_object :: "vref \<Rightarrow> scene \<Rightarrow> scene" where
  "get_object r sc =
     (if has_key (objects sc) r then sc
      else sc\<lparr>objects := AList.update r \<lparr>v_pos = (0, 0), v_links = [], v_selected = False\<rparr> (objects sc)\<rparr>)"

definition get_node :: "int \<Rightarrow> scene \<Rightarrow> scene" where
  "get_node i sc = get_object (NodeRef i) sc"

definition get_channel :: "int \<Rightarrow> scene \<Rightarrow> scene" where
  "get_channel c sc = get_object (ChannelRef c) sc"

definition update_points :: "nat \<Rightarrow> scene \<Rightarrow> scene" where
  "update_points l sc =
     (case links sc ! l of
        Wired a b _ \<Rightarrow> sc\<lparr>links := (links sc)[l := Wired a b (Some (get_position_of sc a, get_position_of sc b))]\<rparr>
      | Wifi (Some a) (Some b) _ \<Rightarrow>
          sc\<lparr>links := (links sc)[l := Wifi (Some a) (Some b) (Some (get_position_of sc a, get_position_of sc b))]\<rparr>
      | Wifi _ _ _ \<Rightarrow> sc)"

text \<open>\<open>Node.set_position\<close> and \<open>Channel.set_position\<close>: every link of the object is drawn again.\<close>

definition set_position :: "vref \<Rightarrow> point \<Rightarrow> scene \<Rightarrow> scene" where
  "set_position r p sc =
     (let sc = change_object r (v_pos_update (\<lambda>_. p)) sc
      in case map_of (objects sc) r of None \<Rightarrow> sc | Some v \<Rightarrow> fold update_points (v_links v) sc)"

definition add_link :: "vref \<Rightarrow> nat \<Rightarrow> scene \<Rightarrow> scene" where
  "add_link r l sc = change_object r (v_links_update (\<lambda>ls. ls @ [l])) sc"

definition create_link :: "vref \<Rightarrow> vref \<Rightarrow> scene \<Rightarrow> scene" where
  "create_link a b sc =
     (let l = length (links sc); sc = sc\<lparr>links := links sc @ [Wired a b None]\<rparr>
      in add_link b l (add_link a l sc))"

text \<open>\<open>links.remove\<close> raises when the link is not in the list.\<close>

definition remove_link :: "vref \<Rightarrow> nat \<Rightarrow> scene \<Rightarrow> scene py" where
  "remove_link r l sc =
     (case map_of (objects sc) r of
        None \<Rightarrow> Inl ValueError
      | Some v \<Rightarrow>
          if l \<in> set (v_links v) then Inr (change_object r (v_links_update (remove1 l)) sc)
          else Inl ValueError)"

section \<open>Links to access points\<close>

definition new_wifi_link :: "vref \<Rightarrow> scene \<Rightarrow> scene" where
  "new_wifi_link sta sc = sc\<lparr>links := links sc @ [Wifi (Some sta) None None]\<rparr>"

definition set_ap :: "nat \<Rightarrow> vref option \<Rightarrow> scene \<Rightarrow> scene py" where
  "set_ap l ap sc =
     (case links sc ! l of
        Wired _ _ _ \<Rightarrow> Inl AttributeError
      | Wifi sta old line \<Rightarrow>
          if ap = old then Inr sc
          else
            py_bind (case old of None \<Rightarrow> Inr sc | Some r \<Rightarrow> remove_link r l sc) (\<lambda>sc.
              let sc = sc\<lparr>links := (links sc)[l := Wifi sta ap line]\<rparr>
              in Inr (case ap of None \<Rightarrow> sc | Some r \<Rightarrow> update_points l (add_link r l sc))))"

definition destroy_link :: "nat \<Rightarrow> scene \<Rightarrow> scene" where
  "destroy_link l sc =
     (case links sc ! l of
        Wired _ _ _ \<Rightarrow> sc
      | Wifi sta ap line \<Rightarrow> sc\<lparr>links := (links sc)[l := Wifi None None line]\<rparr>)"

text \<open>The monitor: the access points by address, and the stations with their links.\<close>

record monitor =
  access_points :: "(string, vref) dict"
  stations :: "(nat \<times> nat) list"

text \<open>What the simulator says of a station: whether the link is up, and the address it is associated with.\<close>

type_synonym station_state = "nat \<Rightarrow> bool \<times> string"

definition update_station ::
  "(string, vref) dict \<Rightarrow> station_state \<Rightarrow> scene \<Rightarrow> nat \<times> nat \<Rightarrow> scene py" where
  "update_station aps st sc s =
     (case s of (dev, l) \<Rightarrow>
        if \<not> fst (st dev) then set_ap l None sc
        else if snd (st dev) = ''00:00:00:00:00:00'' then set_ap l None sc
        else py_bind (dict_get aps (snd (st dev))) (\<lambda>ap. set_ap l (Some ap) sc))"

definition monitor_periodic_update :: "monitor \<Rightarrow> station_state \<Rightarrow> scene \<Rightarrow> scene py" where
  "monitor_periodic_update mon st sc = run_steps (update_station (access_points mon) st) sc (stations mon)"

definition monitor_update_view :: "monitor \<Rightarrow> scene \<Rightarrow> scene" where
  "monitor_update_view mon sc = fold update_points (map snd (stations mon)) sc"

text \<open>\<open>scan_nodes\<close>: what the devices of the nodes are.\<close>

datatype wifi_device = NoWifi | Station nat | AccessPoint string

definition scan_device :: "int \<Rightarrow> wifi_device \<Rightarrow> monitor \<times> scene \<Rightarrow> monitor \<times> scene" where
  "scan_device i d s =
     (case s of (mon, sc) \<Rightarrow>
        case d of
          NoWifi \<Rightarrow> (mon, sc)
        | Station dev \<Rightarrow> (mon\<lparr>stations := stations mon @ [(dev, length (links sc))]\<rparr>, new_wifi_link (NodeRef i) sc)
        | AccessPoint bssid \<Rightarrow> (mon\<lparr>access_points := AList.update bssid (NodeRef i) (access_points mon)\<rparr>, sc))"

definition scan_nodes :: "(int \<Rightarrow> wifi_device list) \<Rightarrow> int list \<Rightarrow> monitor \<Rightarrow> scene \<Rightarrow> monitor \<times> scene" where
  "scan_nodes devices nodes mon sc =
     (let sc = fold destroy_link (map snd (stations mon)) sc
      in fold (\<lambda>i. fold (scan_device i) (devices i)) nodes (\<lparr>access_points = [], stations = []\<rparr>, sc))"

section \<open>The selected node\<close>

text \<open>What can be given to \<open>select_node\<close>: a node of the simulator or its number, a node of the view, nothing, or else.\<close>

datatype node_arg = NsNode int | IntArg int | VizNode int | NoNode | OtherArg

definition resolve_node :: "scene \<Rightarrow> node_arg \<Rightarrow> int option py" where
  "resolve_node sc a =
     (case a of
        NsNode i \<Rightarrow> py_bind (dict_get (objects sc) (NodeRef i)) (\<lambda>_. Inr (Some i))
      | IntArg i \<Rightarrow> py_bind (dict_get (objects sc) (NodeRef i)) (\<lambda>_. Inr (Some i))
      | VizNode i \<Rightarrow> Inr (Some i)
      | NoNode \<Rightarrow> Inr None
      | OtherArg \<Rightarrow> Inl TypeError)"

definition set_selected :: "bool \<Rightarrow> int option \<Rightarrow> scene \<Rightarrow> scene" where
  "set_selected b n sc =
     (case n of None \<Rightarrow> sc | Some i \<Rightarrow> change_object (NodeRef i) (v_selected_update (\<lambda>_. b)) sc)"

definition selected_list :: "int option \<Rightarrow> int list" where
  "selected_list n = (case n of None \<Rightarrow> [] | Some i \<Rightarrow> [i])"

definition select_node :: "node_arg \<Rightarrow> scene \<Rightarrow> scene py" where
  "select_node a sc =
     py_bind (resolve_node sc a) (\<lambda>n.
       if n = selected_node sc then Inr sc
       else
         (let sc = set_selected False (selected_node sc) sc;
              sc = set_selected True n (sc\<lparr>selected_node := n\<rparr>)
          in Inr (if mode sc = ShowSelected then sc\<lparr>interest := selected_list n\<rparr> else sc)))"

text \<open>The nodes whose transmissions the simulator reports; \<open>n\<close> is the number of its nodes.\<close>

definition set_show_transmissions_mode :: "nat \<Rightarrow> show_mode \<Rightarrow> scene \<Rightarrow> scene" where
  "set_show_transmissions_mode n m sc =
     sc\<lparr>mode := m,
        interest := (case m of
            ShowAll \<Rightarrow> map int [0..<n]
          | ShowNone \<Rightarrow> []
          | ShowSelected \<Rightarrow> selected_list (selected_node sc))\<rparr>"

definition new_scene :: "nat \<Rightarrow> scene" where
  "new_scene n =
     set_show_transmissions_mode n ShowAll
       \<lparr>objects = [], links = [], selected_node = None, mode = ShowNone, interest = []\<rparr>"

section \<open>The topology\<close>

text \<open>
  The network: for every node its position if it has mobility, and its devices; for every device its
  traits and its channel; for every channel the nodes of its devices.
\<close>

record net_device =
  dev_traits :: traits
  dev_channel :: int

record net_node =
  mobility :: "point option"
  devices :: "net_device list"

record network =
  net_nodes :: "net_node list"
  channel_nodes :: "int \<Rightarrow> int list"

text \<open>The graph for the layout, of the objects without mobility. A name of a vertex stands for its object.\<close>

record layout_graph =
  vertices :: "vref list"
  edges :: "(vref \<times> vref) list"

definition add_vertex :: "vref \<Rightarrow> layout_graph \<Rightarrow> layout_graph" where
  "add_vertex v g = (if v \<in> set (vertices g) then g else g\<lparr>vertices := vertices g @ [v]\<rparr>)"

definition add_edge :: "vref \<Rightarrow> vref \<Rightarrow> layout_graph \<Rightarrow> layout_graph" where
  "add_edge a b g = (let g = add_vertex b (add_vertex a g) in g\<lparr>edges := edges g @ [(a, b)]\<rparr>)"

definition REPRESENT_CHANNELS_AS_NODES :: bool where
  "REPRESENT_CHANNELS_AS_NODES = True"

definition has_mobility :: "network \<Rightarrow> int \<Rightarrow> bool" where
  "has_mobility net i \<longleftrightarrow> mobility (net_nodes net ! nat i) \<noteq> None"

definition link_to_channel :: "network \<Rightarrow> int \<Rightarrow> int \<Rightarrow> layout_graph \<times> scene \<Rightarrow> layout_graph \<times> scene" where
  "link_to_channel net i c s =
     (case s of (g, sc) \<Rightarrow>
        (if has_mobility net i then g else add_edge (NodeRef i) (ChannelRef c) g,
         create_link (NodeRef i) (ChannelRef c) (get_channel c sc)))"

definition link_to_node :: "network \<Rightarrow> int \<Rightarrow> int \<Rightarrow> layout_graph \<times> scene \<Rightarrow> layout_graph \<times> scene" where
  "link_to_node net i j s =
     (case s of (g, sc) \<Rightarrow>
        let sc = get_node j sc
        in if j = i then (g, sc)
           else (if has_mobility net i \<or> has_mobility net j then g else add_edge (NodeRef i) (NodeRef j) g,
                 create_link (NodeRef i) (NodeRef j) sc))"

definition scan_net_device :: "network \<Rightarrow> int \<Rightarrow> net_device \<Rightarrow> layout_graph \<times> scene \<Rightarrow> layout_graph \<times> scene" where
  "scan_net_device net i d s =
     (if is_wireless (dev_traits d) = Some True \<or> is_virtual (dev_traits d) then s
      else if 2 < length (channel_nodes net (dev_channel d)) \<and> REPRESENT_CHANNELS_AS_NODES
      then link_to_channel net i (dev_channel d) s
      else fold (link_to_node net i) (channel_nodes net (dev_channel d)) s)"

definition scan_node :: "network \<Rightarrow> int \<Rightarrow> layout_graph \<times> scene \<Rightarrow> layout_graph \<times> scene" where
  "scan_node net i s =
     (case s of (g, sc) \<Rightarrow>
        let sc = get_node i sc;
            s = (case mobility (net_nodes net ! nat i) of
                   Some p \<Rightarrow> (g, set_position (NodeRef i) (transform_point_simulation_to_canvas p) sc)
                 | None \<Rightarrow> (add_vertex (NodeRef i) g, sc))
        in fold (scan_net_device net i) (devices (net_nodes net ! nat i)) s)"

definition place_vertex :: "scene \<Rightarrow> vref \<times> point \<Rightarrow> scene py" where
  "place_vertex sc x =
     (if has_key (objects sc) (fst x) then Inr (set_position (fst x) (snd x) sc) else Inl KeyError)"

definition scan_topology :: "(layout_graph \<Rightarrow> (vref \<times> point) list) \<Rightarrow> network \<Rightarrow> scene \<Rightarrow> scene py" where
  "scan_topology layout net sc =
     (case fold (scan_node net) (map int [0..<length (net_nodes net)]) (\<lparr>vertices = [], edges = []\<rparr>, sc) of
        (g, sc) \<Rightarrow> run_steps place_vertex sc (layout g))"

text \<open>\<open>_update_node_positions\<close>, for the nodes in the order in which the dictionary lists them.\<close>

definition update_node_position :: "network \<Rightarrow> scene \<Rightarrow> vref \<Rightarrow> scene" where
  "update_node_position net sc r =
     (case r of
        ChannelRef c \<Rightarrow> sc
      | NodeRef i \<Rightarrow>
          (case mobility (net_nodes net ! nat i) of
             None \<Rightarrow> sc
           | Some p \<Rightarrow> set_position r (transform_point_simulation_to_canvas p) sc))"

definition update_node_positions :: "network \<Rightarrow> scene \<Rightarrow> scene" where
  "update_node_positions net sc = foldl (update_node_position net) sc (dict_keys (objects sc))"

section \<open>Consistency of objects and links\<close>

fun touches :: "vlink \<Rightarrow> vref \<Rightarrow> nat" where
  "touches (Wired a b _) r = (if a = r then 1 else 0) + (if b = r then 1 else 0)"
| "touches (Wifi _ ap _) r = (if ap = Some r then 1 else 0)"

fun destroyed :: "vlink \<Rightarrow> bool" where
  "destroyed (Wifi None _ _) = True"
| "destroyed _ = False"

fun link_ends :: "vlink \<Rightarrow> vref set" where
  "link_ends (Wired a b _) = {a, b}"
| "link_ends (Wifi sta ap _) = set_option sta \<union> set_option ap"

text \<open>A line between wired ends is drawn between their present positions.\<close>

fun drawn_ok :: "(vref \<Rightarrow> point) \<Rightarrow> vlink \<Rightarrow> bool" where
  "drawn_ok pos (Wired a b (Some line)) = (line = (pos a, pos b))"
| "drawn_ok pos _ = True"

definition links_of_ok :: "vlink list \<Rightarrow> vref \<Rightarrow> nat list \<Rightarrow> bool" where
  "links_of_ok ls r ids \<longleftrightarrow> (\<forall>i \<in> set ids. i < length ls) \<and>
     (\<forall>i < length ls. \<not> destroyed (ls ! i) \<longrightarrow> count_list ids i = touches (ls ! i) r)"

definition scene_ok :: "scene \<Rightarrow> bool" where
  "scene_ok sc \<longleftrightarrow> dict_ok (objects sc) \<and>
     (\<forall>r v. map_of (objects sc) r = Some v \<longrightarrow> links_of_ok (links sc) r (v_links v)) \<and>
     (\<forall>l \<in> set (links sc). (\<forall>r \<in> link_ends l. has_key (objects sc) r) \<and> drawn_ok (get_position_of sc) l)"

lemma change_object_simps [simp]:
  "links (change_object r f sc) = links sc" "selected_node (change_object r f sc) = selected_node sc"
  "mode (change_object r f sc) = mode sc" "interest (change_object r f sc) = interest sc"
  "dict_ok (objects sc) \<Longrightarrow> dict_ok (objects (change_object r f sc))"
  "has_key (objects (change_object r f sc)) x = has_key (objects sc) x"
  by (auto simp: change_object_def has_key_def dict_simps split: option.splits)

lemma map_of_change [simp]:
  "map_of (objects (change_object r f sc)) x =
     (if x = r then map_option f (map_of (objects sc) r) else map_of (objects sc) x)"
  by (auto simp: change_object_def dict_simps split: option.splits)

lemma get_position_of_change:
  "(\<And>v. v_pos (f v) = v_pos v) \<Longrightarrow> get_position_of (change_object r f sc) = get_position_of sc"
  by (rule ext) (simp add: get_position_of_def split: option.splits)

text \<open>Drawing links again does not depend on the order.\<close>

fun redraw :: "(vref \<Rightarrow> point) \<Rightarrow> vlink \<Rightarrow> vlink" where
  "redraw pos (Wired a b line) = Wired a b (Some (pos a, pos b))"
| "redraw pos (Wifi (Some a) (Some b) line) = Wifi (Some a) (Some b) (Some (pos a, pos b))"
| "redraw pos l = l"

lemma redraw_simps [simp]:
  "touches (redraw pos l) = touches l" "destroyed (redraw pos l) = destroyed l"
  "link_ends (redraw pos l) = link_ends l" "drawn_ok pos (redraw pos l)" "redraw pos (redraw pos l) = redraw pos l"
  by (induction pos l rule: redraw.induct; simp; fail)+

lemma update_points_redraw:
  "update_points l sc = sc\<lparr>links := (links sc)[l := redraw (get_position_of sc) (links sc ! l)]\<rparr>"
proof -
  have same: "sc = sc\<lparr>links := (links sc)[l := links sc ! l]\<rparr>" by simp
  show ?thesis
    by (cases "(get_position_of sc, links sc ! l)" rule: redraw.cases; simp add: update_points_def)
      (use same in \<open>simp_all split: option.splits\<close>)
qed

lemma get_position_of_links [simp]: "get_position_of (sc\<lparr>links := ls\<rparr>) = get_position_of sc"
  by (rule ext) (simp add: get_position_of_def)

lemma update_points_simps [simp]:
  "objects (update_points l sc) = objects sc" "length (links (update_points l sc)) = length (links sc)"
  "selected_node (update_points l sc) = selected_node sc" "mode (update_points l sc) = mode sc"
  "interest (update_points l sc) = interest sc" "get_position_of (update_points l sc) = get_position_of sc"
  by (simp_all add: update_points_redraw)

lemma fold_update_points_simps [simp]:
  "objects (fold update_points ls sc) = objects sc" "length (links (fold update_points ls sc)) = length (links sc)"
  "selected_node (fold update_points ls sc) = selected_node sc" "mode (fold update_points ls sc) = mode sc"
  "interest (fold update_points ls sc) = interest sc" "get_position_of (fold update_points ls sc) = get_position_of sc"
  by (induction ls arbitrary: sc) simp_all

lemma fold_update_points_links:
  "i < length (links sc) \<Longrightarrow> links (fold update_points ls sc) ! i =
     (if i \<in> set ls then redraw (get_position_of sc) (links sc ! i) else links sc ! i)"
proof (induction ls arbitrary: sc)
  case (Cons l ls)
  then have "links (fold update_points ls (update_points l sc)) ! i =
      (if i \<in> set ls then redraw (get_position_of sc) (links (update_points l sc) ! i) else links (update_points l sc) ! i)"
    by simp
  moreover have "links (update_points l sc) ! i = (if i = l then redraw (get_position_of sc) (links sc ! i) else links sc ! i)"
    using Cons.prems by (simp add: update_points_redraw)
  ultimately show ?case by auto
qed simp

lemma links_of_ok_cong:
  assumes "length ls' = length ls" "\<And>i. i < length ls \<Longrightarrow> touches (ls' ! i) = touches (ls ! i) \<and> destroyed (ls' ! i) = destroyed (ls ! i)"
  shows "links_of_ok ls' r ids = links_of_ok ls r ids"
  using assms by (auto simp: links_of_ok_def)

lemma scene_ok_nth:
  "scene_ok sc \<longleftrightarrow> dict_ok (objects sc) \<and>
     (\<forall>r v. map_of (objects sc) r = Some v \<longrightarrow> links_of_ok (links sc) r (v_links v)) \<and>
     (\<forall>i < length (links sc). (\<forall>r \<in> link_ends (links sc ! i). has_key (objects sc) r) \<and>
        drawn_ok (get_position_of sc) (links sc ! i))"
  unfolding scene_ok_def by (metis (no_types, lifting) in_set_conv_nth)

lemma touches_end: "r \<notin> link_ends l \<Longrightarrow> touches l r = 0"
  by (cases l) auto

lemma drawn_ok_other: "drawn_ok pos l \<Longrightarrow> (\<And>x. x \<in> link_ends l \<Longrightarrow> pos' x = pos x) \<Longrightarrow> drawn_ok pos' l"
  by (induction pos l rule: drawn_ok.induct) simp_all

lemma drawn_ok_untouched: "touches l r = 0 \<Longrightarrow> drawn_ok pos l \<Longrightarrow> (\<And>x. x \<noteq> r \<Longrightarrow> pos' x = pos x) \<Longrightarrow> drawn_ok pos' l"
  by (induction pos l rule: drawn_ok.induct) (auto split: if_splits)

lemma drawn_ok_destroyed: "destroyed l \<Longrightarrow> drawn_ok pos l"
  by (cases l) simp_all

lemma set_position_ok:
  assumes "scene_ok sc"
  shows "scene_ok (set_position r p sc)"
proof (cases "map_of (objects sc) r")
  case None
  then show ?thesis using assms by (simp add: set_position_def change_object_def)
next
  case (Some v)
  let ?sc = "change_object r (v_pos_update (\<lambda>_. p)) sc"
  let ?pos = "get_position_of ?sc"
  have s: "set_position r p sc = fold update_points (v_links v) ?sc"
    using Some by (simp add: set_position_def)
  have nth: "links (set_position r p sc) ! i = (if i \<in> set (v_links v) then redraw ?pos (links sc ! i) else links sc ! i)"
    if "i < length (links sc)" for i
    using fold_update_points_links [of i ?sc "v_links v"] that by (simp add: s)
  have len: "length (links (set_position r p sc)) = length (links sc)" by (simp add: s)
  have obj: "objects (set_position r p sc) = objects ?sc" by (simp add: s)
  have ids: "links_of_ok (links sc) r (v_links v)" using assms Some by (simp add: scene_ok_def)
  have "links_of_ok (links (set_position r p sc)) x (v_links u)" if "map_of (objects ?sc) x = Some u" for x u
    using that assms Some
    by (subst links_of_ok_cong [OF len]) (auto simp: nth scene_ok_def split: if_splits)
  moreover have "drawn_ok ?pos (links (set_position r p sc) ! i)" if "i < length (links sc)" for i
  proof (cases "i \<in> set (v_links v) \<or> destroyed (links sc ! i)")
    case True
    then show ?thesis using nth [OF that] drawn_ok_destroyed by auto
  next
    case False
    then have "count_list (v_links v) i = 0" by (simp add: count_list_0_iff)
    then have "touches (links sc ! i) r = 0" using ids that False unfolding links_of_ok_def by fastforce
    moreover have "drawn_ok (get_position_of sc) (links sc ! i)" using assms that by (simp add: scene_ok_nth)
    ultimately show ?thesis
      using nth [OF that] False by (auto simp: get_position_of_def intro: drawn_ok_untouched)
  qed
  moreover have "get_position_of (set_position r p sc) = ?pos" by (simp add: s)
  ultimately show ?thesis using assms by (auto simp: scene_ok_nth len obj nth)
qed

lemma get_object_simps [simp]:
  "links (get_object r sc) = links sc" "selected_node (get_object r sc) = selected_node sc"
  "has_key (objects (get_object r sc)) x = (x = r \<or> has_key (objects sc) x)"
  by (auto simp: get_object_def dict_simps)

lemma get_position_get_object [simp]: "get_position_of (get_object r sc) = get_position_of sc"
  by (rule ext) (auto simp: get_position_of_def get_object_def has_key_def dict_simps split: option.splits)

lemma map_of_get_object:
  "map_of (objects (get_object r sc)) x =
     (if x = r \<and> map_of (objects sc) r = None then Some \<lparr>v_pos = (0, 0), v_links = [], v_selected = False\<rparr>
      else map_of (objects sc) x)"
  by (auto simp: get_object_def has_key_def dict_simps)

lemma get_object_ok:
  assumes "scene_ok sc"
  shows "scene_ok (get_object r sc)"
proof -
  have "links_of_ok (links sc) r []" if new: "map_of (objects sc) r = None"
  proof -
    have "touches (links sc ! i) r = 0" if i: "i < length (links sc)" for i
    proof (rule touches_end)
      show "r \<notin> link_ends (links sc ! i)"
      proof
        assume "r \<in> link_ends (links sc ! i)"
        then have "has_key (objects sc) r" using assms i by (auto simp: scene_ok_nth)
        then show False using new by (simp add: has_key_def)
      qed
    qed
    then show ?thesis by (simp add: links_of_ok_def)
  qed
  moreover have "dict_ok (objects (get_object r sc))"
    using assms by (simp add: scene_ok_def get_object_def)
  ultimately show ?thesis
    using assms by (auto simp: scene_ok_nth map_of_get_object split: if_splits)
qed

lemma count_list_replicate: "count_list (replicate n x) y = (if x = y then n else 0)"
  by (induction n) auto

lemma links_of_ok_new:
  assumes "links_of_ok ls r ids"
  shows "links_of_ok (ls @ [l]) r (ids @ replicate (touches l r) (length ls))"
proof -
  have "length ls \<notin> set ids" using assms by (auto simp: links_of_ok_def)
  then show ?thesis using assms
    by (auto simp: links_of_ok_def nth_append less_Suc_eq count_list_append count_list_replicate count_list_0_iff)
qed

lemma create_link_ok:
  assumes "scene_ok sc" "has_key (objects sc) a" "has_key (objects sc) b"
  shows "scene_ok (create_link a b sc)"
proof -
  let ?sc = "sc\<lparr>links := links sc @ [Wired a b None]\<rparr>" and ?l = "length (links sc)"
  have pos: "get_position_of (create_link a b sc) = get_position_of sc"
    by (simp add: create_link_def Let_def add_link_def get_position_of_change)
  have links: "links (create_link a b sc) = links sc @ [Wired a b None]"
    by (simp add: create_link_def Let_def add_link_def)
  have obj: "map_of (objects (create_link a b sc)) x =
      map_option (v_links_update (\<lambda>ls. ls @ replicate (touches (Wired a b None) x) ?l)) (map_of (objects sc) x)" for x
    by (cases "map_of (objects sc) x") (auto simp: create_link_def Let_def add_link_def numeral_2_eq_2)
  have "dict_ok (objects (create_link a b sc))"
    using assms(1) by (simp add: create_link_def Let_def add_link_def scene_ok_def)
  moreover have keys: "has_key (objects (create_link a b sc)) x = has_key (objects sc) x" for x
    by (simp add: create_link_def Let_def add_link_def)
  moreover have "links_of_ok (links (create_link a b sc)) x (v_links v)"
    if v: "map_of (objects (create_link a b sc)) x = Some v" for x v
  proof -
    obtain u where u: "map_of (objects sc) x = Some u" "v_links v = v_links u @ replicate (touches (Wired a b None) x) ?l"
      using v unfolding obj by auto
    then have "links_of_ok (links sc) x (v_links u)" using assms(1) by (simp add: scene_ok_def)
    then show ?thesis unfolding links u(2) by (rule links_of_ok_new)
  qed
  moreover have "drawn_ok (get_position_of sc) (Wired a b None)" by simp
  ultimately show ?thesis
    using assms by (auto simp: scene_ok_def links pos simp del: touches.simps)
qed

lemma new_wifi_link_ok:
  assumes "scene_ok sc" "has_key (objects sc) sta"
  shows "scene_ok (new_wifi_link sta sc)"
  using assms links_of_ok_new [of "links sc" _ _ "Wifi (Some sta) None None"]
  by (auto simp: scene_ok_def new_wifi_link_def)

lemma links_of_ok_update:
  assumes "links_of_ok ls r ids" "\<forall>i \<in> set ids'. i < length ls"
    "\<And>i. i \<noteq> l \<Longrightarrow> count_list ids' i = count_list ids i"
    "l < length ls \<Longrightarrow> \<not> destroyed k \<Longrightarrow> count_list ids' l = touches k r"
  shows "links_of_ok (ls[l := k]) r ids'"
proof -
  have "count_list ids' i = touches (ls[l := k] ! i) r" if "i < length ls" "\<not> destroyed (ls[l := k] ! i)" for i
    using assms that by (cases "i = l") (auto simp: links_of_ok_def)
  then show ?thesis using assms(2) by (simp add: links_of_ok_def)
qed

lemma destroy_link_ok:
  assumes "scene_ok sc" "l < length (links sc)"
  shows "scene_ok (destroy_link l sc)"
proof (cases "links sc ! l")
  case (Wifi sta ap line)
  let ?k = "Wifi None None line"
  have "links_of_ok ((links sc)[l := ?k]) r ids" if "links_of_ok (links sc) r ids" for r ids
    using that by (rule links_of_ok_update) (use that in \<open>auto simp: links_of_ok_def\<close>)
  then show ?thesis using assms
    by (auto simp: destroy_link_def Wifi scene_ok_def dest!: set_update_subset_insert [THEN subsetD])
qed (use assms in \<open>simp add: destroy_link_def\<close>)

text \<open>A station changes its access point: the link moves from one list to the other.\<close>

lemma count_list_remove1: "count_list (remove1 x xs) y = count_list xs y - (if x = y \<and> x \<in> set xs then 1 else 0)"
  by (induction xs) (auto simp: count_list_0_iff)

lemma remove_link_step:
  assumes "scene_ok sc" "l < length (links sc)" "links sc ! l = Wifi (Some sta) (Some r) line"
  shows "\<exists>sc'. remove_link r l sc = Inr sc' \<and> links sc' = links sc \<and> get_position_of sc' = get_position_of sc \<and>
     dict_ok (objects sc') \<and> (\<forall>x. has_key (objects sc') x = has_key (objects sc) x) \<and>
     (\<forall>x v. map_of (objects sc') x = Some v \<longrightarrow> links_of_ok ((links sc)[l := Wifi (Some sta) None line]) x (v_links v))"
proof -
  have "has_key (objects sc) r" using assms by (auto simp: scene_ok_nth dest!: spec [of _ l])
  then obtain v where v: "map_of (objects sc) r = Some v" by (auto simp: has_key_def)
  have ok: "links_of_ok (links sc) x (v_links u)" if "map_of (objects sc) x = Some u" for x u
    using assms(1) that by (simp add: scene_ok_def)
  have one: "count_list (v_links u) l = (if x = r then 1 else 0)" if "map_of (objects sc) x = Some u" for x u
    using ok [OF that] assms(2,3) by (auto simp: links_of_ok_def)
  have "l \<in> set (v_links v)" using one [OF v] by (metis count_list_0_iff zero_neq_one)
  have rem: "links_of_ok ((links sc)[l := Wifi (Some sta) None line]) x
      (if x = r then remove1 l (v_links u) else v_links u)"
    if u: "map_of (objects sc) x = Some u" for x u
    by (rule links_of_ok_update [OF ok [OF u]])
      (use ok [OF u] one [OF u] in \<open>auto simp: links_of_ok_def count_list_remove1 dest: notin_set_remove1\<close>)
  have "links_of_ok ((links sc)[l := Wifi (Some sta) None line]) r (remove1 l (v_links v))"
    using rem [OF v] by simp
  moreover have "links_of_ok ((links sc)[l := Wifi (Some sta) None line]) x (v_links u)"
    if "x \<noteq> r" "map_of (objects sc) x = Some u" for x u
    using rem [OF that(2)] that(1) by simp
  ultimately show ?thesis
    using \<open>l \<in> set (v_links v)\<close> v assms(1)
    by (auto simp: remove_link_def get_position_of_change scene_ok_def split: if_splits)
qed

definition line_of :: "(vref \<Rightarrow> point) \<Rightarrow> vref \<Rightarrow> vref option \<Rightarrow> (point \<times> point) option \<Rightarrow> (point \<times> point) option" where
  "line_of pos sta ap line = (case ap of None \<Rightarrow> line | Some b \<Rightarrow> Some (pos sta, pos b))"

lemma set_ap_step:
  assumes "scene_ok sc" "l < length (links sc)" "links sc ! l = Wifi (Some sta) old line"
    "\<And>r. ap = Some r \<Longrightarrow> has_key (objects sc) r"
  shows "\<exists>sc' line'. set_ap l ap sc = Inr sc' \<and> scene_ok sc' \<and>
     links sc' = (links sc)[l := Wifi (Some sta) ap line'] \<and> get_position_of sc' = get_position_of sc \<and>
     (\<forall>x. has_key (objects sc') x = has_key (objects sc) x)"
proof (cases "ap = old")
  case True
  have "(links sc)[l := Wifi (Some sta) old line] = links sc" by (metis assms(3) list_update_id)
  with True show ?thesis using assms by (intro exI [of _ sc] exI [of _ line]) (simp add: set_ap_def)
next
  case False
  let ?mid = "\<lambda>sc1. links sc1 = links sc \<and> get_position_of sc1 = get_position_of sc \<and> dict_ok (objects sc1) \<and>
     (\<forall>x. has_key (objects sc1) x = has_key (objects sc) x) \<and>
     (\<forall>x v. map_of (objects sc1) x = Some v \<longrightarrow> links_of_ok ((links sc)[l := Wifi (Some sta) None line]) x (v_links v))"
  obtain sc1 where sc1: "(case old of None \<Rightarrow> Inr sc | Some r \<Rightarrow> remove_link r l sc) = Inr sc1" "?mid sc1"
  proof (cases old)
    case None
    then have "(links sc)[l := Wifi (Some sta) None line] = links sc" by (metis assms(3) list_update_id)
    then show thesis using assms(1) None by (intro that [of sc]) (simp_all add: scene_ok_def)
  next
    case (Some r)
    then show thesis using remove_link_step [OF assms(1,2)] assms(3) that by auto
  qed
  let ?ls = "(links sc)[l := Wifi (Some sta) ap line]"
  have rest: "(\<forall>r \<in> link_ends k. has_key (objects sc) r) \<and> drawn_ok (get_position_of sc) k"
    if "k \<in> set ((links sc)[l := Wifi (Some sta) ap ln])" for k ln
  proof -
    have "has_key (objects sc) sta" using assms(1-3) by (auto simp: scene_ok_nth)
    then show ?thesis
      using that set_update_subset_insert [of "links sc" l] assms(1,4) by (fastforce simp: scene_ok_def)
  qed
  show ?thesis
  proof (cases ap)
    case None
    then show ?thesis using sc1 False assms(3) rest
      by (intro exI [of _ "sc1\<lparr>links := ?ls\<rparr>"] exI [of _ line]) (auto simp: set_ap_def Let_def scene_ok_def)
  next
    case (Some b)
    let ?new = "\<lambda>line'. Wifi (Some sta) (Some b) line'"
    let ?line' = "Some (get_position_of sc sta, get_position_of sc b)"
    define sc2 where sc2: "sc2 = update_points l (add_link b l (sc1\<lparr>links := ?ls\<rparr>))"
    have pos: "get_position_of sc2 = get_position_of sc"
      using sc1(2) by (simp add: sc2 add_link_def get_position_of_change)
    have len: "length (links sc1) = length (links sc)" using sc1(2) by simp
    have links: "links sc2 = (links sc)[l := ?new ?line']"
      using assms(2) sc1(2) by (simp add: sc2 update_points_redraw Some add_link_def get_position_of_change)
    have "links_of_ok (links sc2) x (v_links v)" if v: "map_of (objects sc2) x = Some v" for x v
    proof -
      obtain u where u: "map_of (objects sc1) x = Some u" "v_links v = v_links u @ (if x = b then [l] else [])"
        using v by (auto simp: sc2 add_link_def split: if_splits)
      have ok: "links_of_ok ((links sc)[l := Wifi (Some sta) None line]) x (v_links u)" using sc1(2) u(1) by blast
      then have "count_list (v_links u) l = 0" using assms(2) by (auto simp: links_of_ok_def)
      then have "links_of_ok ((links sc)[l := Wifi (Some sta) None line, l := ?new ?line']) x (v_links v)"
        using ok assms(2) unfolding u(2)
        by (intro links_of_ok_update [OF ok]) (auto simp: links_of_ok_def count_list_append)
      then show ?thesis by (simp add: links)
    qed
    moreover have "has_key (objects sc2) x = has_key (objects sc) x" for x
      using sc1(2) by (simp add: sc2 add_link_def)
    moreover have "dict_ok (objects sc2)" using sc1(2) by (simp add: sc2 add_link_def)
    ultimately have "scene_ok sc2" using rest [of _ ?line'] by (simp add: scene_ok_def links pos Some)
    have keys: "\<forall>x. has_key (objects sc2) x = has_key (objects sc) x" using sc1(2) by (simp add: sc2 add_link_def)
    have "set_ap l ap sc = Inr sc2"
      using sc1(1) False assms(3) sc1(2) by (simp add: sc2 set_ap_def Some Let_def)
    then show ?thesis using links pos keys \<open>scene_ok sc2\<close> unfolding Some by blast
  qed
qed

section \<open>The scan of the topology\<close>

fun wired_pair :: "vlink \<Rightarrow> (vref \<times> vref) list" where
  "wired_pair (Wired a b _) = [(a, b)]"
| "wired_pair _ = []"

definition wired :: "scene \<Rightarrow> (vref \<times> vref) list" where
  "wired sc = concat (map wired_pair (links sc))"

definition device_ends :: "network \<Rightarrow> int \<Rightarrow> net_device \<Rightarrow> vref list" where
  "device_ends net i d =
     (if is_wireless (dev_traits d) = Some True \<or> is_virtual (dev_traits d) then []
      else if 2 < length (channel_nodes net (dev_channel d)) then [ChannelRef (dev_channel d)]
      else map NodeRef (filter (\<lambda>j. j \<noteq> i) (channel_nodes net (dev_channel d))))"

definition node_pairs :: "network \<Rightarrow> int \<Rightarrow> (vref \<times> vref) list" where
  "node_pairs net i =
     concat (map (\<lambda>d. map (Pair (NodeRef i)) (device_ends net i d)) (devices (net_nodes net ! nat i)))"

definition scan_ok :: "network \<Rightarrow> int set \<Rightarrow> layout_graph \<times> scene \<Rightarrow> bool" where
  "scan_ok net placed s \<longleftrightarrow> scene_ok (snd s) \<and>
     (\<forall>v \<in> set (vertices (fst s)). has_key (objects (snd s)) v \<and> (\<forall>j. v = NodeRef j \<longrightarrow> \<not> has_mobility net j)) \<and>
     (\<forall>i \<in> placed. has_key (objects (snd s)) (NodeRef i) \<and>
        (\<forall>p. mobility (net_nodes net ! nat i) = Some p \<longrightarrow>
           get_position_of (snd s) (NodeRef i) = transform_point_simulation_to_canvas p))"

lemma vertices_add [simp]:
  "set (vertices (add_vertex v g)) = insert v (set (vertices g))"
  "set (vertices (add_edge a b g)) = insert a (insert b (set (vertices g)))"
  by (auto simp: add_vertex_def add_edge_def Let_def)

lemma wired_pair_redraw [simp]: "wired_pair (redraw pos l) = wired_pair l"
  by (induction pos l rule: redraw.induct) simp_all

lemma wired_update_points [simp]: "wired (update_points l sc) = wired sc"
proof -
  have "map wired_pair ((links sc)[l := redraw (get_position_of sc) (links sc ! l)]) = map wired_pair (links sc)"
    by (cases "l < length (links sc)") (simp_all add: map_update list_update_same_conv list_update_beyond)
  then show ?thesis by (simp add: wired_def update_points_redraw)
qed

lemma wired_fold_update_points [simp]: "wired (fold update_points ls sc) = wired sc"
  by (induction ls arbitrary: sc) simp_all

lemma wired_change_object [simp]: "wired (change_object r f sc) = wired sc"
  by (simp add: wired_def)

lemma set_position_cases:
  "set_position r p sc =
     (case map_of (objects sc) r of
        None \<Rightarrow> sc
      | Some v \<Rightarrow> fold update_points (v_links v) (change_object r (v_pos_update (\<lambda>_. p)) sc))"
  by (simp add: set_position_def Let_def change_object_def [of r _ sc] dict_simps split: option.splits)

lemma set_position_simps [simp]:
  "wired (set_position r p sc) = wired sc"
  "has_key (objects (set_position r p sc)) x = has_key (objects sc) x"
  "get_position_of (set_position r p sc) x = (if x = r \<and> has_key (objects sc) r then p else get_position_of sc x)"
  by (simp_all add: set_position_cases split: option.splits)
    (auto simp: get_position_of_def has_key_def split: option.splits)

lemma create_link_simps [simp]:
  "wired (create_link a b sc) = wired sc @ [(a, b)]"
  "has_key (objects (create_link a b sc)) x = has_key (objects sc) x"
  "get_position_of (create_link a b sc) = get_position_of sc"
  by (simp_all add: create_link_def Let_def add_link_def wired_def get_position_of_change)

lemma wired_get_object [simp]: "wired (get_object r sc) = wired sc"
  by (simp add: wired_def)

lemma link_to_channel_ok:
  assumes "scan_ok net placed s" "has_key (objects (snd s)) (NodeRef i)"
  shows "scan_ok net placed (link_to_channel net i c s) \<and>
     has_key (objects (snd (link_to_channel net i c s))) (NodeRef i) \<and>
     wired (snd (link_to_channel net i c s)) = wired (snd s) @ [(NodeRef i, ChannelRef c)]"
  using assms create_link_ok [OF get_object_ok [of "snd s" "ChannelRef c"], of "NodeRef i" "ChannelRef c"]
  by (auto simp: scan_ok_def link_to_channel_def get_channel_def split_beta)

lemma link_to_node_ok:
  assumes "scan_ok net placed s" "has_key (objects (snd s)) (NodeRef i)"
  shows "scan_ok net placed (link_to_node net i j s) \<and>
     has_key (objects (snd (link_to_node net i j s))) (NodeRef i) \<and>
     wired (snd (link_to_node net i j s)) = wired (snd s) @ (if j = i then [] else [(NodeRef i, NodeRef j)])"
  using assms create_link_ok [OF get_object_ok [of "snd s" "NodeRef j"], of "NodeRef i" "NodeRef j"] get_object_ok
  by (auto simp: scan_ok_def link_to_node_def get_node_def split_beta Let_def)

lemma links_to_nodes_ok:
  assumes "scan_ok net placed s" "has_key (objects (snd s)) (NodeRef i)"
  shows "scan_ok net placed (fold (link_to_node net i) js s) \<and>
     has_key (objects (snd (fold (link_to_node net i) js s))) (NodeRef i) \<and>
     wired (snd (fold (link_to_node net i) js s)) =
       wired (snd s) @ map (Pair (NodeRef i)) (map NodeRef (filter (\<lambda>j. j \<noteq> i) js))"
  using assms
proof (induction js arbitrary: s)
  case (Cons j js)
  note step = link_to_node_ok [OF Cons.prems, of j]
  from Cons.IH [of "link_to_node net i j s"] step show ?case by auto
qed simp

lemma scan_net_device_ok:
  assumes "scan_ok net placed s" "has_key (objects (snd s)) (NodeRef i)"
  shows "scan_ok net placed (scan_net_device net i d s) \<and>
     has_key (objects (snd (scan_net_device net i d s))) (NodeRef i) \<and>
     wired (snd (scan_net_device net i d s)) = wired (snd s) @ map (Pair (NodeRef i)) (device_ends net i d)"
  using assms link_to_channel_ok [OF assms, of "dev_channel d"] links_to_nodes_ok [OF assms]
  by (simp add: scan_net_device_def device_ends_def REPRESENT_CHANNELS_AS_NODES_def)

lemma scan_net_devices_ok:
  assumes "scan_ok net placed s" "has_key (objects (snd s)) (NodeRef i)"
  shows "scan_ok net placed (fold (scan_net_device net i) ds s) \<and>
     wired (snd (fold (scan_net_device net i) ds s)) =
       wired (snd s) @ concat (map (\<lambda>d. map (Pair (NodeRef i)) (device_ends net i d)) ds)"
  using assms
proof (induction ds arbitrary: s)
  case (Cons d ds)
  note step = scan_net_device_ok [OF Cons.prems, of d]
  from Cons.IH [of "scan_net_device net i d s"] step show ?case by simp
qed simp

lemma scan_node_ok:
  assumes "scan_ok net placed s"
  shows "scan_ok net (insert i placed) (scan_node net i s) \<and>
     wired (snd (scan_node net i s)) = wired (snd s) @ node_pairs net i"
proof -
  obtain g sc where s: "s = (g, sc)" by force
  let ?s = "case mobility (net_nodes net ! nat i) of
      Some p \<Rightarrow> (g, set_position (NodeRef i) (transform_point_simulation_to_canvas p) (get_node i sc))
    | None \<Rightarrow> (add_vertex (NodeRef i) g, get_node i sc)"
  have "scan_ok net (insert i placed) ?s \<and> has_key (objects (snd ?s)) (NodeRef i) \<and> wired (snd ?s) = wired sc"
    using assms get_object_ok [of sc "NodeRef i"] set_position_ok
    by (cases "mobility (net_nodes net ! nat i)") (auto simp: s scan_ok_def get_node_def has_mobility_def)
  with scan_net_devices_ok [of net "insert i placed" ?s i "devices (net_nodes net ! nat i)"]
  show ?thesis by (simp add: s scan_node_def node_pairs_def Let_def)
qed

lemma scan_nodes_all_ok:
  "scan_ok net placed s \<Longrightarrow> scan_ok net (placed \<union> set is) (fold (scan_node net) is s) \<and>
     wired (snd (fold (scan_node net) is s)) = wired (snd s) @ concat (map (node_pairs net) is)"
proof (induction "is" arbitrary: placed s)
  case (Cons i "is")
  note step = scan_node_ok [OF Cons.prems, of i]
  from Cons.IH [OF conjunct1 [OF step]] step show ?case by simp
qed simp

lemma new_scene_simps [simp]:
  "objects (new_scene n) = []" "links (new_scene n) = []" "selected_node (new_scene n) = None"
  by (simp_all add: new_scene_def set_show_transmissions_mode_def)

lemma new_scene_ok: "scene_ok (new_scene n)"
  by (simp add: scene_ok_def)

lemma place_vertices:
  assumes "scene_ok sc" "\<forall>x \<in> set xs. has_key (objects sc) (fst x)"
  shows "\<exists>sc'. run_steps place_vertex sc xs = Inr sc' \<and> scene_ok sc' \<and> wired sc' = wired sc \<and>
     (\<forall>r. has_key (objects sc') r = has_key (objects sc) r) \<and>
     (\<forall>r. r \<notin> fst ` set xs \<longrightarrow> get_position_of sc' r = get_position_of sc r)"
  using assms
proof (induction xs arbitrary: sc)
  case (Cons x xs)
  let ?sc = "set_position (fst x) (snd x) sc"
  obtain sc' where "run_steps place_vertex ?sc xs = Inr sc'" "scene_ok sc'" "wired sc' = wired ?sc"
      "\<forall>r. has_key (objects sc') r = has_key (objects ?sc) r"
      "\<forall>r. r \<notin> fst ` set xs \<longrightarrow> get_position_of sc' r = get_position_of ?sc r"
    using Cons.IH [OF set_position_ok [OF Cons.prems(1)], of "fst x" "snd x"] Cons.prems(2) by auto
  moreover have "place_vertex sc x = Inr ?sc" using Cons.prems(2) by (simp add: place_vertex_def)
  ultimately show ?case by (intro exI [of _ sc']) auto
qed simp

text \<open>What the monitor assumes of its stations and access points.\<close>

definition is_wifi :: "scene \<Rightarrow> nat \<Rightarrow> bool" where
  "is_wifi sc l \<longleftrightarrow> l < length (links sc) \<and> (\<exists>sta ap line. links sc ! l = Wifi (Some sta) ap line)"

definition monitor_ok :: "monitor \<Rightarrow> scene \<Rightarrow> bool" where
  "monitor_ok mon sc \<longleftrightarrow> (\<forall>(dev, l) \<in> set (stations mon). is_wifi sc l) \<and>
     distinct (map snd (stations mon)) \<and> (\<forall>r \<in> snd ` set (access_points mon). has_key (objects sc) r)"

definition associated :: "station_state \<Rightarrow> nat \<Rightarrow> bool" where
  "associated st dev \<longleftrightarrow> fst (st dev) \<and> snd (st dev) \<noteq> ''00:00:00:00:00:00''"

definition station_ap :: "(string, vref) dict \<Rightarrow> station_state \<Rightarrow> nat \<Rightarrow> vref option" where
  "station_ap aps st dev = (if associated st dev then map_of aps (snd (st dev)) else None)"

lemma update_station_cases:
  "update_station aps st sc (dev, l) =
     (if associated st dev \<and> map_of aps (snd (st dev)) = None then Inl KeyError
      else set_ap l (station_ap aps st dev) sc)"
  by (auto simp: update_station_def associated_def station_ap_def dict_get_def split: option.splits)

text \<open>How an update of stations ends: with the expected access points, or with an address that is not known.\<close>

definition stations_updated ::
  "(string, vref) dict \<Rightarrow> station_state \<Rightarrow> (nat \<times> nat) list \<Rightarrow> scene \<Rightarrow> scene py \<Rightarrow> bool" where
  "stations_updated aps st ss sc result \<longleftrightarrow>
     (case result of
        Inr sc' \<Rightarrow> scene_ok sc' \<and> length (links sc') = length (links sc) \<and>
          (\<forall>r. has_key (objects sc') r = has_key (objects sc) r) \<and>
          (\<forall>(dev, l) \<in> set ss. \<exists>sta line. links sc' ! l = Wifi (Some sta) (station_ap aps st dev) line) \<and>
          (\<forall>l. l \<notin> snd ` set ss \<longrightarrow> links sc' ! l = links sc ! l)
      | Inl e \<Rightarrow> e = KeyError \<and> (\<exists>(dev, l) \<in> set ss. associated st dev \<and> map_of aps (snd (st dev)) = None))"

lemma update_stations:
  assumes "scene_ok sc" "\<forall>(dev, l) \<in> set ss. is_wifi sc l" "distinct (map snd ss)"
    "\<forall>r \<in> snd ` set aps. has_key (objects sc) r"
  shows "stations_updated aps st ss sc (run_steps (update_station aps st) sc ss)"
  using assms
proof (induction ss arbitrary: sc)
  case (Cons s ss)
  obtain dev l where s: "s = (dev, l)" by force
  show ?case
  proof (cases "associated st dev \<and> map_of aps (snd (st dev)) = None")
    case True
    then show ?thesis by (simp add: s update_station_cases stations_updated_def)
  next
    case False
    obtain sta old line where l: "l < length (links sc)" "links sc ! l = Wifi (Some sta) old line"
      using Cons.prems(2) by (auto simp: s is_wifi_def)
    have "has_key (objects sc) r" if "station_ap aps st dev = Some r" for r
      using that Cons.prems(4) by (fastforce simp: station_ap_def split: if_splits dest: map_of_SomeD)
    from set_ap_step [OF Cons.prems(1) l this] obtain sc1 line' where
      sc1: "set_ap l (station_ap aps st dev) sc = Inr sc1" "scene_ok sc1"
        "links sc1 = (links sc)[l := Wifi (Some sta) (station_ap aps st dev) line']"
        "\<forall>x. has_key (objects sc1) x = has_key (objects sc) x"
      by blast
    have step: "run_steps (update_station aps st) sc (s # ss) = run_steps (update_station aps st) sc1 ss"
      using False sc1(1) by (auto simp: s update_station_cases)
    have new: "l \<notin> snd ` set ss" using Cons.prems(3) by (simp add: s)
    have "\<forall>(dev, l) \<in> set ss. is_wifi sc1 l"
    proof (clarify)
      fix dev' l'
      assume "(dev', l') \<in> set ss"
      with new Cons.prems(2) show "is_wifi sc1 l'"
        by (cases "l' = l") (force simp: is_wifi_def sc1(3))+
    qed
    from Cons.IH [OF sc1(2) this] Cons.prems(3,4) sc1(4)
    have "stations_updated aps st ss sc1 (run_steps (update_station aps st) sc1 ss)" by simp
    then show ?thesis unfolding step
      using new l(1) by (cases "run_steps (update_station aps st) sc1 ss") (auto simp: stations_updated_def s sc1(3,4))
  qed
qed (simp add: stations_updated_def)

lemma monitor_update:
  assumes "scene_ok sc" "monitor_ok mon sc"
  shows "stations_updated (access_points mon) st (stations mon) sc (monitor_periodic_update mon st sc)"
  using assms unfolding monitor_periodic_update_def by (intro update_stations) (auto simp: monitor_ok_def)

lemma monitor_update_keeps:
  assumes "scene_ok sc" "monitor_ok mon sc" "monitor_periodic_update mon st sc = Inr sc'"
  shows "scene_ok sc' \<and> monitor_ok mon sc'"
  using monitor_update [OF assms(1,2), of st] assms(2,3)
  by (fastforce simp: stations_updated_def monitor_ok_def is_wifi_def)

interpretation monitoring: guarded_run "\<lambda>sc st. monitor_periodic_update mon st sc"
  "\<lambda>sc. scene_ok sc \<and> monitor_ok mon sc" "\<lambda>e. e = KeyError" for mon
proof
  show "scene_ok sc' \<and> monitor_ok mon sc'"
    if "scene_ok sc \<and> monitor_ok mon sc" "monitor_periodic_update mon st sc = Inr sc'" for sc st sc'
    using that monitor_update_keeps by blast
  show "e = KeyError"
    if "scene_ok sc \<and> monitor_ok mon sc" "monitor_periodic_update mon st sc = Inl e" for sc st e
    using that monitor_update [of sc mon st] by (simp add: stations_updated_def)
qed

text \<open>The scan of the nodes sets the monitor up.\<close>

lemma destroy_links_ok:
  "scene_ok sc \<Longrightarrow> \<forall>l \<in> set ls. l < length (links sc) \<Longrightarrow> scene_ok (fold destroy_link ls sc) \<and>
     objects (fold destroy_link ls sc) = objects sc"
proof (induction ls arbitrary: sc)
  case (Cons l ls)
  have "length (links (destroy_link l sc)) = length (links sc)" "objects (destroy_link l sc) = objects sc"
    by (simp_all add: destroy_link_def split: vlink.splits)
  with Cons destroy_link_ok [of sc l] show ?case by simp
qed simp

lemma scan_device_ok:
  assumes "monitor_ok (fst s) (snd s)" "scene_ok (snd s)" "has_key (objects (snd s)) (NodeRef i)"
  shows "monitor_ok (fst (scan_device i d s)) (snd (scan_device i d s)) \<and> scene_ok (snd (scan_device i d s)) \<and>
     objects (snd (scan_device i d s)) = objects (snd s)"
proof (cases d)
  case (Station dev)
  have "length (links (snd s)) \<notin> snd ` set (stations (fst s))"
    using assms(1) by (fastforce simp: monitor_ok_def is_wifi_def)
  then show ?thesis using assms new_wifi_link_ok [OF assms(2,3)]
    by (fastforce simp: scan_device_def Station split_beta monitor_ok_def is_wifi_def new_wifi_link_def nth_append)
next
  case (AccessPoint bssid)
  have "snd ` set (AList.update bssid (NodeRef i) aps) \<subseteq> insert (NodeRef i) (snd ` set aps)" for aps :: "(string, vref) dict"
    using set_update_subset by fastforce
  then show ?thesis using assms
    by (fastforce simp: scan_device_def AccessPoint split_beta monitor_ok_def)
qed (use assms in \<open>simp add: scan_device_def split_beta\<close>)

lemma scan_devices_ok:
  assumes "monitor_ok (fst s) (snd s)" "scene_ok (snd s)" "has_key (objects (snd s)) (NodeRef i)"
  shows "monitor_ok (fst (fold (scan_device i) ds s)) (snd (fold (scan_device i) ds s)) \<and>
     scene_ok (snd (fold (scan_device i) ds s)) \<and> objects (snd (fold (scan_device i) ds s)) = objects (snd s)"
  using assms
proof (induction ds arbitrary: s)
  case (Cons d ds)
  note step = scan_device_ok [OF Cons.prems, of d]
  from Cons.IH [of "scan_device i d s"] step Cons.prems(3) show ?case by simp
qed simp

lemma scan_all_devices_ok:
  assumes "monitor_ok (fst s) (snd s)" "scene_ok (snd s)" "\<forall>i \<in> set is. has_key (objects (snd s)) (NodeRef i)"
  shows "monitor_ok (fst (fold (\<lambda>i. fold (scan_device i) (devs i)) is s)) (snd (fold (\<lambda>i. fold (scan_device i) (devs i)) is s)) \<and>
     scene_ok (snd (fold (\<lambda>i. fold (scan_device i) (devs i)) is s))"
  using assms
proof (induction "is" arbitrary: s)
  case (Cons i "is")
  have "has_key (objects (snd s)) (NodeRef i)" using Cons.prems(3) by simp
  note step = scan_devices_ok [OF Cons.prems(1,2) this, of "devs i"]
  from Cons.IH [of "fold (scan_device i) (devs i) s"] step Cons.prems(3) show ?case by simp
qed simp

lemma scan_nodes_ok:
  assumes "scene_ok sc" "\<forall>l \<in> snd ` set (stations mon0). l < length (links sc)"
    "\<forall>i \<in> set nodes. has_key (objects sc) (NodeRef i)" "scan_nodes devs nodes mon0 sc = (mon, sc')"
  shows "monitor_ok mon sc' \<and> scene_ok sc'"
proof -
  let ?sc = "fold destroy_link (map snd (stations mon0)) sc"
  have d: "scene_ok ?sc" "objects ?sc = objects sc"
    using destroy_links_ok [OF assms(1), of "map snd (stations mon0)"] assms(2) by simp_all
  have "monitor_ok \<lparr>access_points = [], stations = []\<rparr> ?sc" by (simp add: monitor_ok_def)
  with scan_all_devices_ok [of "(\<lparr>access_points = [], stations = []\<rparr>, ?sc)" nodes devs] d assms(3,4)
  show ?thesis by (simp add: scan_nodes_def Let_def)
qed

section \<open>The selection\<close>

datatype view_op = Select node_arg | ShowMode show_mode | GetObject vref | MoveObject vref point | LinkObjects vref vref

fun apply_op :: "nat \<Rightarrow> scene \<Rightarrow> view_op \<Rightarrow> scene py" where
  "apply_op n sc (Select a) = select_node a sc"
| "apply_op n sc (ShowMode m) = Inr (set_show_transmissions_mode n m sc)"
| "apply_op n sc (GetObject r) = Inr (get_object r sc)"
| "apply_op n sc (MoveObject r p) = Inr (set_position r p sc)"
| "apply_op n sc (LinkObjects a b) = Inr (create_link a b sc)"

text \<open>A node of the view that is given to \<open>select_node\<close> is one of the scene.\<close>

definition selection_ok :: "nat \<Rightarrow> int set \<Rightarrow> scene \<Rightarrow> bool" where
  "selection_ok n nodes sc \<longleftrightarrow>
     (\<forall>r v. map_of (objects sc) r = Some v \<longrightarrow> v_selected v = (\<exists>i. r = NodeRef i \<and> selected_node sc = Some i)) \<and>
     (\<forall>i. selected_node sc = Some i \<longrightarrow> has_key (objects sc) (NodeRef i)) \<and>
     (\<forall>i \<in> nodes. has_key (objects sc) (NodeRef i)) \<and>
     interest sc = (case mode sc of ShowAll \<Rightarrow> map int [0..<n] | ShowNone \<Rightarrow> [] | ShowSelected \<Rightarrow> selected_list (selected_node sc))"

fun known_arg :: "int set \<Rightarrow> view_op \<Rightarrow> bool" where
  "known_arg nodes (Select (VizNode i)) = (i \<in> nodes)"
| "known_arg nodes _ = True"

lemma resolve_node_Inr:
  assumes "resolve_node sc a = Inr n" "known_arg nodes (Select a)" "\<forall>i \<in> nodes. has_key (objects sc) (NodeRef i)"
  shows "n = Some i \<Longrightarrow> has_key (objects sc) (NodeRef i)"
  using assms by (cases a) (auto simp: resolve_node_def dict_get_def has_key_def split: option.splits)

lemma select_node_keeps:
  assumes "selection_ok n nodes sc" "known_arg nodes (Select a)" "select_node a sc = Inr sc'"
  shows "selection_ok n nodes sc'"
proof -
  obtain m where m: "resolve_node sc a = Inr m" using assms(3) by (auto simp: select_node_def)
  have new: "has_key (objects sc) (NodeRef i)" if "m = Some i" for i
    using resolve_node_Inr [OF m assms(2)] assms(1) that by (simp add: selection_ok_def)
  show ?thesis
  proof (cases "m = selected_node sc")
    case True
    then show ?thesis using assms(1,3) by (simp add: select_node_def m)
  next
    case False
    let ?off = "set_selected False (selected_node sc) sc"
    let ?on = "set_selected True m (?off\<lparr>selected_node := m\<rparr>)"
    have sc': "objects sc' = objects ?on" "selected_node sc' = m" "mode sc' = mode sc"
        "interest sc' = (if mode sc = ShowSelected then selected_list m else interest sc)"
      using assms(3) False by (auto simp: select_node_def m Let_def set_selected_def split: option.splits if_splits)
    have off: "map_of (objects ?off) r = map_option (v_selected_update (\<lambda>_. False)) (map_of (objects sc) r)" for r
      using assms(1)
      by (cases "selected_node sc"; cases "map_of (objects sc) r") (auto simp: set_selected_def selection_ok_def)
    have "map_of (objects ?on) r =
        map_option (v_selected_update (\<lambda>_. \<exists>i. r = NodeRef i \<and> m = Some i)) (map_of (objects sc) r)" for r
      using off [of r] by (cases m; cases "map_of (objects sc) r") (auto simp: set_selected_def)
    then show ?thesis using assms(1) new
      by (auto simp: selection_ok_def sc' has_key_def split: show_mode.splits)
  qed
qed

lemma set_position_selection:
  "map_of (objects (set_position r p sc)) x =
     (if x = r then map_option (v_pos_update (\<lambda>_. p)) (map_of (objects sc) r) else map_of (objects sc) x)"
  "selected_node (set_position r p sc) = selected_node sc" "mode (set_position r p sc) = mode sc"
  "interest (set_position r p sc) = interest sc"
  by (auto simp: set_position_cases split: option.splits)

lemma create_link_selection:
  "map_of (objects (create_link a b sc)) x = Some v \<Longrightarrow>
     \<exists>u. map_of (objects sc) x = Some u \<and> v_selected v = v_selected u"
  "selected_node (create_link a b sc) = selected_node sc" "mode (create_link a b sc) = mode sc"
  "interest (create_link a b sc) = interest sc"
  by (auto simp: create_link_def Let_def add_link_def split: if_splits)

lemma get_object_selection [simp]:
  "mode (get_object r sc) = mode sc" "interest (get_object r sc) = interest sc"
  by (simp_all add: get_object_def)

lemma apply_op_keeps:
  assumes "selection_ok n nodes sc" "known_arg nodes op" "apply_op n sc op = Inr sc'"
  shows "selection_ok n nodes sc'"
proof (cases op)
  case (Select a)
  then show ?thesis using select_node_keeps assms by simp
next
  case (ShowMode m)
  then have sc': "sc' = set_show_transmissions_mode n m sc" using assms(3) by simp
  show ?thesis using assms(1) unfolding sc'
    by (auto simp: selection_ok_def set_show_transmissions_mode_def split: show_mode.splits)
next
  case (GetObject r)
  then have "sc' = get_object r sc" using assms(3) by simp
  then show ?thesis using assms(1)
    by (auto simp: selection_ok_def map_of_get_object has_key_def split: if_splits show_mode.splits)
next
  case (MoveObject r p)
  then have "sc' = set_position r p sc" using assms(3) by simp
  then show ?thesis using assms(1)
    by (auto simp: selection_ok_def set_position_selection split: if_splits show_mode.splits)
next
  case (LinkObjects a b)
  then have sc': "sc' = create_link a b sc" using assms(3) by simp
  show ?thesis using assms(1) unfolding sc' selection_ok_def create_link_selection(2-) create_link_simps(2)
    by (metis create_link_selection(1))
qed

text \<open>The operations of the view as a machine, with the nodes that the arguments may name.\<close>

interpretation selection: guarded_run
  "\<lambda>sc op. if known_arg nodes op then apply_op n sc op else Inl TypeError"
  "selection_ok n nodes" "\<lambda>e. e = KeyError \<or> e = TypeError" for n nodes
proof
  show "selection_ok n nodes s'"
    if "selection_ok n nodes s" "(if known_arg nodes op then apply_op n s op else Inl TypeError) = Inr s'" for s op s'
    using that apply_op_keeps by (auto split: if_splits)
  show "e = KeyError \<or> e = TypeError"
    if "(if known_arg nodes op then apply_op n s op else Inl TypeError) = Inl e" for s op e
    using that
    by (cases "(n, s, op)" rule: apply_op.cases)
      (auto simp: select_node_def py_bind_eq_Inl resolve_node_def dict_get_def Let_def
        split: if_splits node_arg.splits option.splits)
qed

section \<open>Properties\<close>

text \<open>
  C14: the scan of a topology. When the layout places only vertices of its graph, the scan succeeds; it gives a
  consistent scene, in which every object lists each of its links as often as the link ends at it and every
  line is drawn between the present positions of its ends; the links are, in order, those
  from each node to the channel of a device shared by more than two devices, or to the other nodes
  of its channel; every node is there, and one with mobility stands at its position.
\<close>

theorem scan_topology_links:
  assumes "\<And>g. fst ` set (layout g) \<subseteq> set (vertices g)"
  shows "\<exists>sc. scan_topology layout net (new_scene n) = Inr sc \<and> scene_ok sc \<and>
     wired sc = concat (map (node_pairs net) (map int [0..<length (net_nodes net)])) \<and>
     (\<forall>i < length (net_nodes net). has_key (objects sc) (NodeRef (int i)) \<and>
        (\<forall>p. mobility (net_nodes net ! i) = Some p \<longrightarrow>
           get_position_of sc (NodeRef (int i)) = transform_point_simulation_to_canvas p))"
proof -
  let ?is = "map int [0..<length (net_nodes net)]"
  obtain g sc where s: "fold (scan_node net) ?is (\<lparr>vertices = [], edges = []\<rparr>, new_scene n) = (g, sc)" by force
  have "scan_ok net {} (\<lparr>vertices = [], edges = []\<rparr>, new_scene n)" by (simp add: scan_ok_def new_scene_ok)
  note all = scan_nodes_all_ok [OF this, of ?is, unfolded s]
  have ok: "scan_ok net (set ?is) (g, sc)" using conjunct1 [OF all] by (simp only: Un_empty_left)
  have w: "wired sc = concat (map (node_pairs net) ?is)" using conjunct2 [OF all] by (simp add: wired_def)
  have v: "has_key (objects sc) v" "v = NodeRef j \<Longrightarrow> \<not> has_mobility net j" if "v \<in> fst ` set (layout g)" for v j
    using ok assms [of g] that by (auto simp: scan_ok_def)
  have keys: "\<forall>x \<in> set (layout g). has_key (objects sc) (fst x)" using v(1) by simp
  have still: "NodeRef (int i) \<notin> fst ` set (layout g)" if "mobility (net_nodes net ! i) = Some p" for i p
    using v(2) [of _ "int i"] that by (auto simp: has_mobility_def)
  have "scene_ok sc" using ok by (simp add: scan_ok_def)
  from place_vertices [OF this keys] obtain sc' where sc': "run_steps place_vertex sc (layout g) = Inr sc'" "scene_ok sc'"
      "wired sc' = wired sc" "\<forall>r. has_key (objects sc') r = has_key (objects sc) r"
      "\<forall>r. r \<notin> fst ` set (layout g) \<longrightarrow> get_position_of sc' r = get_position_of sc r"
    by blast
  have "has_key (objects sc') (NodeRef (int i)) \<and>
      (\<forall>p. mobility (net_nodes net ! i) = Some p \<longrightarrow>
         get_position_of sc' (NodeRef (int i)) = transform_point_simulation_to_canvas p)"
    if "i < length (net_nodes net)" for i
    using ok sc'(4,5) still that by (fastforce simp: scan_ok_def)
  with sc' w show ?thesis unfolding scan_topology_def s by simp
qed

text \<open>
  C22: the links of the stations. After the nodes have been scanned, a periodic update either gives every
  station the link to the access point with the address it is associated with, and no link when it is not
  associated, in a consistent scene; or a station is associated with an address that no node has, and
  the update raises \<open>KeyError\<close>. Taking a link from the list of an access point never fails.
\<close>

theorem wifi_links_follow:
  assumes "scene_ok sc0" and "\<forall>i \<in> set nodes. has_key (objects sc0) (NodeRef i)"
    and "scan_nodes devs nodes \<lparr>access_points = [], stations = []\<rparr> sc0 = (mon, sc1)"
    and "run_steps (\<lambda>sc st. monitor_periodic_update mon st sc) sc1 earlier = Inr sc"
  shows "case monitor_periodic_update mon st sc of
      Inr sc' \<Rightarrow> scene_ok sc' \<and> (\<forall>(dev, l) \<in> set (stations mon). \<exists>sta line.
        links sc' ! l = Wifi (Some sta) (station_ap (access_points mon) st dev) line)
    | Inl e \<Rightarrow> e = KeyError \<and> (\<exists>(dev, l) \<in> set (stations mon). associated st dev \<and>
        map_of (access_points mon) (snd (st dev)) = None)"
proof -
  have "monitor_ok mon sc1 \<and> scene_ok sc1" by (rule scan_nodes_ok [OF assms(1) _ assms(2,3)]) simp
  then have ok: "scene_ok sc" "monitor_ok mon sc" using monitoring.run_inv [OF _ assms(4)] by blast+
  show ?thesis using monitor_update [OF ok, of st] by (auto simp: stations_updated_def split: sum.splits)
qed

text \<open>
  C23: the selection. Whatever nodes are created, moved and linked and whatever is selected, as long as no
  operation raises, exactly the selected node is marked, it is a node of the scene, and the simulator
  reports the transmissions of all nodes, of none, or of the selected node alone, as the mode says.
\<close>

theorem selection_consistent:
  assumes "\<forall>i \<in> nodes. has_key (objects sc) (NodeRef i)" and "selection_ok n {} sc"
    and "\<forall>op \<in> set ops. known_arg nodes op" and "run_steps (apply_op n) sc ops = Inr sc'"
  shows "(\<forall>r v. map_of (objects sc') r = Some v \<longrightarrow> v_selected v = (\<exists>i. r = NodeRef i \<and> selected_node sc' = Some i)) \<and>
     (\<forall>i. selected_node sc' = Some i \<longrightarrow> has_key (objects sc') (NodeRef i)) \<and>
     interest sc' = (case mode sc' of
         ShowAll \<Rightarrow> map int [0..<n] | ShowNone \<Rightarrow> [] | ShowSelected \<Rightarrow> selected_list (selected_node sc'))"
proof -
  have "run_steps (\<lambda>sc op. if known_arg nodes op then apply_op n sc op else Inl TypeError) sc ops = run_steps (apply_op n) sc ops"
    using assms(3) by (induction ops arbitrary: sc) (simp_all cong: sum.case_cong add: py_bind_def)
  then have "run_steps (\<lambda>sc op. if known_arg nodes op then apply_op n sc op else Inl TypeError) sc ops = Inr sc'"
    using assms(4) by simp
  moreover have "selection_ok n nodes sc" using assms(1,2) by (simp add: selection_ok_def)
  ultimately have "selection_ok n nodes sc'" by (rule selection.run_inv [rotated])
  then show ?thesis by (simp add: selection_ok_def)
qed

text \<open>Two nodes on a point-to-point channel, the first with mobility.\<close>

definition demo_network :: network where
  "demo_network =
     (let d = \<lparr>dev_traits = \<lparr>is_wireless = Some False, is_virtual = False\<rparr>, dev_channel = 0\<rparr>
      in \<lparr>net_nodes = [\<lparr>mobility = Some (1, 2), devices = [d]\<rparr>, \<lparr>mobility = None, devices = [d]\<rparr>],
          channel_nodes = (\<lambda>_. [0, 1])\<rparr>)"

theorem scan_topology_links_witness:
  "\<exists>sc. scan_topology (\<lambda>g. map (\<lambda>v. (v, (5, 5))) (vertices g)) demo_network (new_scene 2) = Inr sc \<and>
     wired sc = [(NodeRef 0, NodeRef 1), (NodeRef 1, NodeRef 0)] \<and> get_position_of sc (NodeRef 0) = (3, 6)"
proof -
  have pairs: "concat (map (node_pairs demo_network) (map int [0..<2])) =
      [(NodeRef 0, NodeRef 1), (NodeRef 1, NodeRef 0)]"
    by (simp add: demo_network_def node_pairs_def device_ends_def Let_def upt_rec)
  have len: "length (net_nodes demo_network) = 2" by (simp add: demo_network_def Let_def)
  have first: "mobility (net_nodes demo_network ! 0) = Some (1, 2)" by (simp add: demo_network_def Let_def)
  have "\<And>g. fst ` set (map (\<lambda>v. (v, (5, 5))) (vertices g)) \<subseteq> set (vertices g)" by auto
  from scan_topology_links [OF this, of demo_network 2] obtain sc where
    "scan_topology (\<lambda>g. map (\<lambda>v. (v, (5, 5))) (vertices g)) demo_network (new_scene 2) = Inr sc"
    "wired sc = [(NodeRef 0, NodeRef 1), (NodeRef 1, NodeRef 0)]"
    "\<forall>i < 2. has_key (objects sc) (NodeRef (int i)) \<and> (\<forall>p. mobility (net_nodes demo_network ! i) = Some p \<longrightarrow>
       get_position_of sc (NodeRef (int i)) = transform_point_simulation_to_canvas p)"
    unfolding len pairs by blast
  then show ?thesis using first
    by (auto simp: transform_point_simulation_to_canvas_def PIXELS_PER_METER_def dest!: spec [of _ "0 :: nat"])
qed

definition demo_nodes :: scene where
  "demo_nodes = get_node 1 (get_node 0 (new_scene 2))"

lemma demo_nodes_keys: "has_key (objects demo_nodes) (NodeRef i) = (i = 0 \<or> i = 1)"
  by (auto simp: demo_nodes_def get_node_def has_key_def map_of_get_object)

lemma demo_nodes_ok: "scene_ok demo_nodes"
  unfolding demo_nodes_def get_node_def by (intro get_object_ok new_scene_ok)

text \<open>A station that has been associated loses its link.\<close>

theorem wifi_links_follow_witness:
  "let devs = (\<lambda>i. if i = 0 then [AccessPoint ''ap''] else [Station 7]);
       (mon, sc1) = scan_nodes devs [0, 1] \<lparr>access_points = [], stations = []\<rparr> demo_nodes
   in \<exists>sc. monitor_periodic_update mon (\<lambda>_. (True, ''ap'')) sc1 = Inr sc \<and>
     (case monitor_periodic_update mon (\<lambda>_. (False, [])) sc of
        Inr sc' \<Rightarrow> (\<exists>sta line. links sc' ! 0 = Wifi (Some sta) None line)
      | Inl e \<Rightarrow> False)"
proof -
  let ?devs = "\<lambda>i :: int. if i = 0 then [AccessPoint ''ap''] else [Station 7]"
  let ?mon = "\<lparr>access_points = [(''ap'', NodeRef 0)], stations = [(7, 0)]\<rparr>"
  let ?sc1 = "new_wifi_link (NodeRef 1) demo_nodes"
  have none: "links demo_nodes = []" by (simp add: demo_nodes_def get_node_def)
  have scan: "scan_nodes ?devs [0, 1] \<lparr>access_points = [], stations = []\<rparr> demo_nodes = (?mon, ?sc1)"
    by (simp add: scan_nodes_def scan_device_def Let_def none)
  have keys: "\<forall>i \<in> set [0, 1]. has_key (objects demo_nodes) (NodeRef i)" by (simp add: demo_nodes_keys)
  note follow = wifi_links_follow [OF demo_nodes_ok keys scan]
  have up: "case monitor_periodic_update ?mon (\<lambda>_. (True, ''ap'')) ?sc1 of Inr sc \<Rightarrow> True | Inl e \<Rightarrow> False"
    using follow [of "[]" ?sc1 "\<lambda>_. (True, ''ap'')"] by (auto split: sum.splits)
  then obtain sc where sc: "monitor_periodic_update ?mon (\<lambda>_. (True, ''ap'')) ?sc1 = Inr sc"
    by (auto split: sum.splits)
  have "run_steps (\<lambda>sc st. monitor_periodic_update ?mon st sc) ?sc1 [\<lambda>_. (True, ''ap'')] = Inr sc" using sc by simp
  from follow [OF this, of "\<lambda>_. (False, [])"] sc scan show ?thesis
    by (auto simp: station_ap_def associated_def Let_def split: sum.splits)
qed

theorem selection_consistent_witness:
  "\<exists>sc. run_steps (apply_op 2) demo_nodes [ShowMode ShowSelected, Select (IntArg 0), Select (VizNode 1)] = Inr sc \<and>
     selected_node sc = Some 1 \<and> interest sc = [1]"
proof -
  let ?ops = "[ShowMode ShowSelected, Select (IntArg 0), Select (VizNode 1)]"
  have keys: "\<forall>i \<in> {0, 1}. has_key (objects demo_nodes) (NodeRef i)" by (simp add: demo_nodes_keys)
  have start: "selection_ok 2 {} demo_nodes"
    by (auto simp: selection_ok_def demo_nodes_def get_node_def map_of_get_object new_scene_def
        set_show_transmissions_mode_def split: if_splits)
  have known: "\<forall>op \<in> set ?ops. known_arg {0, 1} op" by simp
  have "case run_steps (apply_op 2) demo_nodes ?ops of Inr sc \<Rightarrow> selected_node sc = Some 1 \<and> mode sc = ShowSelected | Inl e \<Rightarrow> False"
    by code_simp
  then obtain sc where sc: "run_steps (apply_op 2) demo_nodes ?ops = Inr sc" "selected_node sc = Some 1" "mode sc = ShowSelected"
    by (auto split: sum.splits)
  from selection_consistent [OF keys start known sc(1)] sc show ?thesis by (auto simp: selected_list_def)
qed

end
