(* ===== verification/Viz_Traffic.thy ===== *)
theory Viz_Traffic
  imports Viz_Scene
begin

text \<open>
  What the visualizer shows of the traffic: the samples that are kept, the averages over them and the
  arrows for transmissions and drops (\<^verbatim>\<open>src/visualizer/visualizer/core.py\<close>), and the statistics of the
  interfaces (\<open>plugins/interface_statistics.py\<close>). Widths, colours and fonts are left out, except that the
  width of an arrow is a logarithm, which raises for a rate that is not positive.
\<close>

section \<open>Sliding windows\<close>

text \<open>\<open>append\<close>, then \<open>pop(0)\<close> while the list is too long.\<close>

fun pop_while :: "nat \<Rightarrow> 'a list \<Rightarrow> 'a list" where
  "pop_while n [] = []"
| "pop_while n (x # xs) = (if n < length (x # xs) then pop_while n xs else x # xs)"

definition push_sample :: "nat \<Rightarrow> 'a list \<Rightarrow> 'a \<Rightarrow> 'a list" where
  "push_sample n xs x = pop_while n (xs @ [x])"

definition last_n :: "nat \<Rightarrow> 'a list \<Rightarrow> 'a list" where
  "last_n n xs = drop (length xs - n) xs"

lemma pop_while_last_n: "pop_while n xs = last_n n xs"
  by (induction xs) (auto simp: last_n_def Suc_diff_le not_less)

lemma push_sample_last_n: "push_sample n (last_n n xs) x = last_n n (xs @ [x])"
proof (cases "length xs < n")
  case True
  then show ?thesis by (simp add: push_sample_def pop_while_last_n last_n_def)
next
  case False
  then show ?thesis
    by (simp add: push_sample_def pop_while_last_n last_n_def Suc_diff_le drop_append)
qed

lemma push_samples: "foldl (push_sample n) (last_n n ys) xs = last_n n (ys @ xs)"
  by (induction xs arbitrary: ys) (simp_all add: push_sample_last_n)

section \<open>Averages\<close>

record transmission =
  tx_id :: int
  rx_id :: int
  tx_bytes :: int

record drop_sample =
  drop_id :: int
  drop_bytes :: int

definition add_sample :: "('k \<Rightarrow> int \<Rightarrow> ('k, int \<times> int) dict \<Rightarrow> ('k, int \<times> int) dict)" where
  "add_sample key b d =
     (let (total, n) = (case map_of d key of None \<Rightarrow> (0, 0) | Some v \<Rightarrow> v)
      in AList.update key (total + b, n + 1) d)"

definition transmissions_average :: "transmission list list \<Rightarrow> (int \<times> int, int \<times> int) dict" where
  "transmissions_average sets =
     foldl (\<lambda>d ts. foldl (\<lambda>d t. add_sample (tx_id t, rx_id t) (tx_bytes t) d) d ts) [] sets"

definition drops_average :: "drop_sample list list \<Rightarrow> (int, int \<times> int) dict" where
  "drops_average sets = foldl (\<lambda>d ts. foldl (\<lambda>d t. add_sample (drop_id t) (drop_bytes t) d) d ts) [] sets"

definition totals :: "('k \<times> int) list \<Rightarrow> 'k \<Rightarrow> (int \<times> int) option" where
  "totals xs k =
     (let bs = map snd (filter (\<lambda>x. fst x = k) xs)
      in if bs = [] then None else Some (sum_list bs, int (length bs)))"

lemma add_sample_totals:
  assumes "map_of d = totals xs" "dict_ok d"
  shows "map_of (add_sample k b d) = totals (xs @ [(k, b)])" "dict_ok (add_sample k b d)"
proof -
  show "dict_ok (add_sample k b d)" using assms(2) by (auto simp: add_sample_def split: option.splits prod.splits)
  show "map_of (add_sample k b d) = totals (xs @ [(k, b)])"
    by (rule ext) (auto simp: add_sample_def assms(1) totals_def Let_def dict_simps split: prod.splits)
qed

lemma add_samples_totals:
  "map_of d = totals xs \<Longrightarrow> dict_ok d \<Longrightarrow>
     map_of (foldl (\<lambda>d t. add_sample (f t) (g t) d) d ts) = totals (xs @ map (\<lambda>t. (f t, g t)) ts) \<and>
     dict_ok (foldl (\<lambda>d t. add_sample (f t) (g t) d) d ts)"
proof (induction ts arbitrary: d xs)
  case (Cons t ts)
  from Cons.IH [OF add_sample_totals [OF Cons.prems]] show ?case by simp
qed simp

lemma all_samples_totals:
  "map_of d = totals xs \<Longrightarrow> dict_ok d \<Longrightarrow>
     map_of (foldl (\<lambda>d ts. foldl (\<lambda>d t. add_sample (f t) (g t) d) d ts) d sets) =
       totals (xs @ map (\<lambda>t. (f t, g t)) (concat sets)) \<and>
     dict_ok (foldl (\<lambda>d ts. foldl (\<lambda>d t. add_sample (f t) (g t) d) d ts) d sets)"
proof (induction sets arbitrary: d xs)
  case (Cons ts sets)
  note step = add_samples_totals [OF Cons.prems, of f g ts]
  from Cons.IH [OF conjunct1 [OF step] conjunct2 [OF step]] show ?case by simp
qed simp

lemma transmissions_average_totals:
  "map_of (transmissions_average sets) = totals (map (\<lambda>t. ((tx_id t, rx_id t), tx_bytes t)) (concat sets))"
  "dict_ok (transmissions_average sets)"
  using all_samples_totals [of "[]" "[]" "\<lambda>t. (tx_id t, rx_id t)" tx_bytes sets]
  by (simp_all add: transmissions_average_def totals_def fun_eq_iff)

lemma drops_average_totals:
  "map_of (drops_average sets) = totals (map (\<lambda>t. (drop_id t, drop_bytes t)) (concat sets))"
  "dict_ok (drops_average sets)"
  using all_samples_totals [of "[]" "[]" drop_id drop_bytes sets]
  by (simp_all add: drops_average_def totals_def fun_eq_iff)

section \<open>Arrows\<close>

text \<open>An arrow with its label, which are kept for later use when they are hidden.\<close>

record arrow =
  arrow_id :: nat
  arrow_visible :: bool
  arrow_line :: "point \<times> point"
  arrow_kbps :: rat

definition hide :: "arrow \<Rightarrow> arrow" where
  "hide a = a\<lparr>arrow_visible := False\<rparr>"

text \<open>An arrow of the pool, from its end, or a new one.\<close>

definition take_arrow :: "arrow list \<times> nat \<Rightarrow> arrow \<times> arrow list \<times> nat" where
  "take_arrow pool =
     (case pool of (old, fresh) \<Rightarrow>
        if old = [] then (\<lparr>arrow_id = fresh, arrow_visible = False, arrow_line = ((0, 0), (0, 0)), arrow_kbps = 0\<rparr>, [], fresh + 1)
        else (last old, butlast old, fresh))"

definition kbps :: "rat \<Rightarrow> int \<times> int \<Rightarrow> rat" where
  "kbps sample_period v = of_int (fst v * 8) / 1000 / of_int (snd v) / sample_period"

text \<open>
  The body of the two loops: an arrow for a key of the averages, between two points of the scene. The
  logarithm of a rate that is not positive raises.
\<close>

definition show_arrow ::
  "rat \<Rightarrow> (scene \<Rightarrow> 'k \<Rightarrow> scene \<times> point \<times> point) \<Rightarrow> scene \<times> arrow list \<times> arrow list \<times> nat \<Rightarrow> 'k \<times> int \<times> int \<Rightarrow>
   (scene \<times> arrow list \<times> arrow list \<times> nat) py" where
  "show_arrow sample_period ends s x =
     (case s of (sc, new_arrows, old, fresh) \<Rightarrow>
      case ends sc (fst x) of (sc, line) \<Rightarrow>
      case take_arrow (old, fresh) of (a, old, fresh) \<Rightarrow>
        if of_int (fst (snd x)) / of_int (snd (snd x)) / sample_period \<le> (0 :: rat) then Inl ValueError
        else Inr (sc, new_arrows @ [a\<lparr>arrow_visible := True, arrow_line := line, arrow_kbps := kbps sample_period (snd x)\<rparr>],
                  old, fresh))"

definition update_arrows ::
  "rat \<Rightarrow> (scene \<Rightarrow> 'k \<Rightarrow> scene \<times> point \<times> point) \<Rightarrow> ('k, int \<times> int) dict \<Rightarrow> scene \<times> arrow list \<times> nat \<Rightarrow>
   (scene \<times> arrow list \<times> nat) py" where
  "update_arrows sample_period ends averages s =
     (case s of (sc, arrows, fresh) \<Rightarrow>
        py_bind (run_steps (show_arrow sample_period ends) (sc, [], map hide arrows, fresh) averages)
          (\<lambda>(sc, new_arrows, old, fresh). Inr (sc, new_arrows @ old, fresh)))"

definition transmission_ends :: "scene \<Rightarrow> int \<times> int \<Rightarrow> scene \<times> point \<times> point" where
  "transmission_ends sc k =
     (let sc = get_node (snd k) (get_node (fst k) sc)
      in (sc, get_position_of sc (NodeRef (fst k)), get_position_of sc (NodeRef (snd k))))"

definition update_transmissions_view ::
  "rat \<Rightarrow> transmission list list \<Rightarrow> scene \<times> arrow list \<times> nat \<Rightarrow> (scene \<times> arrow list \<times> nat) py" where
  "update_transmissions_view sample_period last_transmissions s =
     update_arrows sample_period transmission_ends (transmissions_average last_transmissions) s"

text \<open>An arrow for drops goes down from the node to the edge of the screen.\<close>

definition drop_ends :: "rat \<Rightarrow> scene \<Rightarrow> int \<Rightarrow> scene \<times> point \<times> point" where
  "drop_ends edge_y sc k =
     (let sc = get_node k sc; p = get_position_of sc (NodeRef k) in (sc, p, (fst p, edge_y)))"

definition update_drops_view ::
  "rat \<Rightarrow> rat \<Rightarrow> drop_sample list list \<Rightarrow> scene \<times> arrow list \<times> nat \<Rightarrow> (scene \<times> arrow list \<times> nat) py" where
  "update_drops_view edge_y sample_period last_drops s =
     update_arrows sample_period (drop_ends edge_y) (drops_average last_drops) s"

text \<open>The samples of a period; \<open>smooth\<close> is the value of the smoothing factor.\<close>

definition smooth_factor :: "rat \<Rightarrow> nat" where
  "smooth_factor smooth = nat \<lfloor>smooth * 10\<rfloor>"

definition periodic_update ::
  "rat \<Rightarrow> transmission list \<Rightarrow> drop_sample list \<Rightarrow> transmission list list \<times> drop_sample list list \<Rightarrow>
   transmission list list \<times> drop_sample list list" where
  "periodic_update smooth transmissions drops s =
     (push_sample (smooth_factor smooth) (fst s) transmissions, push_sample (smooth_factor smooth) (snd s) drops)"

section \<open>Statistics of the interfaces\<close>

definition NODE_STATISTICS_MEMORY :: nat where
  "NODE_STATISTICS_MEMORY = 10"

record raw_stats =
  transmittedPackets :: int
  transmittedBytes :: int
  receivedPackets :: int
  receivedBytes :: int

record dev_stats =
  txPackets :: int
  txBytes :: int
  rxPackets :: int
  rxBytes :: int
  txPacketRate :: rat
  txBitRate :: rat
  rxPacketRate :: rat
  rxBitRate :: rat

type_synonym collector = "(int, raw_stats list list) dict"

definition collect_sample :: "collector \<Rightarrow> int \<times> raw_stats list \<Rightarrow> collector" where
  "collect_sample c s =
     (let old = (case map_of c (fst s) of None \<Rightarrow> [] | Some xs \<Rightarrow> xs)
      in AList.update (fst s) (push_sample NODE_STATISTICS_MEMORY old (snd s)) c)"

definition collector_periodic_update :: "(int \<times> raw_stats list) list \<Rightarrow> collector \<Rightarrow> collector" where
  "collector_periodic_update samples c = foldl collect_sample c samples"

definition interface_stats :: "rat \<Rightarrow> raw_stats list \<Rightarrow> nat \<times> raw_stats \<Rightarrow> dev_stats py" where
  "interface_stats k first x =
     (if fst x < length first
      then (let a = first ! fst x; b = snd x
            in Inr \<lparr>txPackets = transmittedPackets b, txBytes = transmittedBytes b,
                 rxPackets = receivedPackets b, rxBytes = receivedBytes b,
                 txPacketRate = of_int (transmittedPackets b - transmittedPackets a) / k,
                 txBitRate = of_int ((transmittedBytes b - transmittedBytes a) * 8) / k,
                 rxPacketRate = of_int (receivedPackets b - receivedPackets a) / k,
                 rxBitRate = of_int ((receivedBytes b - receivedBytes a) * 8) / k\<rparr>)
      else Inl IndexError)"

definition get_interface_statistics :: "rat \<Rightarrow> collector \<Rightarrow> int \<Rightarrow> dev_stats list py" where
  "get_interface_statistics sample_period c node =
     (case map_of c node of
        None \<Rightarrow> Inr []
      | Some xs \<Rightarrow>
          if length xs < NODE_STATISTICS_MEMORY then Inr []
          else if length xs \<noteq> NODE_STATISTICS_MEMORY then Inl AssertionError
          else py_map (interface_stats (sample_period * of_nat (NODE_STATISTICS_MEMORY - 1)) (hd xs))
                 (enumerate 0 (last xs)))"

section \<open>The pool of arrows\<close>

definition arrows_ok :: "arrow list \<Rightarrow> nat \<Rightarrow> bool" where
  "arrows_ok as fresh \<longleftrightarrow> distinct (map arrow_id as) \<and> (\<forall>a \<in> set as. arrow_id a < fresh)"

definition shown :: "arrow list \<Rightarrow> ((point \<times> point) \<times> rat) list" where
  "shown as = map (\<lambda>a. (arrow_line a, arrow_kbps a)) (filter arrow_visible as)"

definition positive_rate :: "rat \<Rightarrow> int \<times> int \<Rightarrow> bool" where
  "positive_rate sample_period v \<longleftrightarrow> 0 < of_int (fst v) / of_int (snd v) / sample_period"

text \<open>
  Where a pair of ends is drawn depends on the positions only, and looking the objects up changes nothing but
  that it may create them.
\<close>

definition same_scene :: "scene \<Rightarrow> scene \<Rightarrow> bool" where
  "same_scene sc sc' \<longleftrightarrow> get_position_of sc' = get_position_of sc \<and> links sc' = links sc \<and>
     (\<forall>r. has_key (objects sc) r \<longrightarrow> has_key (objects sc') r) \<and> (scene_ok sc \<longrightarrow> scene_ok sc')"

lemma same_scene_refl [simp]: "same_scene sc sc"
  by (simp add: same_scene_def)

lemma same_scene_trans: "same_scene sc sc1 \<Longrightarrow> same_scene sc1 sc2 \<Longrightarrow> same_scene sc sc2"
  by (simp add: same_scene_def)

lemma same_scene_get_node [simp]: "same_scene sc (get_node i sc)" "get_position_of (get_node i sc) = get_position_of sc"
  by (simp_all add: same_scene_def get_node_def get_object_ok)

definition ends_at :: "(scene \<Rightarrow> 'k \<Rightarrow> scene \<times> point \<times> point) \<Rightarrow> ((vref \<Rightarrow> point) \<Rightarrow> 'k \<Rightarrow> point \<times> point) \<Rightarrow> bool" where
  "ends_at ends line \<longleftrightarrow>
     (\<forall>sc k. same_scene sc (fst (ends sc k)) \<and> snd (ends sc k) = line (get_position_of sc) k)"

lemma transmission_ends_at: "ends_at transmission_ends (\<lambda>pos k. (pos (NodeRef (fst k)), pos (NodeRef (snd k))))"
  by (auto simp: ends_at_def transmission_ends_def Let_def
      intro: same_scene_trans [OF same_scene_get_node(1) same_scene_get_node(1)])

lemma drop_ends_at: "ends_at (drop_ends edge_y) (\<lambda>pos k. (pos (NodeRef k), (fst (pos (NodeRef k)), edge_y)))"
  by (simp add: ends_at_def drop_ends_def Let_def)

lemma take_arrow_ok:
  assumes "take_arrow (old, fresh) = (a, old', fresh')" "arrows_ok (new @ old) fresh" "arrow_id (f a) = arrow_id a"
  shows "arrows_ok ((new @ [f a]) @ old') fresh'"
proof (cases old rule: rev_cases)
  case Nil
  then show ?thesis using assms by (auto simp: take_arrow_def arrows_ok_def)
next
  case (snoc os b)
  then show ?thesis using assms by (auto simp: take_arrow_def arrows_ok_def)
qed

lemma take_arrow_old:
  "take_arrow (old, fresh) = (a, old', fresh') \<Longrightarrow> set old' \<subseteq> set old \<and> length old' = length old - 1"
  by (auto simp: take_arrow_def split: if_splits dest: in_set_butlastD)

lemma show_arrows:
  assumes "ends_at ends line" "arrows_ok (new @ old) fresh" "\<forall>a \<in> set old. \<not> arrow_visible a"
    "\<forall>a \<in> set new. arrow_visible a" "\<forall>x \<in> set xs. positive_rate p (snd x)"
  shows "\<exists>sc' new' old' fresh'. run_steps (show_arrow p ends) (sc, new, old, fresh) xs = Inr (sc', new', old', fresh') \<and>
     arrows_ok (new' @ old') fresh' \<and> (\<forall>a \<in> set old'. \<not> arrow_visible a) \<and> (\<forall>a \<in> set new'. arrow_visible a) \<and>
     same_scene sc sc' \<and>
     shown new' = shown new @ map (\<lambda>x. (line (get_position_of sc) (fst x), kbps p (snd x))) xs \<and>
     length new' = length new + length xs \<and> length old' = length old - length xs"
  using assms(2-)
proof (induction xs arbitrary: sc new old fresh)
  case (Cons x xs)
  obtain sc1 l where sc1: "ends sc (fst x) = (sc1, l)" by (metis prod.exhaust)
  have l: "l = line (get_position_of sc) (fst x)" and same: "same_scene sc sc1"
    using assms(1) sc1 unfolding ends_at_def by (metis snd_conv, metis fst_conv)
  then have pos: "get_position_of sc1 = get_position_of sc" by (simp add: same_scene_def)
  obtain a old1 fresh1 where a: "take_arrow (old, fresh) = (a, old1, fresh1)" by (metis prod_cases3)
  let ?a = "a\<lparr>arrow_visible := True, arrow_line := l, arrow_kbps := kbps p (snd x)\<rparr>"
  have step: "show_arrow p ends (sc, new, old, fresh) x = Inr (sc1, new @ [?a], old1, fresh1)"
    using Cons.prems(4) by (simp add: show_arrow_def sc1 a positive_rate_def)
  have "arrows_ok ((new @ [?a]) @ old1) fresh1"
    using take_arrow_ok [OF a Cons.prems(1), of "\<lambda>a. a\<lparr>arrow_visible := True, arrow_line := l, arrow_kbps := kbps p (snd x)\<rparr>"]
    by simp
  moreover have old1: "\<forall>b \<in> set old1. \<not> arrow_visible b" "length old1 = length old - 1"
    using take_arrow_old [OF a] Cons.prems(2) by auto
  moreover have "\<forall>b \<in> set (new @ [?a]). arrow_visible b" using Cons.prems(3) by simp
  moreover have "\<forall>y \<in> set xs. positive_rate p (snd y)" using Cons.prems(4) by simp
  ultimately obtain sc' new' old' fresh' where
    run: "run_steps (show_arrow p ends) (sc1, new @ [?a], old1, fresh1) xs = Inr (sc', new', old', fresh')"
    and rest: "arrows_ok (new' @ old') fresh'" "\<forall>a \<in> set old'. \<not> arrow_visible a" "\<forall>a \<in> set new'. arrow_visible a"
      "same_scene sc1 sc'"
      "shown new' = shown (new @ [?a]) @ map (\<lambda>x. (line (get_position_of sc1) (fst x), kbps p (snd x))) xs"
      "length new' = length (new @ [?a]) + length xs" "length old' = length old1 - length xs"
    using Cons.IH [of "new @ [?a]" old1 fresh1 sc1] by blast
  show ?case
    by (rule exI [of _ sc'], rule exI [of _ new'], rule exI [of _ old'], rule exI [of _ fresh'])
      (use step run rest old1(2) same_scene_trans [OF same rest(4)] in \<open>simp add: pos l shown_def\<close>)
qed simp

lemma update_arrows_shown:
  assumes "ends_at ends line" "arrows_ok as fresh" "\<forall>x \<in> set avg. positive_rate p (snd x)"
  shows "\<exists>sc' as' fresh'. update_arrows p ends avg (sc, as, fresh) = Inr (sc', as', fresh') \<and> arrows_ok as' fresh' \<and>
     same_scene sc sc' \<and>
     shown as' = map (\<lambda>x. (line (get_position_of sc) (fst x), kbps p (snd x))) avg \<and>
     length as' = max (length as) (length avg)"
proof -
  have "arrows_ok ([] @ map hide as) fresh" using assms(2) by (simp add: arrows_ok_def hide_def comp_def)
  moreover have "\<forall>a \<in> set (map hide as). \<not> arrow_visible a" by (simp add: hide_def)
  ultimately obtain sc' new' old' fresh' where
    run: "run_steps (show_arrow p ends) (sc, [], map hide as, fresh) avg = Inr (sc', new', old', fresh')"
    and rest: "arrows_ok (new' @ old') fresh'" "\<forall>a \<in> set old'. \<not> arrow_visible a"
      "same_scene sc sc'"
      "shown new' = shown [] @ map (\<lambda>x. (line (get_position_of sc) (fst x), kbps p (snd x))) avg"
      "length new' = length ([] :: arrow list) + length avg" "length old' = length (map hide as) - length avg"
    using show_arrows [OF assms(1) _ _ _ assms(3), of "[]" "map hide as" fresh sc] by auto
  have "shown (new' @ old') = shown new'" using rest(2) by (simp add: shown_def filter_empty_conv)
  with run rest show ?thesis
    by (intro exI [of _ sc'] exI [of _ "new' @ old'"] exI [of _ fresh']) (auto simp: update_arrows_def shown_def)
qed

lemma sum_list_positive: "\<forall>b \<in> set bs. 0 < b \<Longrightarrow> bs \<noteq> [] \<Longrightarrow> 0 < sum_list (bs :: int list)"
proof (induction bs)
  case (Cons b bs)
  then show ?case by (cases bs) auto
qed simp

lemma totals_positive:
  assumes "0 < p" "\<forall>x \<in> set xs. 0 < snd x" "totals xs k = Some v"
  shows "positive_rate p v"
proof -
  let ?bs = "map snd (filter (\<lambda>x. fst x = k) xs)"
  have bs: "?bs \<noteq> []" "v = (sum_list ?bs, int (length ?bs))"
    using assms(3) by (auto simp: totals_def Let_def split: if_splits)
  have "\<forall>b \<in> set ?bs. 0 < b" using assms(2) by auto
  then have "0 < sum_list ?bs" using bs(1) by (rule sum_list_positive)
  then show ?thesis using assms(1) bs by (simp add: positive_rate_def)
qed

lemma totals_keys: "totals xs k \<noteq> None \<longleftrightarrow> k \<in> fst ` set xs"
  by (auto simp: totals_def Let_def filter_empty_conv)

lemma averages_entry:
  assumes "map_of avg = totals xs" "dict_ok avg" "x \<in> set avg"
  shows "totals xs (fst x) = Some (snd x)"
  using map_of_is_SomeI [of avg "fst x" "snd x"] assms by (simp add: dict_ok_def)

lemma averages_keys:
  assumes "map_of avg = totals xs"
  shows "fst ` set avg = fst ` set xs"
proof (rule set_eqI)
  fix k
  have "k \<in> fst ` set avg \<longleftrightarrow> map_of avg k \<noteq> None" by (simp only: map_of_eq_None_iff not_not)
  also have "\<dots> \<longleftrightarrow> k \<in> fst ` set xs" unfolding assms by (rule totals_keys)
  finally show "k \<in> fst ` set avg \<longleftrightarrow> k \<in> fst ` set xs" .
qed

definition mean_rate :: "rat \<Rightarrow> int list \<Rightarrow> rat" where
  "mean_rate p bytes = of_int (sum_list bytes * 8) / 1000 / of_nat (length bytes) / p"

definition bytes_of :: "('k \<times> int) list \<Rightarrow> 'k \<Rightarrow> int list" where
  "bytes_of xs k = map snd (filter (\<lambda>x. fst x = k) xs)"

lemma totals_rate: "totals xs k = Some v \<Longrightarrow> kbps p v = mean_rate p (bytes_of xs k)"
  by (auto simp: totals_def Let_def kbps_def mean_rate_def bytes_of_def split: if_splits)

text \<open>The arrows for the averages over a list of samples.\<close>

lemma averaged_arrows:
  assumes "ends_at ends line" "arrows_ok as fresh" "0 < p"
    and avg: "map_of avg = totals xs" "dict_ok avg" and "\<forall>x \<in> set xs. 0 < snd x"
  shows "\<exists>sc' as' fresh' keys. update_arrows p ends avg (sc, as, fresh) = Inr (sc', as', fresh') \<and>
     arrows_ok as' fresh' \<and> same_scene sc sc' \<and> length as' = max (length as) (length keys) \<and>
     distinct keys \<and> set keys = fst ` set xs \<and>
     shown as' = map (\<lambda>k. (line (get_position_of sc) k, mean_rate p (bytes_of xs k))) keys"
proof -
  note entry = averages_entry [OF avg]
  have "\<forall>x \<in> set avg. positive_rate p (snd x)" using totals_positive [OF assms(3,6)] entry by blast
  from update_arrows_shown [OF assms(1,2) this] obtain sc' as' fresh' where
    r: "update_arrows p ends avg (sc, as, fresh) = Inr (sc', as', fresh')" "arrows_ok as' fresh'" "same_scene sc sc'"
      "shown as' = map (\<lambda>x. (line (get_position_of sc) (fst x), kbps p (snd x))) avg"
      "length as' = max (length as) (length avg)"
    by blast
  have "shown as' = map (\<lambda>k. (line (get_position_of sc) k, mean_rate p (bytes_of xs k))) (map fst avg)"
    unfolding r(4) map_map comp_def by (rule map_cong [OF refl]) (simp only: totals_rate [OF entry])
  moreover have "set (map fst avg) = fst ` set xs" using averages_keys [OF avg(1)] by simp
  moreover have "distinct (map fst avg)" using avg(2) by (simp add: dict_ok_def)
  ultimately show ?thesis using r(1-3,5)
    by (intro exI [of _ sc'] exI [of _ as'] exI [of _ fresh'] exI [of _ "map fst avg"]) simp
qed

lemma periodic_updates:
  "foldl (\<lambda>s (t, d). periodic_update smooth t d s) (last_n (smooth_factor smooth) ts, last_n (smooth_factor smooth) ds) us =
     (last_n (smooth_factor smooth) (ts @ map fst us), last_n (smooth_factor smooth) (ds @ map snd us))"
proof (induction us arbitrary: ts ds)
  case (Cons u us)
  have "(\<lambda>s (t, d). periodic_update smooth t d s) (last_n (smooth_factor smooth) ts, last_n (smooth_factor smooth) ds) u =
      (last_n (smooth_factor smooth) (ts @ [fst u]), last_n (smooth_factor smooth) (ds @ [snd u]))"
    by (simp add: periodic_update_def push_sample_last_n split_beta)
  then show ?case using Cons.IH [of "ts @ [fst u]" "ds @ [snd u]"] by simp
qed simp

lemma periodic_updates_empty:
  "foldl (\<lambda>s (t, d). periodic_update smooth t d s) ([], []) us =
     (last_n (smooth_factor smooth) (map fst us), last_n (smooth_factor smooth) (map snd us))"
  using periodic_updates [of smooth "[]" "[]" us] by (simp add: last_n_def)

lemma last_n_subset: "set (last_n n xs) \<subseteq> set xs"
  by (simp add: last_n_def set_drop_subset)

section \<open>The collector\<close>

definition history :: "int \<Rightarrow> (int \<times> raw_stats list) list \<Rightarrow> raw_stats list list" where
  "history node samples = map snd (filter (\<lambda>s. fst s = node) samples)"

definition collected :: "(int \<times> raw_stats list) list \<Rightarrow> collector \<Rightarrow> bool" where
  "collected samples c \<longleftrightarrow>
     (\<forall>node. map_of c node =
        (if history node samples = [] then None else Some (last_n NODE_STATISTICS_MEMORY (history node samples))))"

lemma collect_sample_collected:
  assumes "collected samples c"
  shows "collected (samples @ [s]) (collect_sample c s)"
proof -
  have old: "(case map_of c (fst s) of None \<Rightarrow> [] | Some xs \<Rightarrow> xs) = last_n NODE_STATISTICS_MEMORY (history (fst s) samples)"
    using assms by (simp add: collected_def last_n_def)
  have "push_sample NODE_STATISTICS_MEMORY (last_n NODE_STATISTICS_MEMORY (history (fst s) samples)) (snd s) =
      last_n NODE_STATISTICS_MEMORY (history (fst s) (samples @ [s]))"
    by (simp add: push_sample_last_n history_def)
  then have "map_of (collect_sample c s) =
      (map_of c)(fst s \<mapsto> last_n NODE_STATISTICS_MEMORY (history (fst s) (samples @ [s])))"
    unfolding collect_sample_def Let_def old by (simp add: dict_simps)
  then show ?thesis using assms by (auto simp: collected_def history_def)
qed

lemma collector_updates_collected:
  "collected samples c \<Longrightarrow> collected (samples @ concat us) (foldl (\<lambda>c u. collector_periodic_update u c) c us)"
proof (induction us arbitrary: samples c)
  case (Cons u us)
  have "collected (samples @ ss) (foldl collect_sample c ss)" if "collected samples c" for samples ss c
    using that
  proof (induction ss arbitrary: samples c)
    case (Cons s ss)
    from Cons.IH [OF collect_sample_collected [OF Cons.prems, of s]] show ?case by simp
  qed simp
  from Cons.IH [OF this [OF Cons.prems, of u]] show ?case by (simp add: collector_periodic_update_def)
qed simp

text \<open>The rates of an interface between two samples.\<close>

definition rate_between :: "rat \<Rightarrow> raw_stats \<Rightarrow> raw_stats \<Rightarrow> dev_stats" where
  "rate_between k a b =
     \<lparr>txPackets = transmittedPackets b, txBytes = transmittedBytes b, rxPackets = receivedPackets b,
      rxBytes = receivedBytes b,
      txPacketRate = of_int (transmittedPackets b - transmittedPackets a) / k,
      txBitRate = of_int ((transmittedBytes b - transmittedBytes a) * 8) / k,
      rxPacketRate = of_int (receivedPackets b - receivedPackets a) / k,
      rxBitRate = of_int ((receivedBytes b - receivedBytes a) * 8) / k\<rparr>"

lemma interface_stats_all:
  "py_map (interface_stats k first) (enumerate n xs) =
     (if n + length xs \<le> length first \<or> xs = [] then Inr (map2 (rate_between k) (drop n first) xs) else Inl IndexError)"
proof (induction xs arbitrary: n)
  case (Cons x xs)
  show ?case
  proof (cases "n < length first")
    case True
    then have "drop n first = first ! n # drop (Suc n) first" by (rule Cons_nth_drop_Suc [symmetric])
    moreover have "interface_stats k first (n, x) = Inr (rate_between k (first ! n) x)"
      using True by (simp add: interface_stats_def rate_between_def Let_def)
    ultimately show ?thesis using Cons.IH [of "Suc n"] True by auto
  qed (simp add: interface_stats_def)
qed simp

section \<open>Properties\<close>

text \<open>
  C18: the arrows for the transmissions. After any number of periods, when every sample has bytes, the view shows
  exactly one arrow for each pair of nodes with a transmission in the last periods (as many as the
  smoothing factor says), from the sender to the receiver, with the mean of the samples of the pair
  as the rate; no arrow is used twice, arrows are kept for later use, and no new one is
  made while there is one to use.
\<close>

theorem transmissions_shown:
  assumes "0 < sample_period" and "arrows_ok arrows fresh"
    and "\<forall>u \<in> set updates. \<forall>t \<in> set (fst u). 0 < tx_bytes t"
    and "window = concat (last_n (smooth_factor smooth) (map fst updates))"
  shows "\<exists>sc' arrows' fresh' keys.
     update_transmissions_view sample_period
       (fst (foldl (\<lambda>s (t, d). periodic_update smooth t d s) ([], []) updates)) (sc, arrows, fresh) =
       Inr (sc', arrows', fresh') \<and>
     arrows_ok arrows' fresh' \<and> length arrows' = max (length arrows) (length keys) \<and>
     distinct keys \<and> set keys = (\<lambda>t. (tx_id t, rx_id t)) ` set window \<and>
     shown arrows' = map (\<lambda>k.
       let bytes = map tx_bytes (filter (\<lambda>t. (tx_id t, rx_id t) = k) window)
       in ((get_position_of sc (NodeRef (fst k)), get_position_of sc (NodeRef (snd k))),
           of_int (sum_list bytes * 8) / 1000 / of_nat (length bytes) / sample_period)) keys"
proof -
  let ?sets = "last_n (smooth_factor smooth) (map fst updates)"
  let ?xs = "map (\<lambda>t. ((tx_id t, rx_id t), tx_bytes t)) window"
  have avg: "map_of (transmissions_average ?sets) = totals ?xs" "dict_ok (transmissions_average ?sets)"
    using transmissions_average_totals [of ?sets] assms(4) by simp_all
  have "\<forall>x \<in> set ?xs. 0 < snd x"
    using assms(3) last_n_subset [of "smooth_factor smooth" "map fst updates"] by (fastforce simp: assms(4))
  from averaged_arrows [OF transmission_ends_at assms(2,1) avg this, of sc] show ?thesis
    by (auto simp: update_transmissions_view_def periodic_updates_empty bytes_of_def filter_map comp_def mean_rate_def
        Let_def image_image simp del: times_divide_eq_right)
qed

text \<open>Two samples of one pair of nodes.\<close>

definition demo_updates :: "(transmission list \<times> drop_sample list) list" where
  "demo_updates =
     [([\<lparr>tx_id = 0, rx_id = 1, tx_bytes = 100\<rparr>], []), ([\<lparr>tx_id = 0, rx_id = 1, tx_bytes = 300\<rparr>], [])]"

theorem transmissions_shown_witness:
  "\<exists>sc' arrows' fresh'. update_transmissions_view (1 / 10)
       (fst (foldl (\<lambda>s (t, d). periodic_update (1 / 2) t d s) ([], []) demo_updates)) (demo_nodes, [], 0) =
       Inr (sc', arrows', fresh') \<and>
     shown arrows' = [(((0, 0), (0, 0)), 16)]"
proof -
  let ?window = "concat (last_n (smooth_factor (1 / 2)) (map fst demo_updates))"
  have w: "?window = [\<lparr>tx_id = 0, rx_id = 1, tx_bytes = 100\<rparr>, \<lparr>tx_id = 0, rx_id = 1, tx_bytes = 300\<rparr>]"
    by (simp add: last_n_def smooth_factor_def demo_updates_def)
  have pos: "get_position_of demo_nodes r = (0, 0)" for r
    by (auto simp: demo_nodes_def get_node_def) (simp add: get_position_of_def)
  have a: "arrows_ok [] 0" by (simp add: arrows_ok_def)
  have b: "\<forall>u \<in> set demo_updates. \<forall>t \<in> set (fst u). 0 < tx_bytes t" by (simp add: demo_updates_def)
  obtain sc' arrows' fresh' keys where
    r: "update_transmissions_view (1 / 10)
       (fst (foldl (\<lambda>s (t, d). periodic_update (1 / 2) t d s) ([], []) demo_updates)) (demo_nodes, [], 0) =
       Inr (sc', arrows', fresh')"
    and k: "distinct keys" "set keys = (\<lambda>t. (tx_id t, rx_id t)) ` set ?window"
    and s: "shown arrows' = map (\<lambda>k.
       let bytes = map tx_bytes (filter (\<lambda>t. (tx_id t, rx_id t) = k) ?window)
       in ((get_position_of demo_nodes (NodeRef (fst k)), get_position_of demo_nodes (NodeRef (snd k))),
           of_int (sum_list bytes * 8) / 1000 / of_nat (length bytes) / (1 / 10))) keys"
    using transmissions_shown [OF _ a b refl, of "1 / 10" "1 / 2" demo_nodes] by auto
  have "length keys = 1" using k distinct_card [of keys] by (simp add: w)
  with k(2) have "keys = [(0, 1)]" by (cases keys) (auto simp: w)
  with r s show ?thesis by (simp add: w pos Let_def)
qed

text \<open>
  C37: the statistics of the interfaces of a node, after any sequence of updates. They are empty until the node
  has been sampled ten times; then every interface has the totals of the last sample and the rates
  between the last sample and the ninth before it, over nine periods. When an interface has
  appeared in between, \<open>IndexError\<close> is raised.
\<close>

theorem interface_statistics_rates:
  "get_interface_statistics sample_period (foldl (\<lambda>c u. collector_periodic_update u c) [] updates) node =
     (let hist = history node (concat updates); first = hist ! (length hist - 10)
      in if length hist < 10 then Inr []
         else if length (last hist) \<le> length first
         then Inr (map2 (rate_between (sample_period * 9)) first (last hist)) else Inl IndexError)"
proof -
  let ?c = "foldl (\<lambda>c u. collector_periodic_update u c) [] updates"
  define hist where hist: "hist = history node (concat updates)"
  have "collected [] []" by (simp add: collected_def history_def)
  from collector_updates_collected [OF this, of updates]
  have c: "map_of ?c node = (if hist = [] then None else Some (last_n 10 hist))"
    by (simp add: collected_def hist NODE_STATISTICS_MEMORY_def)
  show ?thesis
  proof (cases "length hist < 10")
    case True
    then show ?thesis using c by (simp add: get_interface_statistics_def last_n_def NODE_STATISTICS_MEMORY_def flip: hist)
  next
    case False
    then have "hist \<noteq> []" "length (last_n 10 hist) = 10" by (auto simp: last_n_def)
    moreover have "hd (last_n 10 hist) = hist ! (length hist - 10)" "last (last_n 10 hist) = last hist"
      using False by (simp_all add: last_n_def hd_drop_conv_nth last_drop)
    ultimately show ?thesis using c False
      by (auto simp: get_interface_statistics_def NODE_STATISTICS_MEMORY_def interface_stats_all Let_def simp flip: hist)
  qed
qed

end
