(* ===== verification/Viz_View.thy ===== *)
theory Viz_View
  imports Viz_Traffic
begin

text \<open>
  A refresh of the view, \<open>update_view\<close> of \<^verbatim>\<open>src/visualizer/visualizer/core.py\<close>, which puts the parts
  together: the positions of the nodes, the arrows for transmissions and drops, and the links of stations,
  which a plugin draws again on the signal \<open>update-view\<close>. The label of the time and the information
  windows are left out.
\<close>

section \<open>The refresh\<close>

text \<open>The state: the scene, and the two pools of arrows.\<close>

definition update_view ::
  "network \<Rightarrow> monitor \<Rightarrow> rat \<Rightarrow> rat \<Rightarrow> transmission list list \<times> drop_sample list list \<Rightarrow>
   scene \<times> (arrow list \<times> nat) \<times> (arrow list \<times> nat) \<Rightarrow> (scene \<times> (arrow list \<times> nat) \<times> (arrow list \<times> nat)) py" where
  "update_view net mon edge_y sample_period samples s =
     (case s of (sc, transmission_arrows, drop_arrows) \<Rightarrow>
        py_bind (update_transmissions_view sample_period (fst samples)
                   (update_node_positions net sc, transmission_arrows))
          (\<lambda>(sc, transmission_arrows).
        py_bind (update_drops_view edge_y sample_period (snd samples) (sc, drop_arrows))
          (\<lambda>(sc, drop_arrows).
             Inr (monitor_update_view mon sc, transmission_arrows, drop_arrows))))"

section \<open>Positions\<close>

text \<open>The position a node is given, if it has mobility.\<close>

definition node_position :: "network \<Rightarrow> vref \<Rightarrow> point option" where
  "node_position net r =
     (case r of
        ChannelRef c \<Rightarrow> None
      | NodeRef i \<Rightarrow> map_option transform_point_simulation_to_canvas (mobility (net_nodes net ! nat i)))"

lemma update_node_position_eq:
  "update_node_position net sc r = (case node_position net r of None \<Rightarrow> sc | Some p \<Rightarrow> set_position r p sc)"
  by (cases r) (simp_all add: update_node_position_def node_position_def split: option.splits)

text \<open>The ends of a link of a station, which no redrawing changes.\<close>

fun wifi_ends :: "vlink \<Rightarrow> (vref option \<times> vref option) option" where
  "wifi_ends (Wifi sta ap _) = Some (sta, ap)"
| "wifi_ends (Wired _ _ _) = None"

lemma wifi_ends_redraw [simp]: "wifi_ends (redraw pos l) = wifi_ends l"
  by (induction pos l rule: redraw.induct) simp_all

lemma redraw_wifi: "wifi_ends l = Some (Some a, Some b) \<Longrightarrow> redraw pos l = Wifi (Some a) (Some b) (Some (pos a, pos b))"
  by (cases l) simp_all

definition all_wifi_ends :: "scene \<Rightarrow> (vref option \<times> vref option) option list" where
  "all_wifi_ends sc = map wifi_ends (links sc)"

lemma all_wifi_ends_nth:
  "all_wifi_ends sc' = all_wifi_ends sc \<Longrightarrow> l < length (links sc) \<Longrightarrow>
     l < length (links sc') \<and> wifi_ends (links sc' ! l) = wifi_ends (links sc ! l)"
  unfolding all_wifi_ends_def by (metis length_map nth_map)

lemma all_wifi_ends_set_position [simp]: "all_wifi_ends (set_position r p sc) = all_wifi_ends sc"
proof -
  have "all_wifi_ends (fold update_points ls sc) = all_wifi_ends sc" for ls sc
    by (rule nth_equalityI) (simp_all add: all_wifi_ends_def fold_update_points_links)
  then show ?thesis
    by (simp add: set_position_def Let_def all_wifi_ends_def split: option.splits)
qed

text \<open>What moving the nodes does.\<close>

definition moved :: "network \<Rightarrow> vref set \<Rightarrow> scene \<Rightarrow> scene \<Rightarrow> bool" where
  "moved net rs sc sc' \<longleftrightarrow> (scene_ok sc \<longrightarrow> scene_ok sc') \<and> all_wifi_ends sc' = all_wifi_ends sc \<and>
     (\<forall>r. has_key (objects sc') r = has_key (objects sc) r) \<and>
     (\<forall>r. has_key (objects sc) r \<longrightarrow> get_position_of sc' r =
        (case node_position net r of Some p \<Rightarrow> if r \<in> rs then p else get_position_of sc r | None \<Rightarrow> get_position_of sc r))"

lemma update_node_position_moved: "moved net {r} sc (update_node_position net sc r)"
  by (auto simp: moved_def update_node_position_eq set_position_ok split: option.splits)

lemma moved_trans: "moved net rs sc sc1 \<Longrightarrow> moved net rs' sc1 sc2 \<Longrightarrow> moved net (rs \<union> rs') sc sc2"
  by (auto simp: moved_def split: option.splits)

lemma foldl_moved: "moved net (set rs) sc (foldl (update_node_position net) sc rs)"
proof (induction rs arbitrary: sc)
  case Nil
  show ?case by (auto simp: moved_def split: option.splits)
next
  case (Cons r rs)
  from moved_trans [OF update_node_position_moved Cons.IH] show ?case by simp
qed

lemma update_node_positions_moved: "moved net {r. has_key (objects sc) r} sc (update_node_positions net sc)"
proof -
  have "set (dict_keys (objects sc)) = {r. has_key (objects sc) r}"
    by (auto simp: has_key_iff)
  then show ?thesis unfolding update_node_positions_def by (metis foldl_moved)
qed

text \<open>Drawing links again keeps a scene consistent.\<close>

lemma fold_update_points_ok:
  assumes "scene_ok sc"
  shows "scene_ok (fold update_points ls sc)"
proof -
  let ?sc = "fold update_points ls sc"
  have "links_of_ok (links ?sc) r ids = links_of_ok (links sc) r ids" for r ids
    by (rule links_of_ok_cong) (simp_all add: fold_update_points_links)
  then show ?thesis using assms by (auto simp: scene_ok_nth fold_update_points_links)
qed

lemma monitor_update_view_links:
  "l < length (links sc) \<Longrightarrow> (dev, l) \<in> set (stations mon) \<Longrightarrow>
     links (monitor_update_view mon sc) ! l = redraw (get_position_of sc) (links sc ! l)"
  by (force simp: monitor_update_view_def fold_update_points_links)

text \<open>The lines that the two kinds of arrows show.\<close>

lemma transmission_lines:
  assumes "arrows_ok as fresh" "0 < p" "\<forall>t \<in> set (concat sets). 0 < tx_bytes t"
  shows "\<exists>sc' as' fresh'. update_transmissions_view p sets (sc, as, fresh) = Inr (sc', as', fresh') \<and> same_scene sc sc' \<and>
     fst ` set (shown as') =
       (\<lambda>t. (get_position_of sc (NodeRef (tx_id t)), get_position_of sc (NodeRef (rx_id t)))) ` set (concat sets)"
proof -
  let ?xs = "map (\<lambda>t. ((tx_id t, rx_id t), tx_bytes t)) (concat sets)"
  have "\<forall>x \<in> set ?xs. 0 < snd x" using assms(3) by simp
  from averaged_arrows [OF transmission_ends_at assms(1,2) transmissions_average_totals this, of sc]
  show ?thesis unfolding update_transmissions_view_def by (fastforce simp: image_image)
qed

lemma drop_lines:
  assumes "arrows_ok as fresh" "0 < p" "\<forall>d \<in> set (concat sets). 0 < drop_bytes d"
  shows "\<exists>sc' as' fresh'. update_drops_view edge_y p sets (sc, as, fresh) = Inr (sc', as', fresh') \<and> same_scene sc sc' \<and>
     fst ` set (shown as') =
       (\<lambda>d. (get_position_of sc (NodeRef (drop_id d)), (fst (get_position_of sc (NodeRef (drop_id d))), edge_y))) `
         set (concat sets)"
proof -
  let ?xs = "map (\<lambda>d. (drop_id d, drop_bytes d)) (concat sets)"
  have "\<forall>x \<in> set ?xs. 0 < snd x" using assms(3) by simp
  from averaged_arrows [OF drop_ends_at assms(1,2) drops_average_totals this, of edge_y sc]
  show ?thesis unfolding update_drops_view_def by (fastforce simp: image_image)
qed

section \<open>Property\<close>



end
