(* ===== verification/Viz_Canvas.thy ===== *)
theory Viz_Canvas
  imports Viz_Scene
begin

text \<open>
  The canvas of the visualizer: the axes of \<^verbatim>\<open>src/visualizer/visualizer/hud.py\<close> with their ticks and their
  labels, and the panning, zooming, following and dragging of \<open>core.py\<close>. Coordinates are real numbers for
  the axes, which take a logarithm, and rational numbers elsewhere.
\<close>

section \<open>The divisions of an axis\<close>

definition rint :: "real \<Rightarrow> int" where
  "rint x = \<lfloor>x + 1 / 2\<rfloor>"

definition tick_distance :: "real \<Rightarrow> real" where
  "tick_distance dx_over_ndiv =
     (let d = power_int 10 (rint (log 10 dx_over_ndiv))
      in if \<bar>d / 2 - dx_over_ndiv\<bar> < \<bar>d - dx_over_ndiv\<bar> then d / 2
         else if \<bar>d * 2 - dx_over_ndiv\<bar> < \<bar>d - dx_over_ndiv\<bar> then d * 2 else d)"

text \<open>
  One of the five rounds: from \<open>ndiv\<close> and the results so far. The distance wanted is computed before the
  loop, so the new \<open>ndiv\<close> has no effect.
\<close>

definition division_round ::
  "real \<Rightarrow> real \<Rightarrow> real \<Rightarrow> real \<Rightarrow> real \<times> real \<times> real \<Rightarrow> nat \<Rightarrow> real \<times> real \<times> real" where
  "division_round xi extent text_width dx_over_ndiv s n =
     (let d = tick_distance dx_over_ndiv
      in (if 1 < n then of_int (rint (extent / text_width)) else fst s, d * of_int \<lceil>xi / d\<rceil> - d, d))"

definition compute_divisions :: "real \<Rightarrow> real \<Rightarrow> (real \<times> real) py" where
  "compute_divisions xi xf =
     (if xi < xf
      then (let dx = xf - xi
            in Inr (snd (foldl (division_round xi dx (dx / 5 / 2) (dx / 5)) (5, 0, 0) [0..<5])))
      else Inl AssertionError)"

lemma ceiling_next: "0 < d \<Longrightarrow> \<lceil>(xf - (x + d)) / d\<rceil> = \<lceil>(xf - x) / d\<rceil> - 1" for d :: real
proof -
  assume "0 < d"
  then have "(xf - (x + d)) / d = (xf - x) / d - 1" by (simp add: field_simps)
  then show ?thesis by simp
qed

text \<open>The ticks from \<open>x\<close> on; the distance is positive.\<close>

function ticks :: "real \<Rightarrow> real \<Rightarrow> real \<Rightarrow> real list" where
  "ticks x xf d = (if 0 < d \<and> x < xf then x # ticks (x + d) xf d else [])"
  by pat_completeness auto

termination
proof (relation "measure (\<lambda>(x, xf, d). nat \<lceil>(xf - x) / d\<rceil>)", goal_cases)
  case (2 x xf d)
  then have "0 < (xf - x) / d" by simp
  then have "0 < \<lceil>(xf - x) / d\<rceil>" by linarith
  with 2 show ?case by (simp add: ceiling_next)
qed simp

declare ticks.simps [simp del]

section \<open>The labels\<close>

record axis_label =
  label_id :: nat
  label_visible :: bool
  label_value :: real

text \<open>\<open>get_label\<close>: the first unused label, or a new one.\<close>

definition get_label :: "axis_label list \<times> nat \<Rightarrow> axis_label \<times> axis_label list \<times> nat" where
  "get_label s =
     (case s of
        ([], fresh) \<Rightarrow> (\<lparr>label_id = fresh, label_visible = True, label_value = 0\<rparr>, [], fresh + 1)
      | (l # unused, fresh) \<Rightarrow> (l\<lparr>label_visible := True\<rparr>, unused, fresh))"

definition place_label ::
  "axis_label list \<times> axis_label list \<times> nat \<Rightarrow> real \<Rightarrow> axis_label list \<times> axis_label list \<times> nat" where
  "place_label s x =
     (case get_label (snd s) of (l, rest) \<Rightarrow> (fst s @ [l\<lparr>label_value := x\<rparr>], rest))"

text \<open>\<open>update_view\<close>: the labels of the horizontal axis, then those of the vertical one; the rest is hidden.\<close>

definition axes_update_view ::
  "real \<times> real \<Rightarrow> real \<times> real \<Rightarrow> axis_label list \<times> nat \<Rightarrow> (axis_label list \<times> nat) py" where
  "axes_update_view xs ys s =
     py_bind (compute_divisions (fst xs) (snd xs)) (\<lambda>(x0, xdiv).
     py_bind (compute_divisions (fst ys) (snd ys)) (\<lambda>(y0, ydiv).
       case foldl place_label ([], map (label_visible_update (\<lambda>_. False)) (fst s), snd s)
              (ticks x0 (snd xs) xdiv @ ticks y0 (snd ys) ydiv) of
         (used, unused, fresh) \<Rightarrow> Inr (used @ unused, fresh)))"

section \<open>Panning, zooming and following\<close>

definition clamp :: "rat \<Rightarrow> rat \<Rightarrow> rat \<Rightarrow> rat" where
  "clamp lo hi v = max lo (min hi v)"

record adjustments =
  hvalue :: rat
  vvalue :: rat
  hpage :: rat
  vpage :: rat

record panning =
  initial_mouse_pos :: point
  initial_canvas_pos :: point

definition begin_panning :: "point \<Rightarrow> adjustments \<Rightarrow> panning" where
  "begin_panning pointer a = \<lparr>initial_mouse_pos = pointer, initial_canvas_pos = (hvalue a, vvalue a)\<rparr>"

definition panning_motion :: "panning option \<Rightarrow> point \<Rightarrow> adjustments \<Rightarrow> adjustments py" where
  "panning_motion p pointer a =
     (case p of
        None \<Rightarrow> Inl AssertionError
      | Some p \<Rightarrow>
          Inr (a\<lparr>hvalue := fst (initial_canvas_pos p) - (fst pointer - fst (initial_mouse_pos p)),
                vvalue := snd (initial_canvas_pos p) - (snd pointer - snd (initial_mouse_pos p))\<rparr>))"

datatype scroll = ScrollUp | ScrollDown | ScrollOther

text \<open>The value of the zoom stays within the bounds of its adjustment.\<close>

definition canvas_scroll :: "scroll \<Rightarrow> rat \<Rightarrow> rat" where
  "canvas_scroll d zoom =
     (case d of
        ScrollUp \<Rightarrow> clamp (1 / 100) 10 (zoom * 5 / 4)
      | ScrollDown \<Rightarrow> clamp (1 / 100) 10 (zoom / (5 / 4))
      | ScrollOther \<Rightarrow> zoom)"

text \<open>Centre a point, given in pixels.\<close>

definition center_on :: "point \<Rightarrow> adjustments \<Rightarrow> adjustments" where
  "center_on px a = a\<lparr>hvalue := fst px - hpage a / 2, vvalue := snd px - vpage a / 2\<rparr>"

text \<open>
  \<open>autoscale_view\<close>: the zoom and the centre for the positions of the nodes; \<open>pixels\<close> converts a point of
  the canvas.
\<close>

definition autoscale_zoom :: "(point \<Rightarrow> point) \<Rightarrow> adjustments \<Rightarrow> point list \<Rightarrow> (rat \<times> point) option" where
  "autoscale_zoom pixels a positions =
     (if positions = [] then None
      else
        (let min_x = Min (fst ` set positions); min_y = Min (snd ` set positions);
             max_x = Max (fst ` set positions); max_y = Max (snd ` set positions);
             dx_px = fst (pixels (max_x, max_y)) - fst (pixels (min_x, min_y));
             dy_px = snd (pixels (max_x, max_y)) - snd (pixels (min_x, min_y));
             new_dx = 3 / 2 * dx_px; new_dy = 3 / 2 * dy_px
         in if new_dx = 0 \<or> new_dy = 0 then None
            else Some (clamp (1 / 100) 10 (min (hpage a / new_dx) (vpage a / new_dy)),
                   ((min_x + max_x) / 2, (min_y + max_y) / 2))))"

section \<open>Dragging a node\<close>

record node_drag =
  canvas_0 :: point
  sim_0 :: point

text \<open>A drag begins on a node with mobility, unless there is one already.\<close>

definition begin_node_drag :: "point option \<Rightarrow> point \<Rightarrow> node_drag option \<Rightarrow> node_drag option" where
  "begin_node_drag mob pointer d =
     (case mob of
        None \<Rightarrow> d
      | Some p \<Rightarrow> (case d of Some _ \<Rightarrow> d | None \<Rightarrow> Some \<lparr>canvas_0 = pointer, sim_0 = p\<rparr>))"

text \<open>The new position of the node in the simulation; the node of the view is put there.\<close>

definition node_drag_motion ::
  "point option \<Rightarrow> point \<Rightarrow> node_drag option \<Rightarrow> int \<Rightarrow> scene \<Rightarrow> point option \<times> scene" where
  "node_drag_motion mob pointer d i sc =
     (case (mob, d) of
        (Some p, Some d) \<Rightarrow>
          (let x = fst (sim_0 d) + transform_distance_canvas_to_simulation (fst pointer - fst (canvas_0 d));
               y = snd (sim_0 d) + transform_distance_canvas_to_simulation (snd pointer - snd (canvas_0 d))
           in (Some (x, y), set_position (NodeRef i) (transform_point_simulation_to_canvas (x, y)) sc))
      | _ \<Rightarrow> (mob, sc))"

definition end_node_drag :: "node_drag option \<Rightarrow> node_drag option" where
  "end_node_drag d = None"

section \<open>Facts of the canvas\<close>

text \<open>A dragged node moves on the canvas by what the pointer moves, from wherever it stood.\<close>

lemma drag_follows_pointer:
  assumes "has_key (objects sc) (NodeRef i)"
    and "node_drag_motion (Some p) pointer (begin_node_drag (Some p0) start None) i sc = (m, sc')"
  shows "get_position_of sc' (NodeRef i) =
     (fst (transform_point_simulation_to_canvas p0) + (fst pointer - fst start),
      snd (transform_point_simulation_to_canvas p0) + (snd pointer - snd start))"
  using assms
  by (auto simp: node_drag_motion_def begin_node_drag_def Let_def transform_point_simulation_to_canvas_def
      transform_distance_canvas_to_simulation_def PIXELS_PER_METER_def)

text \<open>A panned canvas moves with the pointer, and is back where it was when the pointer is.\<close>

lemma panning_round_trip:
  "panning_motion (Some (begin_panning p a)) p b = Inr (b\<lparr>hvalue := hvalue a, vvalue := vvalue a\<rparr>)"
  by (simp add: panning_motion_def begin_panning_def)

text \<open>
  When a pixel is a unit of the canvas times the zoom, \<open>autoscale_view\<close> gives the zoom at which the nodes
  fill two thirds of the window, divided by the present zoom: it is right only at zoom 1.
\<close>

lemma autoscale_relative:
  assumes "\<And>p. pixels p = (zoom * (fst p - fst origin), zoom * (snd p - snd origin))" and "0 < zoom"
    and "autoscale_zoom pixels a positions = Some (z, c)"
  shows "z = clamp (1 / 100) 10
     (min (hpage a / (3 / 2 * (Max (fst ` set positions) - Min (fst ` set positions))))
          (vpage a / (3 / 2 * (Max (snd ` set positions) - Min (snd ` set positions)))) / zoom)"
proof -
  let ?dx = "Max (fst ` set positions) - Min (fst ` set positions)"
  let ?dy = "Max (snd ` set positions) - Min (snd ` set positions)"
  have scale: "h / (3 / 2 * (zoom * d)) = h / (3 / 2 * d) / zoom" for h d
    by (simp add: mult.commute mult.left_commute)
  have least: "min (x / zoom) (y / zoom) = min x y / zoom" for x y
    using assms(2) by (simp add: min_def divide_le_cancel)
  have "min (h / (3 / 2 * (zoom * ?dx))) (v / (3 / 2 * (zoom * ?dy))) =
      min (h / (3 / 2 * ?dx)) (v / (3 / 2 * ?dy)) / zoom" for h v
    by (simp only: scale least)
  moreover have "fst (pixels p) - fst (pixels q) = zoom * (fst p - fst q)" "snd (pixels p) - snd (pixels q) = zoom * (snd p - snd q)" for p q
    by (simp_all add: assms(1) algebra_simps)
  ultimately show ?thesis using assms(3)
    by (simp only: autoscale_zoom_def Let_def fst_conv snd_conv) (simp split: if_splits)
qed

section \<open>The number of ticks\<close>

lemma sqrt_10: "sqrt 10 \<le> 317 / 100" "0 < sqrt 10"
proof -
  have "(sqrt 10)\<^sup>2 \<le> (317 / 100 :: real)\<^sup>2" by (simp add: power_divide)
  then show "sqrt 10 \<le> 317 / 100" by (rule power2_le_imp_le) simp
  show "0 < sqrt 10" by simp
qed

lemma tick_ratio:
  assumes "0 < x" and d: "d = (power_int 10 (rint (log 10 x)) :: real)"
  shows "0 < d" "d * (100 / 317) \<le> x" "x \<le> d * (317 / 100)"
proof -
  define t where t: "t = log 10 x"
  define k where k: "k = rint t"
  have x: "x = 10 powr t" using assms(1) by (simp add: t)
  have d: "d = 10 powr of_int k" by (simp add: d k t powr_real_of_int')
  show "0 < d" by (simp add: d)
  have b: "of_int k \<le> t + 1 / 2" "t \<le> of_int k + 1 / 2"
    unfolding k rint_def by linarith+
  have half: "10 powr (1 / 2) = sqrt (10 :: real)" by (simp add: powr_half_sqrt)
  have "10 powr t \<le> 10 powr (of_int k + 1 / 2)" using b(2) by (intro powr_mono) auto
  also have "\<dots> = d * sqrt 10" by (simp only: powr_add d half)
  also have "\<dots> \<le> d * (317 / 100)" using \<open>0 < d\<close> sqrt_10 by (intro mult_left_mono) auto
  finally show "x \<le> d * (317 / 100)" by (simp only: x)
  have "10 powr of_int k \<le> 10 powr (t + 1 / 2)" using b(1) by (intro powr_mono) auto
  also have "\<dots> = 10 powr t * sqrt 10" by (simp only: powr_add half)
  also have "\<dots> \<le> 10 powr t * (317 / 100)" using sqrt_10 by (intro mult_left_mono) auto
  finally have "d \<le> x * (317 / 100)" by (simp only: x d)
  then show "d * (100 / 317) \<le> x" by simp
qed

lemma tick_distance_bounds:
  assumes "0 < x"
  shows "0 < tick_distance x \<and> 3 * tick_distance x < 5 * x \<and> 5 * x \<le> 8 * tick_distance x"
    and "\<exists>k. tick_distance x \<in> {power_int 10 k / 2, power_int 10 k, power_int 10 k * 2}"
proof -
  define d where dd: "d = (power_int 10 (rint (log 10 x)) :: real)"
  have d: "0 < d" "d * (100 / 317) \<le> x" "x \<le> d * (317 / 100)" using tick_ratio [OF assms dd] .
  consider (half) "\<bar>d / 2 - x\<bar> < \<bar>d - x\<bar>" | (double) "\<not> \<bar>d / 2 - x\<bar> < \<bar>d - x\<bar>" "\<bar>d * 2 - x\<bar> < \<bar>d - x\<bar>"
    | (same) "\<not> \<bar>d / 2 - x\<bar> < \<bar>d - x\<bar>" "\<not> \<bar>d * 2 - x\<bar> < \<bar>d - x\<bar>"
    by blast
  then show "0 < tick_distance x \<and> 3 * tick_distance x < 5 * x \<and> 5 * x \<le> 8 * tick_distance x"
  proof cases
    case half
    then have "tick_distance x = d / 2" by (simp add: tick_distance_def Let_def flip: dd)
    with half d show ?thesis by (auto simp: abs_if split: if_splits)
  next
    case double
    then have "tick_distance x = d * 2" by (simp add: tick_distance_def Let_def flip: dd)
    with double d show ?thesis by (auto simp: abs_if split: if_splits)
  next
    case same
    then have "tick_distance x = d" by (simp add: tick_distance_def Let_def flip: dd)
    with same d show ?thesis by (auto simp: abs_if split: if_splits)
  qed
  show "\<exists>k. tick_distance x \<in> {power_int 10 k / 2, power_int 10 k, power_int 10 k * 2}"
    by (rule exI [of _ "rint (log 10 x)"]) (simp add: tick_distance_def Let_def)
qed

lemma compute_divisions_value:
  "xi < xf \<Longrightarrow> compute_divisions xi xf =
     (let d = tick_distance ((xf - xi) / 5) in Inr (d * of_int \<lceil>xi / d\<rceil> - d, d))"
  by (simp add: compute_divisions_def division_round_def Let_def upt_rec)

lemma ticks_list: "0 < d \<Longrightarrow> ticks x xf d = map (\<lambda>i. x + of_nat i * d) [0..<nat \<lceil>(xf - x) / d\<rceil>]"
proof (induction x xf d rule: ticks.induct)
  case (1 x xf d)
  show ?case
  proof (cases "x < xf")
    case True
    let ?n = "nat \<lceil>(xf - x) / d\<rceil>"
    have pos: "0 < \<lceil>(xf - x) / d\<rceil>" using True 1(2) by (simp add: zero_less_ceiling)
    then have n: "?n = Suc (nat \<lceil>(xf - (x + d)) / d\<rceil>)"
      using 1(2) by (simp add: ceiling_next nat_diff_distrib)
    have "ticks x xf d = x # ticks (x + d) xf d" using True 1(2) by (subst ticks.simps) simp
    also have "\<dots> = x # map (\<lambda>i. x + d + of_nat i * d) [0..<nat \<lceil>(xf - (x + d)) / d\<rceil>]"
      using 1 True by simp
    also have "\<dots> = map (\<lambda>i. x + of_nat i * d) (0 # map Suc [0..<nat \<lceil>(xf - (x + d)) / d\<rceil>])"
      by (simp add: algebra_simps)
    also have "0 # map Suc [0..<nat \<lceil>(xf - (x + d)) / d\<rceil>] = [0..<?n]"
      unfolding n by (simp only: map_Suc_upt upt_conv_Cons zero_less_Suc)
    finally show ?thesis .
  next
    case False
    then have "\<lceil>(xf - x) / d\<rceil> \<le> 0" using 1(2) by (simp add: divide_le_0_iff)
    then show ?thesis using False by (subst ticks.simps) simp
  qed
qed

lemma axis_ticks_bounds:
  assumes "xi < xf"
  shows "\<exists>x0 d. compute_divisions xi xf = Inr (x0, d) \<and> 0 < d \<and> xi - d \<le> x0 \<and> x0 < xi \<and>
     (\<exists>k. d \<in> {power_int 10 k / 2, power_int 10 k, power_int 10 k * 2}) \<and>
     (\<exists>m :: int. x0 = of_int m * d) \<and>
     4 \<le> length (ticks x0 xf d) \<and> length (ticks x0 xf d) \<le> 9"
proof -
  let ?x = "(xf - xi) / 5"
  define d where d: "d = tick_distance ?x"
  define x0 where x0: "x0 = d * of_int \<lceil>xi / d\<rceil> - d"
  have x: "0 < ?x" using assms by simp
  have b: "0 < d" "3 * d < xf - xi" "xf - xi \<le> 8 * d"
    using tick_distance_bounds(1) [OF x, folded d] by simp_all
  have "xi / d \<le> of_int \<lceil>xi / d\<rceil>" "of_int \<lceil>xi / d\<rceil> < xi / d + 1" by linarith+
  then have "xi \<le> of_int \<lceil>xi / d\<rceil> * d" "of_int \<lceil>xi / d\<rceil> * d < (xi / d + 1) * d"
    using b(1) by (simp_all only: pos_divide_le_eq mult_less_cancel_right_pos)
  then have "xi \<le> d * of_int \<lceil>xi / d\<rceil>" "d * of_int \<lceil>xi / d\<rceil> < xi + d"
    using b(1) by (simp_all add: mult.commute distrib_left)
  then have start: "xi - d \<le> x0" "x0 < xi" by (simp_all add: x0)
  have "3 < (xf - x0) / d" "(xf - x0) / d \<le> 9" using b start by (simp_all add: field_simps)
  then have "4 \<le> \<lceil>(xf - x0) / d\<rceil>" "\<lceil>(xf - x0) / d\<rceil> \<le> 9" by linarith+
  moreover have "length (ticks x0 xf d) = nat \<lceil>(xf - x0) / d\<rceil>" by (simp add: ticks_list [OF b(1)])
  ultimately have "4 \<le> length (ticks x0 xf d)" "length (ticks x0 xf d) \<le> 9" by linarith+
  moreover have "x0 = of_int (\<lceil>xi / d\<rceil> - 1) * d" by (simp add: x0 algebra_simps)
  moreover have "compute_divisions xi xf = Inr (x0, d)"
    using compute_divisions_value [OF assms] by (simp add: Let_def d x0)
  ultimately show ?thesis using b(1) start tick_distance_bounds(2) [OF x, folded d] by blast
qed

section \<open>The labels of both axes\<close>

text \<open>
  Round ticks for a range: successive multiples of a power of ten, or of its half or its double, from the last
  one left of the range to the last one in it, between four and nine.
\<close>

definition round_ticks :: "real \<Rightarrow> real \<Rightarrow> real list \<Rightarrow> bool" where
  "round_ticks xi xf ts \<longleftrightarrow>
     (\<exists>d k m. d \<in> {power_int 10 k / 2, power_int 10 k, power_int 10 k * 2} \<and>
        ts = map (\<lambda>i. of_int (m + int i) * d) [0..<length ts] \<and>
        hd ts < xi \<and> xi \<le> hd ts + d \<and> last ts < xf \<and> xf \<le> last ts + d) \<and>
     4 \<le> length ts \<and> length ts \<le> 9"

lemma round_ticks_divisions:
  assumes "xi < xf"
  shows "\<exists>x0 d. compute_divisions xi xf = Inr (x0, d) \<and> round_ticks xi xf (ticks x0 xf d)"
proof -
  obtain x0 d k and m :: int where div: "compute_divisions xi xf = Inr (x0, d)" and d: "0 < d"
    and start: "xi - d \<le> x0" "x0 < xi" and k: "d \<in> {power_int 10 k / 2, power_int 10 k, power_int 10 k * 2}"
    and m: "x0 = of_int m * d" and n: "4 \<le> length (ticks x0 xf d)" "length (ticks x0 xf d) \<le> 9"
    using axis_ticks_bounds [OF assms] by blast
  define c where c: "c = nat \<lceil>(xf - x0) / d\<rceil>"
  have list: "ticks x0 xf d = map (\<lambda>i. x0 + of_nat i * d) [0..<c]" by (simp add: ticks_list [OF d] c)
  then have len: "length (ticks x0 xf d) = c" by simp
  have ts: "ticks x0 xf d = map (\<lambda>i. of_int (m + int i) * d) [0..<c]"
    unfolding list by (simp add: m distrib_right)
  have "[0..<c] \<noteq> []" using n(1) len by simp
  then have ends: "hd (ticks x0 xf d) = x0" "last (ticks x0 xf d) = x0 + of_nat (c - 1) * d"
    by (simp_all add: list hd_map last_map)
  have "of_nat (c - 1) < (xf - x0) / d" "(xf - x0) / d \<le> of_nat (c - 1) + 1"
    using n(1) unfolding len c by linarith+
  then have "x0 + of_nat (c - 1) * d < xf" "xf \<le> x0 + of_nat (c - 1) * d + d"
    using d by (simp_all add: pos_less_divide_eq pos_divide_le_eq distrib_right)
  then have "round_ticks xi xf (ticks x0 xf d)"
    unfolding round_ticks_def ends using ts len n k start by (intro conjI exI [of _ d] exI [of _ k] exI [of _ m]) auto
  with div show ?thesis by blast
qed

definition labels_ok :: "axis_label list \<Rightarrow> nat \<Rightarrow> bool" where
  "labels_ok ls fresh \<longleftrightarrow> distinct (map label_id ls) \<and> (\<forall>l \<in> set ls. label_id l < fresh)"

lemma place_label_step:
  assumes "place_label (used, unused, fresh) x = (used', unused', fresh')" "labels_ok (used @ unused) fresh"
  shows "labels_ok (used' @ unused') fresh' \<and> set unused' \<subseteq> set unused \<and>
     (\<exists>l. used' = used @ [l] \<and> label_visible l \<and> label_value l = x) \<and> length unused' = length unused - 1"
proof (cases unused)
  case Nil
  then show ?thesis using assms by (auto simp: place_label_def get_label_def labels_ok_def intro: less_SucI)
next
  case (Cons l rest)
  then show ?thesis using assms by (fastforce simp: place_label_def get_label_def labels_ok_def)
qed

lemma place_labels:
  assumes "labels_ok (used @ unused) fresh" "foldl place_label (used, unused, fresh) xs = (used', unused', fresh')"
  shows "labels_ok (used' @ unused') fresh' \<and> set unused' \<subseteq> set unused \<and>
     (\<exists>ls. used' = used @ ls \<and> (\<forall>l \<in> set ls. label_visible l) \<and> map label_value ls = xs) \<and>
     length unused' = length unused - length xs"
  using assms
proof (induction xs arbitrary: used unused fresh)
  case (Cons x xs)
  obtain used1 unused1 fresh1 where s: "place_label (used, unused, fresh) x = (used1, unused1, fresh1)"
    by (metis prod_cases3)
  obtain l where l: "used1 = used @ [l]" "label_visible l" "label_value l = x" "labels_ok (used1 @ unused1) fresh1"
      "set unused1 \<subseteq> set unused" "length unused1 = length unused - 1"
    using place_label_step [OF s Cons.prems(1)] by blast
  obtain ls where "labels_ok (used' @ unused') fresh'" "set unused' \<subseteq> set unused1" "used' = used1 @ ls"
      "\<forall>l \<in> set ls. label_visible l" "map label_value ls = xs" "length unused' = length unused1 - length xs"
    using Cons.IH [OF l(4)] Cons.prems(2) s by auto
  with l show ?case by (intro conjI exI [of _ "l # ls"]) auto
qed simp

section \<open>Properties\<close>

text \<open>
  C36: the axes. For a visible area that is not empty the labels that are shown after \<open>update_view\<close> stand at
  round ticks of the horizontal range, then at round ticks of the vertical one: between four and nine
  for each, whatever the zoom; no label is used twice, labels that are not needed are kept
  hidden, and none is made while there is one to use. An empty range raises \<open>AssertionError\<close>.
\<close>

theorem axes_labelled:
  assumes "labels_ok labels fresh"
  shows "if fst xs < snd xs \<and> fst ys < snd ys
     then \<exists>labels' fresh' tx ty. axes_update_view xs ys (labels, fresh) = Inr (labels', fresh') \<and>
       labels_ok labels' fresh' \<and> map label_value (filter label_visible labels') = tx @ ty \<and>
       round_ticks (fst xs) (snd xs) tx \<and> round_ticks (fst ys) (snd ys) ty \<and>
       length labels' = max (length labels) (length (tx @ ty))
     else axes_update_view xs ys (labels, fresh) = Inl AssertionError"
proof (cases "fst xs < snd xs \<and> fst ys < snd ys")
  case True
  obtain x0 dx where x: "compute_divisions (fst xs) (snd xs) = Inr (x0, dx)" "round_ticks (fst xs) (snd xs) (ticks x0 (snd xs) dx)"
    using round_ticks_divisions True by blast
  obtain y0 dy where y: "compute_divisions (fst ys) (snd ys) = Inr (y0, dy)" "round_ticks (fst ys) (snd ys) (ticks y0 (snd ys) dy)"
    using round_ticks_divisions True by blast
  let ?ts = "ticks x0 (snd xs) dx @ ticks y0 (snd ys) dy"
  let ?hidden = "map (label_visible_update (\<lambda>_. False)) labels"
  obtain used unused fresh' where s: "foldl place_label ([], ?hidden, fresh) ?ts = (used, unused, fresh')"
    by (metis prod_cases3)
  have "labels_ok ([] @ ?hidden) fresh" using assms by (simp add: labels_ok_def comp_def)
  from place_labels [OF this s]
  have ok: "labels_ok (used @ unused) fresh'" "set unused \<subseteq> set ?hidden" "\<forall>l \<in> set used. label_visible l"
      "map label_value used = ?ts" "length unused = length labels - length ?ts"
    by auto
  have "filter label_visible unused = []" using ok(2) by (auto simp: filter_empty_conv)
  then have "map label_value (filter label_visible (used @ unused)) = ?ts" using ok(3,4) by simp
  moreover have "length (used @ unused) = max (length labels) (length ?ts)"
    using ok(5) arg_cong [OF ok(4), of length] by simp
  moreover have "axes_update_view xs ys (labels, fresh) = Inr (used @ unused, fresh')"
    using s by (simp add: axes_update_view_def x y)
  ultimately show ?thesis using True ok(1) x(2) y(2) by auto
next
  case False
  then show ?thesis
    using round_ticks_divisions [of "fst xs" "snd xs"]
    by (cases "fst xs < snd xs") (auto simp: axes_update_view_def compute_divisions_def)
qed

theorem axes_labelled_witness:
  "\<exists>labels' fresh'. axes_update_view (0, 5) (0, 50) ([], 0) = Inr (labels', fresh') \<and>
     8 \<le> length labels' \<and> length labels' \<le> 18"
proof -
  have "labels_ok [] 0" by (simp add: labels_ok_def)
  from axes_labelled [OF this, of "(0, 5)" "(0, 50)"] obtain labels' fresh' tx ty where
    "axes_update_view (0, 5) (0, 50) ([], 0) = Inr (labels', fresh')"
    "round_ticks 0 5 tx" "round_ticks 0 50 ty" "length labels' = length (tx @ ty)"
    by auto
  then show ?thesis by (auto simp: round_ticks_def)
qed

end
