(* ===== verification/Viz_Shell.thy ===== *)
theory Viz_Shell
  imports Py_Prelude
begin

text \<open>
  The embedded shell of the visualizer, \<^verbatim>\<open>src/visualizer/visualizer/ipython_view.py\<close>: completion, history, the state
  between two inputs, and the splitting of text with colour sequences. The interpreter is a parameter; the text
  widget that shows the pieces is left out.
\<close>

section \<open>Completion\<close>

text \<open>\<open>[\s\{\}\[\]\(\)]\<close>.\<close>

definition complete_sep :: "char \<Rightarrow> bool" where
  "complete_sep c \<longleftrightarrow> is_space c \<or> c \<in> set ''{}[]()''"

text \<open>The last part of a line split at the separators.\<close>

definition last_part :: "string \<Rightarrow> string" where
  "last_part line = rev (takeWhile (\<lambda>c. \<not> complete_sep c) (rev line))"

function common_prefix_from :: "string \<Rightarrow> string \<Rightarrow> nat \<Rightarrow> string" where
  "common_prefix_from s1 s2 i =
     (if i < length s1
      then (if \<not> startswith s2 (take (i + 1) s1) then take i s1 else common_prefix_from s1 s2 (i + 1))
      else s1)"
  by pat_completeness auto
termination by (relation "measure (\<lambda>(s1, s2, i). length s1 - i)") auto

declare common_prefix_from.simps [simp del]

definition common_prefix :: "string \<Rightarrow> string \<Rightarrow> string" where
  "common_prefix s1 s2 = common_prefix_from s1 s2 0"

text \<open>The possibilities come from the interpreter; \<open>line[:-n]\<close> is the empty string for \<open>n = 0\<close>.\<close>

definition complete :: "(string \<Rightarrow> string list) \<Rightarrow> string \<Rightarrow> string \<times> string list" where
  "complete ip_complete line =
     (let word = last_part line; possibilities = ip_complete word
      in (if possibilities \<noteq> []
          then slice_to line (- int (length word)) @ foldl common_prefix (hd possibilities) (tl possibilities)
          else line,
          possibilities))"

section \<open>History and state\<close>

record shell =
  history_level :: int
  iter_more :: bool
  prompt_count :: int
  indent_nsp :: int
  prompt :: string

text \<open>An input is a line, an interrupt, or another exception.\<close>

datatype shell_input = InputLine string | Interrupt | Failure

text \<open>\<open>execute\<close>: \<open>push\<close> says whether the input needs another line; \<open>prompts\<close> gives the first and the second prompt.\<close>

definition execute :: "(string \<Rightarrow> bool) \<Rightarrow> (int \<Rightarrow> string \<times> string) \<Rightarrow> bool \<Rightarrow> shell_input \<Rightarrow> shell \<Rightarrow> shell" where
  "execute push prompts autoindent i s =
     (let s = s\<lparr>history_level := 0\<rparr>;
          s = (case i of
                 InputLine line \<Rightarrow> s\<lparr>iter_more := push line\<rparr>
               | Interrupt \<Rightarrow>
                   s\<lparr>prompt_count := prompt_count s - 1, indent_nsp := if autoindent then 0 else indent_nsp s,
                     iter_more := False\<rparr>
               | Failure \<Rightarrow> s)
      in s\<lparr>prompt := strip (if iter_more s then snd (prompts (prompt_count s)) else fst (prompts (prompt_count s)))\<rparr>)"

definition strip_newlines :: "string \<Rightarrow> string" where
  "strip_newlines s = rev (dropWhile (\<lambda>c. c = CHR 0x0A) (rev (dropWhile (\<lambda>c. c = CHR 0x0A) s)))"

text \<open>\<open>In[level].strip('\n')\<close>; an index out of range starts again.\<close>

definition get_history :: "string list \<Rightarrow> shell \<Rightarrow> string \<times> shell" where
  "get_history hist s =
     (case py_nth hist (history_level s) of
        Inl e \<Rightarrow> ([], s\<lparr>history_level := 0\<rparr>)
      | Inr line \<Rightarrow> (strip_newlines line, s))"

definition history_back :: "string list \<Rightarrow> shell \<Rightarrow> string \<times> shell" where
  "history_back hist s = get_history hist (s\<lparr>history_level := history_level s - 1\<rparr>)"

definition history_forward :: "string list \<Rightarrow> shell \<Rightarrow> string \<times> shell" where
  "history_forward hist s = get_history hist (s\<lparr>history_level := history_level s + 1\<rparr>)"

section \<open>Text with colours\<close>

text \<open>
  The matches of \<open>\x01?\x1b\[(.*?)m\x02?\<close>: an escape sequence up to the next \<open>m\<close> on the same line, with optional
  marks around it. The result of the splitting is the text before the first sequence, and for each sequence its tag
  and the text after it.
\<close>

definition skip_char :: "char \<Rightarrow> string \<Rightarrow> string" where
  "skip_char c s = (case s of [] \<Rightarrow> [] | x # xs \<Rightarrow> if x = c then xs else s)"

definition match_color :: "string \<Rightarrow> (string \<times> string) option" where
  "match_color s =
     (case literal [CHR 0x1B, CHR 0x5B] (skip_char CHR 0x01 s) of
        None \<Rightarrow> None
      | Some r \<Rightarrow>
          (case dropWhile (\<lambda>c. c \<noteq> CHR ''m'') r of
             [] \<Rightarrow> None
           | _ # rest \<Rightarrow>
               if CHR 0x0A \<in> set (takeWhile (\<lambda>c. c \<noteq> CHR ''m'') r) then None
               else Some (takeWhile (\<lambda>c. c \<noteq> CHR ''m'') r, skip_char CHR 0x02 rest)))"

lemma skip_char_le: "length (skip_char c s) \<le> length s"
  by (cases s) (simp_all add: skip_char_def)

lemma match_color_shorter: "match_color s = Some (tag, rest) \<Longrightarrow> length rest < length s"
proof -
  assume "match_color s = Some (tag, rest)"
  then obtain r c cs where r: "literal [CHR 0x1B, CHR 0x5B] (skip_char CHR 0x01 s) = Some r"
      "dropWhile (\<lambda>c. c \<noteq> CHR ''m'') r = c # cs" "rest = skip_char CHR 0x02 cs"
    by (auto simp: match_color_def split: option.splits list.splits if_splits)
  have "length r \<le> length s" using r(1) skip_char_le [of "CHR 0x01" s] by (auto simp: literal_def split: if_splits)
  moreover have "length (c # cs) \<le> length r" using length_dropWhile_le [of _ r] r(2) by metis
  ultimately show ?thesis using skip_char_le [of "CHR 0x02" cs] by (simp add: r(3))
qed

function color_split :: "string \<Rightarrow> string \<times> (string \<times> string) list" where
  "color_split [] = ([], [])"
| "color_split (c # cs) =
     (case match_color (c # cs) of
        Some (tag, rest) \<Rightarrow> (case color_split rest of (t, segs) \<Rightarrow> ([], (tag, t) # segs))
      | None \<Rightarrow> (case color_split cs of (t, segs) \<Rightarrow> (c # t, segs)))"
  by pat_completeness auto
termination by (relation "measure length") (auto dest: match_color_shorter)

text \<open>
  The loop of \<open>write\<close>: the segments after the first one are the tags and the texts in turn; for each tag its first
  occurrence among the segments is looked for, the segment after it is shown, and the occurrence is removed.
\<close>

fun write_loop :: "string list \<Rightarrow> string list \<Rightarrow> (string \<times> string option) list py" where
  "write_loop segments [] = Inr []"
| "write_loop segments (tag # tags) =
     (let i = length (takeWhile (\<lambda>s. s \<noteq> tag) segments)
      in if length segments \<le> i then Inl ValueError
         else if length segments \<le> i + 1 then Inl IndexError
         else py_bind (write_loop (take i segments @ drop (i + 1) segments) tags)
                (\<lambda>shown. Inr ((segments ! (i + 1), Some tag) # shown)))"

text \<open>The pieces that \<open>write\<close> inserts, each with its tag.\<close>

definition write_text :: "string \<Rightarrow> (string \<times> string option) list py" where
  "write_text text =
     (case color_split text of (segment, segs) \<Rightarrow>
        py_bind (write_loop (concat (map (\<lambda>(tag, t). [tag, t]) segs)) (map fst segs))
          (\<lambda>shown. Inr ((segment, None) # shown)))"

section \<open>The completion\<close>

lemma common_prefix_from_longest:
  assumes "prefix (take i s1) s2" "i \<le> length s1"
  shows "prefix (common_prefix_from s1 s2 i) s1 \<and> prefix (common_prefix_from s1 s2 i) s2 \<and>
     (\<forall>q. prefix q s1 \<longrightarrow> prefix q s2 \<longrightarrow> prefix q (common_prefix_from s1 s2 i))"
  using assms
proof (induction s1 s2 i rule: common_prefix_from.induct)
  case (1 s1 s2 i)
  consider (longer) "i < length s1" "prefix (take (i + 1) s1) s2" | (stop) "i < length s1" "\<not> prefix (take (i + 1) s1) s2"
    | (all) "i = length s1" using 1(3) by force
  then show ?case
  proof cases
    case longer
    with 1(1) show ?thesis by (simp add: common_prefix_from.simps [of s1 s2 i] startswith_def)
  next
    case stop
    then have r: "common_prefix_from s1 s2 i = take i s1"
      by (simp add: common_prefix_from.simps [of s1 s2 i] startswith_def)
    have "prefix q (take i s1)" if q: "prefix q s1" "prefix q s2" for q
    proof (cases "length q \<le> i")
      case True
      with q(1) show ?thesis by (metis prefix_def append_eq_conv_conj take_is_prefix prefix_length_prefix length_take min.absorb2 1(3))
    next
      case False
      then have "prefix (take (i + 1) s1) q"
        using q(1) by (metis Suc_eq_plus1 length_take min.cobounded2 min.coboundedI2 not_less_eq_eq prefix_length_prefix take_is_prefix le_trans)
      with q(2) stop(2) show ?thesis by (meson prefix_order.trans)
    qed
    with r 1(2) show ?thesis by (simp add: take_is_prefix)
  next
    case all
    with 1(2) show ?thesis by (simp add: common_prefix_from.simps [of s1 s2 "length s1"])
  qed
qed

definition longest_prefix_of :: "string list \<Rightarrow> string \<Rightarrow> bool" where
  "longest_prefix_of ps p \<longleftrightarrow> (\<forall>q \<in> set ps. prefix p q) \<and> (\<forall>r. (\<forall>q \<in> set ps. prefix r q) \<longrightarrow> prefix r p)"

lemma foldl_common_prefix:
  "longest_prefix_of ps p \<Longrightarrow> longest_prefix_of (ps @ qs) (foldl common_prefix p qs)"
proof (induction qs arbitrary: ps p)
  case (Cons q qs)
  have "prefix (common_prefix p q) p \<and> prefix (common_prefix p q) q \<and>
      (\<forall>r. prefix r p \<longrightarrow> prefix r q \<longrightarrow> prefix r (common_prefix p q))"
    unfolding common_prefix_def by (rule common_prefix_from_longest) simp_all
  then have "longest_prefix_of (ps @ [q]) (common_prefix p q)"
    using Cons.prems unfolding longest_prefix_of_def by (auto intro: prefix_order.trans)
  from Cons.IH [OF this] show ?case by simp
qed simp

lemma last_part_append:
  "line = base @ word \<Longrightarrow> list_all (\<lambda>c. \<not> complete_sep c) word \<Longrightarrow> base = [] \<or> complete_sep (last base) \<Longrightarrow>
     last_part line = word"
proof -
  assume a: "line = base @ word" "list_all (\<lambda>c. \<not> complete_sep c) word" "base = [] \<or> complete_sep (last base)"
  have "takeWhile (\<lambda>c. \<not> complete_sep c) (rev word @ rev base) = rev word @ takeWhile (\<lambda>c. \<not> complete_sep c) (rev base)"
    using a(2) by (intro takeWhile_append2) (simp add: list_all_iff)
  moreover have "takeWhile (\<lambda>c. \<not> complete_sep c) (rev base) = []"
    using a(3) by (cases base rule: rev_cases) auto
  ultimately show ?thesis by (simp add: last_part_def a(1))
qed

section \<open>The pieces of a coloured text\<close>

lemma write_loop_pieces:
  assumes "\<forall>t \<in> set before \<union> snd ` set segs. t \<notin> fst ` set segs"
  shows "write_loop (before @ concat (map (\<lambda>(tag, t). [tag, t]) segs)) (map fst segs) =
     Inr (map (\<lambda>(tag, t). (t, Some tag)) segs)"
  using assms
proof (induction segs arbitrary: before)
  case (Cons s segs)
  obtain tag t where s: "s = (tag, t)" by force
  let ?rest = "concat (map (\<lambda>(tag, t). [tag, t]) segs)"
  have "tag \<notin> set before" using Cons.prems by (auto simp: s)
  then have i: "takeWhile (\<lambda>x. x \<noteq> tag) (before @ tag # t # ?rest) = before" by (induction before) auto
  have "\<forall>x \<in> set (before @ [t]) \<union> snd ` set segs. x \<notin> fst ` set segs" using Cons.prems by (auto simp: s)
  from Cons.IH [OF this] show ?case by (simp add: s i nth_append Let_def)
qed simp

text \<open>A text as it is printed: a first segment, then coloured ones, each after the sequence of its tag.\<close>

definition printed :: "string \<Rightarrow> (string \<times> string) list \<Rightarrow> string" where
  "printed segment segs = segment @ concat (map (\<lambda>(tag, t). [CHR 0x1B, CHR 0x5B] @ tag @ [CHR ''m''] @ t) segs)"

definition plain_segment :: "string \<Rightarrow> bool" where
  "plain_segment s \<longleftrightarrow> list_all (\<lambda>c. c \<notin> {CHR 0x01, CHR 0x02, CHR 0x1B}) s"

definition plain_tag :: "string \<Rightarrow> bool" where
  "plain_tag s \<longleftrightarrow> list_all (\<lambda>c. c \<notin> {CHR 0x0A, CHR ''m''}) s"

lemma match_color_plain: "plain_segment (c # cs) \<Longrightarrow> match_color ((c # cs) @ rest) = None"
  by (auto simp: match_color_def plain_segment_def skip_char_def literal_def startswith_def)

lemma match_color_tag:
  assumes "plain_tag tag" "rest = [] \<or> hd rest \<noteq> CHR 0x02"
  shows "match_color ([CHR 0x1B, CHR 0x5B] @ tag @ [CHR ''m''] @ rest) = Some (tag, rest)"
proof -
  have "CHR ''m'' \<notin> set tag" "CHR 0x0A \<notin> set tag" using assms(1) by (auto simp: plain_tag_def list_all_iff)
  then have "dropWhile (\<lambda>c. c \<noteq> CHR ''m'') (tag @ CHR ''m'' # rest) = CHR ''m'' # rest"
      "takeWhile (\<lambda>c. c \<noteq> CHR ''m'') (tag @ CHR ''m'' # rest) = tag"
    by (induction tag) auto
  moreover have "skip_char CHR 0x02 rest = rest" using assms(2) by (cases rest) (simp_all add: skip_char_def)
  ultimately show ?thesis using \<open>CHR 0x0A \<notin> set tag\<close>
    by (simp add: match_color_def literal_def startswith_def skip_char_def)
qed

lemma color_split_plain:
  "plain_segment s \<Longrightarrow> color_split rest = ([], segs) \<Longrightarrow> color_split (s @ rest) = (s, segs)"
proof (induction s)
  case (Cons c s)
  then have "plain_segment s" by (simp add: plain_segment_def)
  with Cons match_color_plain [OF Cons.prems(1), of rest] show ?case by simp
qed simp

lemma color_split_printed:
  assumes "plain_segment segment" "\<forall>(tag, t) \<in> set segs. plain_tag tag \<and> plain_segment t"
  shows "color_split (printed segment segs) = (segment, segs)"
  using assms
proof (induction segs arbitrary: segment)
  case Nil
  then show ?case using color_split_plain [of segment "[]" "[]"] by (simp add: printed_def)
next
  case (Cons s segs)
  obtain tag t where s: "s = (tag, t)" by force
  then have ok: "plain_tag tag" "plain_segment t" using Cons.prems(2) by auto
  have IH: "color_split (printed t segs) = (t, segs)" using Cons.IH [OF ok(2)] Cons.prems(2) by simp
  have "printed t segs = [] \<or> hd (printed t segs) \<noteq> CHR 0x02"
    using ok(2) by (cases t; cases segs) (auto simp: printed_def plain_segment_def)
  from match_color_tag [OF ok(1) this]
  have "color_split ([CHR 0x1B, CHR 0x5B] @ tag @ [CHR ''m''] @ printed t segs) = ([], (tag, t) # segs)"
    by (simp add: IH)
  from color_split_plain [OF Cons.prems(1) this] show ?case by (simp add: printed_def s)
qed

text \<open>
  A text that is printed as plain segments, each after the colour sequence of its tag, is shown
  as exactly these segments with their tags, as long as no segment is equal to one of the tags.
\<close>

lemma coloured_text_shown:
  assumes "plain_segment segment" and "\<forall>(tag, t) \<in> set segs. plain_tag tag \<and> plain_segment t"
    and "\<forall>t \<in> snd ` set segs. t \<notin> fst ` set segs"
  shows "write_text (printed segment segs) = Inr ((segment, None) # map (\<lambda>(tag, t). (t, Some tag)) segs)"
  using write_loop_pieces [of "[]" segs] assms(3) by (simp add: write_text_def color_split_printed [OF assms(1,2)])

text \<open>A text that equals a tag is taken for one: here the empty last segment is shown as \<open>0\<close>.\<close>

lemma write_text_confused:
  "write_text (printed [] [(''0;31'', ''x''), (''0'', ''0''), (''0'', [])]) =
     Inr [([], None), (''x'', Some ''0;31''), (''0'', Some ''0''), (''0'', Some ''0'')]"
  by code_simp

section \<open>The history\<close>

lemma get_history_entry:
  assumes "history_level s = - int k" "0 < k" "k \<le> length hist"
  shows "get_history hist s = (strip_newlines (hist ! (length hist - k)), s)"
proof -
  have "nat (int (length hist) + - int k) = length hist - k" by simp
  then show ?thesis using assms by (simp add: get_history_def py_nth_def Let_def)
qed

text \<open>Going back shows the entries from the last one on, and then starts again with the empty line.\<close>

lemma history_backwards:
  assumes "history_level s = - int k" "k \<le> length hist"
  shows "history_back hist s =
     (if k < length hist then (strip_newlines (hist ! (length hist - Suc k)), s\<lparr>history_level := - int (Suc k)\<rparr>)
      else ([], s\<lparr>history_level := 0\<rparr>))"
proof (cases "k < length hist")
  case True
  have level: "history_level s - 1 = - int (Suc k)" using assms(1) by simp
  have "get_history hist (s\<lparr>history_level := - int (Suc k)\<rparr>) =
      (strip_newlines (hist ! (length hist - Suc k)), s\<lparr>history_level := - int (Suc k)\<rparr>)"
    by (rule get_history_entry) (use True in simp_all)
  with True show ?thesis unfolding history_back_def level by simp
next
  case False
  then show ?thesis using assms by (simp add: history_back_def get_history_def py_nth_def Let_def)
qed

section \<open>Property\<close>

text \<open>
  The completion of a line. When the interpreter has possibilities for the last word of a line, the word is
  replaced by their longest common prefix and the rest of the line is kept; but when the line ends with a
  separator, so that the word is empty, the rest of the line is lost.
\<close>

lemma completion_replaces_word:
  assumes "list_all (\<lambda>c. \<not> complete_sep c) word" and "base = [] \<or> complete_sep (last base)" and "ip_complete word \<noteq> []"
  shows "\<exists>p. longest_prefix_of (ip_complete word) p \<and>
     complete ip_complete (base @ word) = (if word = [] then p else base @ p, ip_complete word)"
proof -
  let ?ps = "ip_complete word" and ?p = "foldl common_prefix (hd (ip_complete word)) (tl (ip_complete word))"
  have "longest_prefix_of [hd ?ps] (hd ?ps)" by (simp add: longest_prefix_of_def)
  from foldl_common_prefix [OF this, of "tl ?ps"] assms(3) have "longest_prefix_of ?ps ?p" by simp
  moreover have "last_part (base @ word) = word" by (rule last_part_append [OF refl assms(1,2)])
  moreover have "slice_to (base @ word) (- int (length word)) = (if word = [] then [] else base)"
    by (simp add: slice_to_def slice_bound_def)
  ultimately show ?thesis using assms(3) by (intro exI [of _ ?p]) (simp add: complete_def Let_def)
qed

end
