(* ===== verification/Viz_Tables.thy ===== *)
theory Viz_Tables
  imports Viz_Traffic
begin

text \<open>
  What surrounds the scene of the visualizer: the table of device types and the loading of plugins
  (\<^verbatim>\<open>src/visualizer/visualizer/base.py\<close>), and the contents of the information windows of the plugins
  \<open>show_last_packets.py\<close>, \<open>ipv4_routing_table.py\<close>, \<open>olsr.py\<close> and \<open>interface_statistics.py\<close>. What the
  simulator returns is a parameter; the windows themselves are left out.
\<close>

section \<open>Device types\<close>

definition netdevice_traits :: "(string, traits) dict" where
  "netdevice_traits =
     (let wired = \<lparr>is_wireless = Some False, is_virtual = False\<rparr>; wireless = \<lparr>is_wireless = Some True, is_virtual = False\<rparr>;
          virtual = \<lparr>is_wireless = None, is_virtual = True\<rparr>
      in [(''PointToPointNetDevice'', wired), (''CsmaNetDevice'', wired), (''WifiNetDevice'', wireless),
          (''BridgeNetDevice'', virtual), (''LoopbackNetDevice'', \<lparr>is_wireless = Some False, is_virtual = True\<rparr>),
          (''MeshPointDevice'', virtual), (''SubscriberStationNetDevice'', wireless), (''BaseStationNetDevice'', wireless),
          (''LteUeNetDevice'', wireless), (''LteEnbNetDevice'', wireless)])"

text \<open>Links are drawn for the devices of two types only; an unknown type counts as wireless.\<close>

lemma linked_device_types:
  "(let tr = fst (lookup_netdevice_traits netdevice_traits t) in is_wireless tr \<noteq> Some True \<and> \<not> is_virtual tr) \<longleftrightarrow>
     t = ''PointToPointNetDevice'' \<or> t = ''CsmaNetDevice''"
  by (simp add: lookup_netdevice_traits_def netdevice_traits_def Let_def split: if_split del: not_None_eq not_Some_eq)

text \<open>The constructor accepts every entry of the table.\<close>

lemma netdevice_traits_valid:
  "\<forall>(t, tr) \<in> set netdevice_traits. NetDeviceTraits (is_wireless tr) (is_virtual tr) = Inr tr"
  by (simp add: netdevice_traits_def NetDeviceTraits_def Let_def del: not_None_eq)

section \<open>Plugins\<close>

text \<open>What importing a module gives: its \<open>register\<close> function, if it has one, or an exception.\<close>

datatype imported = Module "nat option" | ImportFails | ImportRaises

text \<open>A module stands for itself by its function.\<close>

record plugin_state =
  plugins :: "nat list"
  plugin_modules :: "(string, nat) dict"
  plugins_loaded :: bool
  sys_path :: "string list"

definition register_plugin :: "nat \<Rightarrow> string \<Rightarrow> plugin_state \<Rightarrow> plugin_state" where
  "register_plugin f name s =
     s\<lparr>plugins := plugins s @ [f], plugin_modules := AList.update name f (plugin_modules s)\<rparr>"

text \<open>\<open>os.path.splitext\<close> of a file's name; leading dots begin no extension.\<close>

definition splitext :: "string \<Rightarrow> string \<times> string" where
  "splitext s =
     (case dropWhile (\<lambda>c. c \<noteq> CHR ''.'') (rev s) of
        [] \<Rightarrow> (s, [])
      | _ # base \<Rightarrow>
          if list_all (\<lambda>c. c = CHR ''.'') base then (s, [])
          else (rev base, CHR ''.'' # rev (takeWhile (\<lambda>c. c \<noteq> CHR ''.'') (rev s))))"

fun load_files :: "(string \<Rightarrow> imported) \<Rightarrow> string list \<Rightarrow> plugin_state \<Rightarrow> plugin_state \<times> bool" where
  "load_files import_module [] s = (s, True)"
| "load_files import_module (f # fs) s =
     (case splitext f of (name, ext) \<Rightarrow>
        if ext \<noteq> ''.py'' then load_files import_module fs s
        else (case import_module name of
            Module (Some r) \<Rightarrow> load_files import_module fs (register_plugin r name s)
          | Module None \<Rightarrow> load_files import_module fs s
          | ImportFails \<Rightarrow> load_files import_module fs s
          | ImportRaises \<Rightarrow> (s, False)))"

text \<open>The result says whether the function returns; an exception leaves the changed path.\<close>

definition load_plugins :: "(string \<Rightarrow> imported) \<Rightarrow> string \<Rightarrow> string list \<Rightarrow> plugin_state \<Rightarrow> plugin_state \<times> bool" where
  "load_plugins import_module plugins_dir files s =
     (if plugins_loaded s then (s, True)
      else
        (case load_files import_module files (s\<lparr>plugins_loaded := True, sys_path := plugins_dir # sys_path s\<rparr>) of
           (s', returns) \<Rightarrow> (if returns then s'\<lparr>sys_path := sys_path s\<rparr> else s', returns)))"

definition plugin_of :: "(string \<Rightarrow> imported) \<Rightarrow> string \<Rightarrow> nat list" where
  "plugin_of import_module f =
     (if snd (splitext f) = ''.py''
      then (case import_module (fst (splitext f)) of Module (Some r) \<Rightarrow> [r] | _ \<Rightarrow> []) else [])"

lemma load_files_plugins:
  assumes "\<forall>f \<in> set files. import_module (fst (splitext f)) \<noteq> ImportRaises"
  shows "\<exists>s'. load_files import_module files s = (s', True) \<and>
     plugins s' = plugins s @ concat (map (plugin_of import_module) files) \<and>
     plugins_loaded s' = plugins_loaded s \<and> sys_path s' = sys_path s"
  using assms
proof (induction files arbitrary: s)
  case (Cons f fs)
  obtain name ext where f: "splitext f = (name, ext)" by force
  have IH: "\<exists>s'. load_files import_module fs s = (s', True) \<and>
      plugins s' = plugins s @ concat (map (plugin_of import_module) fs) \<and>
      plugins_loaded s' = plugins_loaded s \<and> sys_path s' = sys_path s" for s
    using Cons by simp
  show ?case
  proof (cases "\<exists>r. ext = ''.py'' \<and> import_module name = Module (Some r)")
    case True
    then obtain r where r: "ext = ''.py''" "import_module name = Module (Some r)" by blast
    obtain s' where "load_files import_module fs (register_plugin r name s) = (s', True)"
        "plugins s' = plugins (register_plugin r name s) @ concat (map (plugin_of import_module) fs)"
        "plugins_loaded s' = plugins_loaded s" "sys_path s' = sys_path s"
      using IH [of "register_plugin r name s"] by (auto simp: register_plugin_def)
    moreover have "plugin_of import_module f = [r]" by (simp add: f r plugin_of_def)
    ultimately show ?thesis by (simp add: f r register_plugin_def)
  next
    case False
    then have "load_files import_module (f # fs) s = load_files import_module fs s" "plugin_of import_module f = []"
      using Cons.prems by (auto simp: f plugin_of_def split: imported.splits option.splits)
    with IH [of s] show ?thesis by simp
  qed
qed simp

text \<open>The plugins are loaded once, in the order of the directory, and the path is as before.\<close>

lemma load_plugins_once:
  assumes "\<forall>f \<in> set files. import_module (fst (splitext f)) \<noteq> ImportRaises" and "\<not> plugins_loaded s"
  shows "\<exists>s'. load_plugins import_module dir files s = (s', True) \<and>
     plugins s' = plugins s @ concat (map (plugin_of import_module) files) \<and> sys_path s' = sys_path s \<and>
     load_plugins import_module dir files' s' = (s', True)"
proof -
  obtain s' where "load_files import_module files (s\<lparr>plugins_loaded := True, sys_path := dir # sys_path s\<rparr>) = (s', True)"
      "plugins s' = plugins s @ concat (map (plugin_of import_module) files)" "plugins_loaded s'"
    using load_files_plugins [OF assms(1), of "s\<lparr>plugins_loaded := True, sys_path := dir # sys_path s\<rparr>"] by auto
  then show ?thesis using assms(2) by (intro exI [of _ "s'\<lparr>sys_path := sys_path s\<rparr>"]) (simp add: load_plugins_def)
qed

section \<open>The packet filter of \<open>show_last_packets.py\<close>\<close>

text \<open>
  A type identifier is its number in the simulator's table, and \<open>parent\<close> is the simulator's relation.
  The search climbs from a type to the header or trailer type; nothing in the code bounds it.
\<close>

partial_function (option) type_is_good :: "(nat \<Rightarrow> nat option) \<Rightarrow> nat \<Rightarrow> nat \<Rightarrow> nat \<Rightarrow> bool option" where
  "type_is_good parent hdr trl t =
     (if t = hdr \<or> t = trl then Some True
      else (case parent t of Some p \<Rightarrow> type_is_good parent hdr trl p | None \<Rightarrow> Some False))"

declare type_is_good.simps [code]

record type_id_config =
  tc_name :: string
  tc_selected :: bool
  tc_typeid :: nat

fun packet_filter_list ::
  "(nat \<Rightarrow> nat option) \<Rightarrow> (nat \<Rightarrow> string) \<Rightarrow> nat \<Rightarrow> nat \<Rightarrow> nat list \<Rightarrow> type_id_config list option" where
  "packet_filter_list parent type_name hdr trl [] = Some []"
| "packet_filter_list parent type_name hdr trl (t # ts) =
     (case type_is_good parent hdr trl t of
        None \<Rightarrow> None
      | Some good \<Rightarrow>
          (case packet_filter_list parent type_name hdr trl ts of
             None \<Rightarrow> None
           | Some cs \<Rightarrow>
               if \<not> good \<or> t \<in> {hdr, trl} then Some cs
               else Some (\<lparr>tc_name = type_name t, tc_selected = True, tc_typeid = t\<rparr> # cs)))"

datatype capture_mode = FilterHeadersAnd | FilterHeadersOr

record capture_options =
  capture_mode_of :: capture_mode
  num_last_packets :: nat
  capture_headers :: "nat list"

text \<open>
  The window: the filter's rows, the state of the AND button, the options it keeps and those the
  simulator has been given for the node. The options are set inside the simulation's lock.
\<close>

record packet_window =
  filter_list :: "type_id_config list"
  op_and :: bool
  installed_options :: capture_options

definition update_capture_options :: "packet_window \<Rightarrow> packet_window" where
  "update_capture_options w =
     w\<lparr>installed_options :=
         \<lparr>capture_mode_of = (if op_and w then FilterHeadersAnd else FilterHeadersOr), num_last_packets = 100,
          capture_headers = map tc_typeid (filter tc_selected (filter_list w))\<rparr>\<rparr>"

definition select_types :: "bool \<Rightarrow> packet_window \<Rightarrow> packet_window" where
  "select_types b w = update_capture_options (w\<lparr>filter_list := map (\<lambda>c. c\<lparr>tc_selected := b\<rparr>) (filter_list w)\<rparr>)"

text \<open>What the user does: the two buttons, the radio buttons and the edit of a cell of the list.\<close>

datatype packet_event = SelectAll | SelectNone | ChooseOp bool | EditCell nat bool

fun packet_event_cb :: "packet_window \<Rightarrow> packet_event \<Rightarrow> packet_window" where
  "packet_event_cb w SelectAll = select_types True w"
| "packet_event_cb w SelectNone = select_types False w"
| "packet_event_cb w (ChooseOp b) = (if op_and w = b then w else update_capture_options (w\<lparr>op_and := b\<rparr>))"
| "packet_event_cb w (EditCell i b) =
     update_capture_options (w\<lparr>filter_list := update_nth i (\<lambda>c. c\<lparr>tc_selected := b\<rparr>) (filter_list w)\<rparr>)"

definition open_packet_window :: "capture_options \<Rightarrow> type_id_config list \<Rightarrow> packet_window" where
  "open_packet_window options cs =
     update_capture_options \<lparr>filter_list = cs, op_and = False, installed_options = options\<rparr>"

section \<open>The rows of the tables\<close>

text \<open>\<open>ns.core.Names.FindName\<close> is the parameter \<open>find_name\<close>, with the empty string for an object without a name.\<close>

definition named_interface :: "(nat \<Rightarrow> string) \<Rightarrow> nat \<Rightarrow> int \<Rightarrow> string" where
  "named_interface find_name device i =
     (if find_name device = [] then ''(interface '' @ str_int i @ '')'' else find_name device)"

record packet_sample =
  ps_time :: string
  ps_device :: "(nat \<times> int) option"
  ps_size :: int
  ps_contents :: string

definition packet_rows :: "(nat \<Rightarrow> string) \<Rightarrow> packet_sample list \<Rightarrow> (string \<times> string \<times> string \<times> string) list" where
  "packet_rows find_name samples =
     map (\<lambda>p. (ps_time p,
        case ps_device p of None \<Rightarrow> ''(unknown)'' | Some (d, i) \<Rightarrow> named_interface find_name d i,
        str_int (ps_size p), ps_contents p)) samples"

record route =
  route_dest :: string
  route_gateway :: string
  route_interface :: int

definition route_interface_name :: "(nat \<Rightarrow> string) \<Rightarrow> (int \<Rightarrow> nat option) \<Rightarrow> int \<Rightarrow> string" where
  "route_interface_name find_name get_net_device i =
     (case get_net_device i of None \<Rightarrow> ''lo'' | Some d \<Rightarrow> named_interface find_name d i)"

datatype protocol =
    StaticRouting "route list"
  | GlobalRouting "route list"
  | ListRouting "(protocol \<times> int) list"
  | OtherRouting

fun list_protocol :: "protocol \<times> int \<Rightarrow> (route list \<times> string \<times> int) list" where
  "list_protocol (StaticRouting rs, prio) = [(rs, ''static'', prio)]"
| "list_protocol (GlobalRouting rs, prio) = [(rs, ''global'', prio)]"
| "list_protocol _ = []"

fun routing_protocols :: "protocol \<Rightarrow> (route list \<times> string \<times> int) list" where
  "routing_protocols (StaticRouting rs) = [(rs, ''static'', 0)]"
| "routing_protocols (ListRouting ps) = concat (map list_protocol ps)"
| "routing_protocols _ = []"

type_synonym routing_row = "string \<times> string \<times> string \<times> string \<times> int"

definition route_row :: "(nat \<Rightarrow> string) \<Rightarrow> (int \<Rightarrow> nat option) \<Rightarrow> string \<Rightarrow> int \<Rightarrow> route \<Rightarrow> routing_row" where
  "route_row find_name get_net_device kind prio r =
     (route_dest r, route_gateway r, route_interface_name find_name get_net_device (route_interface r), kind, prio)"

definition update_routing_table ::
  "(nat \<Rightarrow> string) \<Rightarrow> (int \<Rightarrow> nat option) \<Rightarrow> protocol option \<Rightarrow> routing_row list \<Rightarrow> routing_row list" where
  "update_routing_table find_name get_net_device routing table =
     (case routing of
        None \<Rightarrow> table
      | Some p \<Rightarrow>
          if routing_protocols p = [] then table
          else foldl (\<lambda>t (rs, kind, prio). foldl (\<lambda>t r. t @ [route_row find_name get_net_device kind prio r]) t rs)
                 [] (routing_protocols p))"

text \<open>The table of OLSR: a node without the protocol keeps what the table shows.\<close>

definition update_olsr_table ::
  "(nat \<Rightarrow> string) \<Rightarrow> (int \<Rightarrow> nat option) \<Rightarrow> (route \<times> int) list option \<Rightarrow>
     (string \<times> string \<times> string \<times> int) list \<Rightarrow> (string \<times> string \<times> string \<times> int) list" where
  "update_olsr_table find_name get_net_device entries table =
     (case entries of
        None \<Rightarrow> table
      | Some es \<Rightarrow>
          map (\<lambda>(r, hops). (route_dest r, route_gateway r,
                 route_interface_name find_name get_net_device (route_interface r), hops)) es)"

section \<open>The filter's types\<close>

text \<open>
  A search that returns true has climbed to one of the two types, and one that returns false has
  found neither; a search that climbs to smaller numbers, or at least never in a circle, returns.
\<close>

definition parent_step :: "(nat \<Rightarrow> nat option) \<Rightarrow> nat \<Rightarrow> nat \<Rightarrow> bool" where
  "parent_step parent t p = (parent t = Some p)"

lemma type_is_good_returns:
  assumes "wfP (\<lambda>p t. parent t = Some p)"
  shows "type_is_good parent hdr trl t = Some (\<exists>a. (parent_step parent)\<^sup>*\<^sup>* t a \<and> a \<in> {hdr, trl})"
  using assms
proof (induction t rule: wfp_induct_rule)
  case (less t)
  show ?case
  proof (cases "t \<in> {hdr, trl}")
    case True
    then show ?thesis by (subst type_is_good.simps) auto
  next
    case False
    show ?thesis
    proof (cases "parent t")
      case None
      then have "(parent_step parent)\<^sup>*\<^sup>* t a \<Longrightarrow> a = t" for a
        by (auto simp: parent_step_def elim: converse_rtranclpE)
      with False None show ?thesis by (subst type_is_good.simps) auto
    next
      case (Some p)
      have "(parent_step parent)\<^sup>*\<^sup>* t a \<longleftrightarrow> a = t \<or> (parent_step parent)\<^sup>*\<^sup>* p a" for a
        using Some by (auto simp: parent_step_def elim: converse_rtranclpE intro: converse_rtranclp_into_rtranclp)
      with False Some less.IH [OF Some] show ?thesis by (subst type_is_good.simps) auto
    qed
  qed
qed

text \<open>The filter lists the proper descendants of the two types, in the order of the simulator's table.\<close>

lemma packet_filter_list_types:
  assumes "wfP (\<lambda>p t. parent t = Some p)"
  shows "packet_filter_list parent type_name hdr trl ts =
     Some (map (\<lambda>t. \<lparr>tc_name = type_name t, tc_selected = True, tc_typeid = t\<rparr>)
       (filter (\<lambda>t. t \<notin> {hdr, trl} \<and> (\<exists>a. (parent_step parent)\<^sup>*\<^sup>* t a \<and> a \<in> {hdr, trl})) ts))"
  by (induction ts) (auto simp: type_is_good_returns [OF assms])

text \<open>The simulator always has the options that the window shows.\<close>

definition shows_options :: "packet_window \<Rightarrow> bool" where
  "shows_options w = (update_capture_options w = w)"

lemma shows_options_update [simp]: "shows_options (update_capture_options w)"
  by (simp add: shows_options_def update_capture_options_def)

lemma packet_event_shows: "shows_options w \<Longrightarrow> shows_options (packet_event_cb w e)"
  by (cases e) (simp_all add: select_types_def)

lemma packet_window_shows:
  "shows_options (foldl packet_event_cb (open_packet_window options cs) es)"
proof -
  have "shows_options w \<Longrightarrow> shows_options (foldl packet_event_cb w es)" for w
    by (induction es arbitrary: w) (simp_all add: packet_event_shows)
  then show ?thesis by (simp add: open_packet_window_def)
qed

lemma packet_window_types:
  "map tc_typeid (filter_list (foldl packet_event_cb (open_packet_window options cs) es)) = map tc_typeid cs"
proof -
  have "map tc_typeid (update_nth i (\<lambda>c. c\<lparr>tc_selected := b\<rparr>) xs) = map tc_typeid xs" for i b and xs :: "type_id_config list"
    unfolding update_nth_def by (induction xs arbitrary: i) (simp_all split: nat.split)
  then have "map tc_typeid (filter_list (packet_event_cb w e)) = map tc_typeid (filter_list w)" for w e
    by (cases e) (simp_all add: select_types_def update_capture_options_def comp_def)
  then have "map tc_typeid (filter_list (foldl packet_event_cb w es)) = map tc_typeid (filter_list w)" for w
    by (induction es arbitrary: w) simp_all
  then show ?thesis by (simp add: open_packet_window_def update_capture_options_def)
qed

text \<open>After the second button the simulator filters by no header, after the first by every listed one.\<close>

lemma select_types_headers:
  "capture_headers (installed_options (packet_event_cb w SelectNone)) = []"
  "capture_headers (installed_options (packet_event_cb w SelectAll)) = map tc_typeid (filter_list w)"
  by (simp_all add: select_types_def update_capture_options_def comp_def filter_map)

section \<open>What the tables show\<close>

lemma foldl_append_rows: "foldl (\<lambda>t r. t @ [g r]) t rs = t @ map g rs"
  by (induction rs arbitrary: t) simp_all

lemma routing_table_rows:
  assumes "routing_protocols p \<noteq> []"
  shows "update_routing_table find_name get_net_device (Some p) table =
     concat (map (\<lambda>(rs, kind, prio). map (route_row find_name get_net_device kind prio) rs) (routing_protocols p))"
proof -
  have "foldl (\<lambda>t (rs, kind, prio). foldl (\<lambda>t r. t @ [route_row find_name get_net_device kind prio r]) t rs) t ps =
      t @ concat (map (\<lambda>(rs, kind, prio). map (route_row find_name get_net_device kind prio) rs) ps)" for t ps
    by (induction ps arbitrary: t) (auto simp: foldl_append_rows)
  then show ?thesis using assms by (simp add: update_routing_table_def)
qed

text \<open>
  A node whose protocol is global routing alone, or a list that holds no static or global routing,
  shows nothing; a list within a list is passed over. A node that loses its protocol keeps its rows.
\<close>

lemma routing_table_kept:
  "update_routing_table find_name get_net_device None table = table"
  "update_routing_table find_name get_net_device (Some (GlobalRouting rs)) table = table"
  "update_routing_table find_name get_net_device (Some (ListRouting [(ListRouting ps, prio)])) table = table"
  by (simp_all add: update_routing_table_def)

lemma route_interface_name_nonempty: "route_interface_name find_name get_net_device i \<noteq> []"
  by (simp add: route_interface_name_def named_interface_def split: option.split)

end
