(* ===== verification/Waf_Misc.thy ===== *)
theory Waf_Misc
  imports Create_Module Shell_Cmd
begin

text \<open>
  \<^verbatim>\<open>waf-tools/misc.py\<close>: tasks that copy a file, replace variables in a file, or run a command whose inputs and
  outputs are declared. Finding and declaring nodes is the interface of waf: a folder gives for a
  name a node or nothing. It is shown which text the replacement writes, also when several files share one
  dictionary, and that a command touches declared files only.
\<close>

section \<open>Nodes\<close>

record fnode =
  abspath :: string
  bldpath :: string
  src_path :: string
  node_name :: string

record folder =
  find_resource :: "string \<Rightarrow> fnode option"
  find_or_declare :: "string \<Rightarrow> fnode option"
  find_dir :: "string \<Rightarrow> fnode option"

section \<open>Replacing variables in a file\<close>

text \<open>The matches of \<open>@(\w+)@\<close>, from left to right, and the characters between them.\<close>

abbreviation at_sign :: char where
  "at_sign \<equiv> CHR 0x40"

datatype m4_piece = Chr char | Var string

definition m4_match :: "string \<Rightarrow> (string \<times> string) option" where
  "m4_match s =
     (case dropWhile word_char s of
        c # rest \<Rightarrow> if c = at_sign \<and> takeWhile word_char s \<noteq> [] then Some (takeWhile word_char s, rest) else None
      | [] \<Rightarrow> None)"

lemma m4_match_shorter: "m4_match s = Some (w, r) \<Longrightarrow> length r < length s"
  using length_dropWhile_le [of word_char s] by (auto simp: m4_match_def split: list.splits if_splits)

function m4 :: "string \<Rightarrow> m4_piece list" where
  "m4 [] = []"
| "m4 (c # cs) =
     (case (if c = at_sign then m4_match cs else None) of
        Some (w, rest) \<Rightarrow> Var w # m4 rest
      | None \<Rightarrow> Chr c # m4 cs)"
  by pat_completeness auto
termination
  by (relation "measure length") (auto dest: m4_match_shorter split: if_splits)

definition m4_names :: "string \<Rightarrow> string list" where
  "m4_names s = concat (map (\<lambda>p. case p of Chr c \<Rightarrow> [] | Var w \<Rightarrow> [w]) (m4 s))"

definition m4_place :: "m4_piece \<Rightarrow> string" where
  "m4_place p = (case p of Chr c \<Rightarrow> [c] | Var w \<Rightarrow> [CHR 0x25, CHR 0x28] @ w @ [CHR 0x29, CHR ''s''])"

definition m4_sub :: "string \<Rightarrow> string" where
  "m4_sub s = concat (map m4_place (m4 s))"

text \<open>\<open>code.replace('%', '%%')\<close>.\<close>

definition double_percent :: "string \<Rightarrow> string" where
  "double_percent s = concat (map (\<lambda>c. if c = CHR 0x25 then [c, c] else [c]) s)"

text \<open>\<open>env.get_flat(i) or env.get_flat(i.upper())\<close>.\<close>

definition env_value :: "(string \<Rightarrow> string) \<Rightarrow> string \<Rightarrow> string" where
  "env_value get_flat i = (if get_flat i \<noteq> [] then get_flat i else get_flat (map char_upper i))"

text \<open>
  The dictionary belongs to the generator and is shared by its tasks: an empty one is filled from the environment by
  the first task that runs. The result is the new dictionary and the text that is written.
\<close>

definition subst_func :: "(string \<Rightarrow> string) \<Rightarrow> (string, string) dict \<Rightarrow> string \<Rightarrow> (string, string) dict \<times> string py" where
  "subst_func get_flat di code =
     (let code = double_percent code;
          s = m4_sub code;
          di = (if di = [] then foldl (\<lambda>d i. AList.update i (env_value get_flat i) d) di (m4_names code) else di)
      in (di, format_dict s di))"

fun subst_tasks :: "(string \<Rightarrow> string) \<Rightarrow> (string, string) dict \<Rightarrow> string list \<Rightarrow> string py list" where
  "subst_tasks get_flat di [] = []"
| "subst_tasks get_flat di (code # codes) =
     (case subst_func get_flat di code of (di, r) \<Rightarrow> r # subst_tasks get_flat di codes)"

text \<open>The tasks of \<open>apply_subst\<close> and \<open>apply_copy\<close>: a source node and a target node each.\<close>

definition declared :: "fnode option \<Rightarrow> fnode py" where
  "declared n = (case n of None \<Rightarrow> Inl WafError | Some n \<Rightarrow> Inr n)"

definition apply_subst :: "folder \<Rightarrow> (fnode \<Rightarrow> string \<Rightarrow> fnode) \<Rightarrow> string list \<Rightarrow> string \<Rightarrow> (fnode \<times> fnode option) list py" where
  "apply_subst path change_ext source target =
     py_map (\<lambda>filename. py_bind (declared (find_resource path filename)) (\<lambda>node.
         Inr (node, if target \<noteq> [] then find_or_declare path target else Some (change_ext node [])))) source"

definition apply_copy :: "folder \<Rightarrow> string list \<Rightarrow> string \<Rightarrow> (fnode \<times> fnode option) list py" where
  "apply_copy path lst target =
     py_map (\<lambda>filename. py_bind (declared (find_resource path filename)) (\<lambda>node.
         Inr (node, find_or_declare path (if target = [] \<or> 1 < length lst then node_name node else target)))) lst"

text \<open>\<open>copy_func\<close>: the copy may fail; the mode is set when it is not 0. The result is the exit code and whether the mode was set.\<close>

definition copy_func :: "bool \<Rightarrow> nat \<Rightarrow> int \<times> bool" where
  "copy_func copied chmod = (if copied then (0, chmod \<noteq> 0) else (1, False))"

section \<open>The text that is written\<close>

definition splice :: "(string \<Rightarrow> string py) \<Rightarrow> string \<Rightarrow> string py" where
  "splice value s =
     py_bind (py_map (\<lambda>p. case p of Chr c \<Rightarrow> Inr [c] | Var w \<Rightarrow> value w) (m4 s)) (\<lambda>ss. Inr (concat ss))"

lemma double_percent_simps [simp]:
  "double_percent [] = []"
  "double_percent (c # cs) = (if c = CHR 0x25 then [c, c] else [c]) @ double_percent cs"
  by (simp_all add: double_percent_def)

lemma not_word [simp]: "\<not> word_char CHR 0x25" "\<not> word_char at_sign" "\<not> word_char CHR 0x29"
  by (simp_all add: word_char_def)

lemma word_double_percent:
  "takeWhile word_char (double_percent s) = takeWhile word_char s"
  "dropWhile word_char (double_percent s) = double_percent (dropWhile word_char s)"
  by (induction s) auto

lemma m4_match_double: "m4_match (double_percent s) = map_option (map_prod id double_percent) (m4_match s)"
proof (cases "dropWhile word_char s")
  case Nil
  show ?thesis unfolding m4_match_def word_double_percent Nil by simp
next
  case (Cons c rest)
  show ?thesis unfolding m4_match_def word_double_percent Cons by auto
qed

lemma m4_match_word: "m4_match s = Some (w, r) \<Longrightarrow> list_all word_char w"
  by (auto simp: m4_match_def list_all_iff dest: set_takeWhileD split: list.splits if_splits)

definition doubled :: "m4_piece \<Rightarrow> m4_piece list" where
  "doubled p = (if p = Chr CHR 0x25 then [p, p] else [p])"

lemma m4_double_percent: "m4 (double_percent s) = concat (map doubled (m4 s))"
  by (induction s rule: m4.induct) (auto simp: m4_match_double doubled_def split: option.splits)

lemma m4_words: "Var w \<in> set (m4 s) \<Longrightarrow> list_all word_char w"
  by (induction s rule: m4.induct) (auto dest: m4_match_word split: option.splits if_splits)

lemma m4_names_double [simp]: "m4_names (double_percent s) = m4_names s"
proof -
  let ?f = "\<lambda>p. case p of Chr c \<Rightarrow> [] | Var w \<Rightarrow> [w]"
  have "concat (map ?f (concat (map doubled ps))) = concat (map ?f ps)" for ps
    by (induction ps) (auto simp: doubled_def)
  then show ?thesis by (simp add: m4_names_def m4_double_percent)
qed

text \<open>A piece of the file and what the format makes of it.\<close>

definition placed :: "m4_piece \<Rightarrow> piece" where
  "placed p = (case p of Chr c \<Rightarrow> Lit c | Var w \<Rightarrow> PlaceStr w)"

lemma piece_simps:
  "m4_place (Chr c) = [c]" "m4_place (Var w) = [CHR 0x25, CHR 0x28] @ w @ [CHR 0x29, CHR ''s'']"
  "doubled (Chr c) = (if c = CHR 0x25 then [Chr c, Chr c] else [Chr c])" "doubled (Var w) = [Var w]"
  "placed (Chr c) = Lit c" "placed (Var w) = PlaceStr w"
  by (simp_all add: m4_place_def doubled_def placed_def)

lemma format_place:
  assumes "list_all word_char w"
  shows "format_pieces ([CHR 0x25, CHR 0x28] @ w @ [CHR 0x29, CHR ''s''] @ rest) = PlaceStr w # format_pieces rest"
proof -
  have "CHR 0x29 \<notin> set w" using assms by (auto simp: list_all_iff)
  then have "dropWhile (\<lambda>x. x \<noteq> CHR 0x29) (w @ CHR 0x29 # CHR ''s'' # rest) = CHR 0x29 # CHR ''s'' # rest"
    "takeWhile (\<lambda>x. x \<noteq> CHR 0x29) (w @ CHR 0x29 # CHR ''s'' # rest) = w"
    by (induction w) auto
  then show ?thesis by simp
qed

lemma format_m4_sub: "format_pieces (m4_sub (double_percent s)) = map placed (m4 s)"
proof -
  have "format_pieces (concat (map m4_place (concat (map doubled ps)))) = map placed ps"
    if "\<forall>w. Var w \<in> set ps \<longrightarrow> list_all word_char w" for ps
    using that
  proof (induction ps)
    case (Cons p ps)
    then have IH: "format_pieces (concat (map m4_place (concat (map doubled ps)))) = map placed ps" by simp
    show ?case
    proof (cases p)
      case (Chr c)
      then show ?thesis using IH by (simp add: piece_simps)
    next
      case (Var w)
      then show ?thesis using IH Cons.prems format_place [of w] by (simp add: piece_simps)
    qed
  qed simp
  then show ?thesis using m4_words [of _ s] by (simp add: m4_sub_def m4_double_percent)
qed

lemma format_splice: "format_dict (m4_sub (double_percent s)) d = splice (dict_get d) s"
proof -
  have "fill_piece d (placed p) = (case p of Chr c \<Rightarrow> Inr [c] | Var w \<Rightarrow> dict_get d w)" for p
    by (simp add: fill_piece_def placed_def split: m4_piece.splits)
  then have "py_map (fill_piece d) (map placed ps) = py_map (\<lambda>p. case p of Chr c \<Rightarrow> Inr [c] | Var w \<Rightarrow> dict_get d w) ps" for ps
    by (induction ps) simp_all
  then show ?thesis by (simp add: format_dict_def format_m4_sub splice_def)
qed

section \<open>Several files with one dictionary\<close>

definition expanded :: "(string \<Rightarrow> string) \<Rightarrow> string \<Rightarrow> string" where
  "expanded f s = concat (map (\<lambda>p. case p of Chr c \<Rightarrow> [c] | Var w \<Rightarrow> f w) (m4 s))"

lemma map_of_fill:
  "map_of (foldl (\<lambda>d i. AList.update i (f i) d) d is) k = (if k \<in> set is then Some (f k) else map_of d k)"
  by (induction "is" arbitrary: d) (auto simp: dict_simps)

lemma splice_dict:
  assumes "\<And>w. map_of d w = (if w \<in> names then Some (f w) else None)"
  shows "splice (dict_get d) s = (if set (m4_names s) \<subseteq> names then Inr (expanded f s) else Inl KeyError)"
proof -
  have "py_bind (py_map (\<lambda>p. case p of Chr c \<Rightarrow> Inr [c] | Var w \<Rightarrow> dict_get d w) ps) (\<lambda>ss. Inr (concat ss)) =
      (if {w. Var w \<in> set ps} \<subseteq> names then Inr (concat (map (\<lambda>p. case p of Chr c \<Rightarrow> [c] | Var w \<Rightarrow> f w) ps))
       else Inl KeyError)" for ps
  proof (induction ps)
    case (Cons p ps)
    then show ?case
      by (cases p; cases "py_map (\<lambda>p. case p of Chr c \<Rightarrow> Inr [c] | Var w \<Rightarrow> dict_get d w) ps")
        (auto simp: dict_get_def assms split: if_splits)
  qed simp
  moreover have "set (m4_names s) = {w. Var w \<in> set (m4 s)}"
    by (force simp: m4_names_def split: m4_piece.splits)
  ultimately show ?thesis by (simp add: splice_def expanded_def)
qed

lemma subst_func_splice:
  "subst_func get_flat di code =
     (let di = (if di = [] then foldl (\<lambda>d i. AList.update i (env_value get_flat i) d) di (m4_names code) else di)
      in (di, splice (dict_get di) code))"
  by (simp add: subst_func_def format_splice Let_def)

text \<open>A dictionary that is not empty is used for all files as it is.\<close>

lemma subst_tasks_given:
  "di \<noteq> [] \<Longrightarrow> subst_tasks get_flat di codes = map (splice (dict_get di)) codes"
  by (induction codes) (simp_all add: subst_func_splice Let_def)

lemma subst_tasks_no_names:
  "m4_names code = [] \<Longrightarrow> subst_tasks get_flat [] (code # codes) = Inr (expanded f code) # subst_tasks get_flat [] codes"
  using splice_dict [of "[]" "{}" f code] by (simp add: subst_func_splice)

text \<open>
  C27: the variables of files. Without a dictionary of the generator's own, the first file that has variables is written
  with the values of the environment in their places and all other characters, percent signs included, unchanged; but a
  file after it is written in this way only when it has no other variables, and raises \<open>KeyError\<close> otherwise, since the
  tasks share the dictionary that the first one has filled.
\<close>

theorem variables_replaced:
  assumes "m4_names code \<noteq> []"
  shows "subst_tasks get_flat [] (code # codes) =
     Inr (expanded (env_value get_flat) code) #
     map (\<lambda>c. if set (m4_names c) \<subseteq> set (m4_names code) then Inr (expanded (env_value get_flat) c) else Inl KeyError) codes"
proof -
  let ?d = "foldl (\<lambda>d i. AList.update i (env_value get_flat i) d) [] (m4_names code)"
  have d: "map_of ?d w = (if w \<in> set (m4_names code) then Some (env_value get_flat w) else None)" for w
    by (simp add: map_of_fill)
  have "?d \<noteq> []" using d [of "hd (m4_names code)"] assms by (auto simp del: foldl_Cons)
  then show ?thesis using assms by (simp add: subst_func_splice subst_tasks_given splice_dict [OF d])
qed

theorem variables_replaced_witness:
  "subst_tasks (\<lambda>i. if i = ''VERSION'' then ''3.17'' else []) [] [''100% @version@'', ''@version@/@prefix@''] =
     [Inr ''100% 3.17'', Inl KeyError]"
proof -
  have n: "m4_names ''100% @version@'' = [''version'']" "m4_names ''@version@/@prefix@'' = [''version'', ''prefix'']"
    by code_simp+
  have e: "expanded (env_value (\<lambda>i. if i = ''VERSION'' then ''3.17'' else [])) ''100% @version@'' = ''100% 3.17''"
    by code_simp
  show ?thesis using variables_replaced [of "''100% @version@''" _ "[''@version@/@prefix@'']"] by (simp add: n e)
qed

end
