(* ===== verification/Waf_Output.thy ===== *)
theory Waf_Output
  imports Waf_Misc
begin

text \<open>
  The task \<open>command-output\<close> of \<^verbatim>\<open>waf-tools/misc.py\<close>: a generator with the arguments of a command, its
  redirections and further inputs and outputs gives a task; the task starts the command. The file system and the
  commands are parameters; what a task does is a list of actions with the result.
\<close>

section \<open>Arguments\<close>

datatype path_kind = InputFile | OutputFile | InputDir | OutputDir

record path_arg =
  arg_kind :: path_kind
  arg_name :: string
  template :: string
  arg_node :: "fnode option"

datatype argument = Plain string | PathArg path_arg

text \<open>
  \<open>template % path\<close>, for a template with the directives \<open>%s\<close> and \<open>%%\<close>: exactly one \<open>%s\<close> takes the path.
\<close>

fun format_path :: "string \<Rightarrow> string option \<Rightarrow> string py" where
  "format_path [] path = (if path = None then Inr [] else Inl TypeError)"
| "format_path (c # cs) path =
     (if c \<noteq> CHR 0x25 then py_bind (format_path cs path) (\<lambda>s. Inr (c # s))
      else (case cs of
          [] \<Rightarrow> Inl ValueError
        | d # ds \<Rightarrow>
            if d = CHR 0x25 then py_bind (format_path ds path) (\<lambda>s. Inr (d # s))
            else if d = CHR ''s''
            then (case path of None \<Rightarrow> Inl TypeError | Some p \<Rightarrow> py_bind (format_path ds None) (\<lambda>s. Inr (p @ s)))
            else Inl ValueError))"

text \<open>
  \<open>find_node\<close>. The message for a missing node has one directive and two values, so that formatting it raises
  \<open>TypeError\<close> before the \<open>WafError\<close> is made.
\<close>

definition find_node :: "folder \<Rightarrow> path_arg \<Rightarrow> path_arg py" where
  "find_node base_path a =
     (let node = (case arg_kind a of
          InputFile \<Rightarrow> find_resource base_path (arg_name a)
        | OutputFile \<Rightarrow> find_or_declare base_path (arg_name a)
        | InputDir \<Rightarrow> find_dir base_path (arg_name a)
        | OutputDir \<Rightarrow> find_dir base_path (arg_name a))
      in if node = None then Inl TypeError else Inr (a\<lparr>arg_node := node\<rparr>))"

definition get_path :: "path_arg \<Rightarrow> bool \<Rightarrow> string py" where
  "get_path a absolute =
     (case arg_node a of
        None \<Rightarrow> Inl AttributeError
      | Some n \<Rightarrow>
          format_path (template a)
            (Some (case arg_kind a of
               InputFile \<Rightarrow> if absolute then abspath n else src_path n
             | OutputFile \<Rightarrow> if absolute then abspath n else bldpath n
             | InputDir \<Rightarrow> abspath n
             | OutputDir \<Rightarrow> abspath n)))"

section \<open>The task\<close>

datatype command_of = External string | Program fnode

type_synonym environ = "(string, string) dict"

record output_task =
  t_command :: command_of
  t_args :: "argument list"
  t_stdin :: "fnode option"
  t_stdout :: "fnode option"
  t_stderr :: "fnode option"
  t_cwd :: "string option"
  t_env :: "environ option"
  t_dep_nodes :: "fnode list"
  t_inputs :: "fnode list"
  t_outputs :: "fnode list"
  t_dep_vars :: "string list"
  t_attrs :: "(string, string list) dict"
  t_run_after :: "nat list"
  t_always :: bool

record child =
  child_argv :: "string list"
  child_stdin :: "string option"
  child_stdout :: "string option"
  child_stderr :: "string option"
  child_cwd :: "string option"
  child_env :: environ

datatype task_action = ReadFile string | WriteFile string | Start child

text \<open>\<open>opens\<close> says whether a file can be opened, \<open>popen\<close> gives the status of a process, or that it cannot be started.\<close>

record command_world =
  opens :: "task_action \<Rightarrow> bool"
  popen :: "child \<Rightarrow> int option"
  os_environ :: environ

definition node_path :: "output_task \<Rightarrow> fnode \<Rightarrow> string" where
  "node_path t n = (if t_cwd t = None then bldpath n else abspath n)"

definition argv_of :: "output_task \<Rightarrow> string list py" where
  "argv_of t =
     py_bind (py_map (\<lambda>a. case a of Plain s \<Rightarrow> Inr s | PathArg p \<Rightarrow> get_path p (t_cwd t \<noteq> None)) (t_args t))
       (\<lambda>args. Inr ((case t_command t of Program n \<Rightarrow> node_path t n | External c \<Rightarrow> c) # args))"

text \<open>Open a file if there is one, then go on; the actions are listed in order.\<close>

definition open_then ::
  "command_world \<Rightarrow> (string \<Rightarrow> task_action) \<Rightarrow> string option \<Rightarrow> task_action list \<times> int py \<Rightarrow> task_action list \<times> int py" where
  "open_then w how path rest =
     (case path of
        None \<Rightarrow> rest
      | Some p \<Rightarrow> if opens w (how p) then (how p # fst rest, snd rest) else ([], Inl IOError))"

definition start_process :: "command_world \<Rightarrow> child \<Rightarrow> task_action list \<times> int py" where
  "start_process w p = (case popen w p of None \<Rightarrow> ([], Inl OSError) | Some status \<Rightarrow> ([Start p], Inr status))"

definition output_task_run :: "command_world \<Rightarrow> output_task \<Rightarrow> task_action list \<times> int py" where
  "output_task_run w t =
     (let stdin = map_option (node_path t) (t_stdin t); stdout = map_option (node_path t) (t_stdout t);
          stderr = map_option (node_path t) (t_stderr t)
      in case argv_of t of
           Inl e \<Rightarrow> ([], Inl e)
         | Inr argv \<Rightarrow>
             open_then w ReadFile stdin (open_then w WriteFile stdout (open_then w WriteFile stderr
               (start_process w
                  \<lparr>child_argv = argv, child_stdin = stdin, child_stdout = stdout, child_stderr = stderr, child_cwd = t_cwd t,
                   child_env = (case t_env t of None \<Rightarrow> os_environ w | Some e \<Rightarrow> e)\<rparr>))))"

section \<open>The generator\<close>

record generator =
  g_id :: nat
  g_stdin :: "string option"
  g_stdout :: "string option"
  g_stderr :: "string option"
  g_command :: "string option"
  command_is_external :: bool
  g_argv :: "argument list"
  dependencies :: "nat list"
  dep_vars :: "string list"
  hidden_inputs :: "string list"
  hidden_outputs :: "string list"
  g_env :: "environ option"
  no_inputs :: bool
  no_outputs :: bool
  g_attrs :: "(string, string list) dict"

text \<open>The defaults, over which the attributes of the generator are set.\<close>

definition init_cmd_output :: "nat \<Rightarrow> generator" where
  "init_cmd_output i =
     \<lparr>g_id = i, g_stdin = None, g_stdout = None, g_stderr = None, g_command = None, command_is_external = False,
      g_argv = [], dependencies = [], dep_vars = [], hidden_inputs = [], hidden_outputs = [], g_env = None,
      no_inputs = False, no_outputs = False, g_attrs = []\<rparr>"

text \<open>\<open>getattr(orig, a, ())\<close> is set when it is not empty, or always.\<close>

definition copy_attrs ::
  "(string, string list) dict \<Rightarrow> (string, string list) dict \<Rightarrow> string list \<Rightarrow> bool \<Rightarrow> (string, string list) dict" where
  "copy_attrs orig dest names only_if_set =
     foldl (\<lambda>d a. let u = (case map_of orig a of None \<Rightarrow> [] | Some u \<Rightarrow> u)
                  in if u \<noteq> [] \<or> \<not> only_if_set then AList.update a u d else d) dest names"

definition find_command :: "folder \<Rightarrow> generator \<Rightarrow> command_of py" where
  "find_command path g =
     (case g_command g of
        None \<Rightarrow> Inl WafError
      | Some c \<Rightarrow>
          if command_is_external g then Inr (External c)
          else (case find_resource path c of None \<Rightarrow> Inl AssertionError | Some n \<Rightarrow> Inr (Program n)))"

definition find_argument :: "folder \<Rightarrow> argument \<Rightarrow> argument py" where
  "find_argument path a =
     (case a of Plain s \<Rightarrow> Inr (Plain s) | PathArg p \<Rightarrow> py_bind (find_node path p) (\<lambda>p. Inr (PathArg p)))"

definition opt_list :: "'a option \<Rightarrow> 'a list" where
  "opt_list x = (case x of None \<Rightarrow> [] | Some y \<Rightarrow> [y])"

fun argument_nodes :: "path_kind \<Rightarrow> argument list \<Rightarrow> fnode list" where
  "argument_nodes k [] = []"
| "argument_nodes k (Plain s # args) = argument_nodes k args"
| "argument_nodes k (PathArg p # args) = (if arg_kind p = k then opt_list (arg_node p) else []) @ argument_nodes k args"

definition find_redirection :: "(string \<Rightarrow> fnode option) \<Rightarrow> string option \<Rightarrow> fnode option py" where
  "find_redirection lookup name =
     (case name of None \<Rightarrow> Inr None | Some s \<Rightarrow> py_bind (declared (lookup s)) (\<lambda>n. Inr (Some n)))"

text \<open>\<open>tasks_of\<close> gives the tasks of a generator once it has been posted.\<close>

definition run_after_tasks :: "(nat \<Rightarrow> nat list) \<Rightarrow> generator \<Rightarrow> nat list py" where
  "run_after_tasks tasks_of g =
     (if g_id g \<in> set (dependencies g) then Inl AssertionError else Inr (concat (map tasks_of (dependencies g))))"

definition apply_cmd_output :: "folder \<Rightarrow> string \<Rightarrow> (nat \<Rightarrow> nat list) \<Rightarrow> generator \<Rightarrow> output_task py" where
  "apply_cmd_output path variant_dir tasks_of g =
     py_bind (find_command path g) (\<lambda>cmd.
     py_bind (py_map (find_argument path) (g_argv g)) (\<lambda>args.
     py_bind (find_redirection (find_or_declare path) (g_stdout g)) (\<lambda>stdout.
     py_bind (find_redirection (find_or_declare path) (g_stderr g)) (\<lambda>stderr.
     py_bind (find_redirection (find_resource path) (g_stdin g)) (\<lambda>stdin.
     py_bind (py_map (\<lambda>s. declared (find_resource path s)) (hidden_inputs g)) (\<lambda>hidden_in.
     py_bind (py_map (\<lambda>s. declared (find_or_declare path s)) (hidden_outputs g)) (\<lambda>hidden_out.
       let inputs = argument_nodes InputFile args @ opt_list stdin @ hidden_in;
           outputs = argument_nodes OutputFile args @ opt_list stdout @ opt_list stderr @ hidden_out
       in if inputs = [] \<and> \<not> no_inputs g then Inl WafError
          else if outputs = [] \<and> \<not> no_outputs g then Inl WafError
          else py_bind (run_after_tasks tasks_of g) (\<lambda>run_after.
            Inr \<lparr>t_command = cmd, t_args = args, t_stdin = stdin, t_stdout = stdout, t_stderr = stderr,
                 t_cwd = Some variant_dir, t_env = g_env g,
                 t_dep_nodes = (case cmd of Program n \<Rightarrow> [n] | External c \<Rightarrow> []),
                 t_inputs = inputs, t_outputs = outputs, t_dep_vars = dep_vars g,
                 t_attrs = copy_attrs (g_attrs g) [] [''before'', ''after'', ''ext_in'', ''ext_out''] True,
                 t_run_after = run_after, t_always = (inputs = [])\<rparr>))))))))"

text \<open>\<open>post_run\<close> of a task without inputs: the outputs get the signatures of their files.\<close>

definition post_run :: "(string \<Rightarrow> string) \<Rightarrow> output_task \<Rightarrow> (string, string) dict \<Rightarrow> (string, string) dict" where
  "post_run h_file t sigs = foldl (\<lambda>d x. AList.update (abspath x) (h_file (abspath x)) d) sigs (t_outputs t)"

section \<open>What a task touches\<close>

definition found :: "folder \<Rightarrow> path_arg \<Rightarrow> fnode option" where
  "found path a =
     (case arg_kind a of
        InputFile \<Rightarrow> find_resource path (arg_name a)
      | OutputFile \<Rightarrow> find_or_declare path (arg_name a)
      | _ \<Rightarrow> find_dir path (arg_name a))"

text \<open>How an argument of the generator appears on the command line of a task with given inputs and outputs.\<close>

definition passed :: "folder \<Rightarrow> fnode list \<Rightarrow> fnode list \<Rightarrow> argument \<Rightarrow> string \<Rightarrow> bool" where
  "passed path ins outs a s =
     (case a of
        Plain x \<Rightarrow> s = x
      | PathArg q \<Rightarrow> (\<exists>n. found path q = Some n \<and> format_path (template q) (Some (abspath n)) = Inr s \<and>
          (arg_kind q = InputFile \<longrightarrow> n \<in> set ins) \<and> (arg_kind q = OutputFile \<longrightarrow> n \<in> set outs)))"

lemma find_node_found: "find_node path a = (case found path a of None \<Rightarrow> Inl TypeError | Some n \<Rightarrow> Inr (a\<lparr>arg_node := Some n\<rparr>))"
  by (auto simp: find_node_def found_def Let_def split: path_kind.splits option.splits)

lemma get_path_absolute:
  "arg_node a = Some n \<Longrightarrow> get_path a True = format_path (template a) (Some (abspath n))"
  by (simp add: get_path_def split: path_kind.splits)

lemma argument_nodes_append: "argument_nodes k (xs @ ys) = argument_nodes k xs @ argument_nodes k ys"
  by (induction k xs rule: argument_nodes.induct) simp_all

lemma arguments_passed:
  assumes "py_map (find_argument path) args = Inr args'"
    and "py_map (\<lambda>a. case a of Plain s \<Rightarrow> Inr s | PathArg p \<Rightarrow> get_path p True) args' = Inr ss"
  shows "list_all2 (passed path (argument_nodes InputFile args') (argument_nodes OutputFile args')) args ss"
proof -
  have "list_all2 (passed path (argument_nodes InputFile ds @ argument_nodes InputFile args')
      (argument_nodes OutputFile ds @ argument_nodes OutputFile args')) args ss" for ds
    using assms
  proof (induction args arbitrary: args' ss ds)
    case (Cons a args)
    obtain b bs where b: "args' = b # bs" "find_argument path a = Inr b" "py_map (find_argument path) args = Inr bs"
      using Cons.prems(1) by auto
    obtain s rest where s: "ss = s # rest" "(case b of Plain s \<Rightarrow> Inr s | PathArg p \<Rightarrow> get_path p True) = Inr s"
        "py_map (\<lambda>a. case a of Plain s \<Rightarrow> Inr s | PathArg p \<Rightarrow> get_path p True) bs = Inr rest"
      using Cons.prems(2) b(1) by auto
    have split: "argument_nodes k [b] @ argument_nodes k bs = argument_nodes k (b # bs)" for k
      using argument_nodes_append [of k "[b]" bs] by simp
    have "passed path (argument_nodes InputFile ds @ argument_nodes InputFile args')
        (argument_nodes OutputFile ds @ argument_nodes OutputFile args') a s"
    proof (cases a)
      case (Plain x)
      then show ?thesis using b(2) s(2) by (auto simp: find_argument_def passed_def)
    next
      case (PathArg q)
      then obtain n where n: "found path q = Some n" "b = PathArg (q\<lparr>arg_node := Some n\<rparr>)"
        using b(2) by (auto simp: find_argument_def find_node_found split: option.splits)
      have "format_path (template q) (Some (abspath n)) = Inr s"
        using s(2) get_path_absolute [of "q\<lparr>arg_node := Some n\<rparr>" n] by (simp add: n(2))
      moreover have "n \<in> set (argument_nodes (arg_kind q) args')"
        by (simp add: b(1) n(2) opt_list_def)
      ultimately show ?thesis using n(1) unfolding passed_def PathArg argument.case by auto
    qed
    with Cons.IH [OF b(3) s(3), of "ds @ [b]"] show ?case
      by (simp add: b(1) s(1) split argument_nodes_append)
  qed simp
  from this [of "[]"] show ?thesis by simp
qed

text \<open>What a task with its nodes and its command does, once its arguments are known.\<close>

definition expected_actions :: "output_task \<Rightarrow> child \<Rightarrow> task_action list" where
  "expected_actions t p =
     map (\<lambda>n. ReadFile (abspath n)) (opt_list (t_stdin t)) @ map (\<lambda>n. WriteFile (abspath n)) (opt_list (t_stdout t)) @
     map (\<lambda>n. WriteFile (abspath n)) (opt_list (t_stderr t)) @ [Start p]"

definition task_process :: "command_world \<Rightarrow> output_task \<Rightarrow> string list \<Rightarrow> child" where
  "task_process w t argv =
     \<lparr>child_argv = argv, child_stdin = map_option abspath (t_stdin t), child_stdout = map_option abspath (t_stdout t),
      child_stderr = map_option abspath (t_stderr t), child_cwd = t_cwd t,
      child_env = (case t_env t of None \<Rightarrow> os_environ w | Some e \<Rightarrow> e)\<rparr>"

lemma open_then_prefix:
  assumes "prefix (fst rest) log" "snd rest = Inr status \<Longrightarrow> fst rest = log"
  shows "prefix (fst (open_then w how path rest)) (map how (opt_list path) @ log) \<and>
     (snd (open_then w how path rest) = Inr status \<longrightarrow>
        fst (open_then w how path rest) = map how (opt_list path) @ log \<and> snd rest = Inr status)"
  using assms by (auto simp: open_then_def opt_list_def split: option.splits)

lemma node_path_absolute: "t_cwd t = Some d \<Longrightarrow> node_path t = abspath"
  by (rule ext) (simp add: node_path_def)

lemma output_task_run_actions:
  assumes "t_cwd t = Some d" "argv_of t = Inr argv"
  shows "prefix (fst (output_task_run w t)) (expected_actions t (task_process w t argv)) \<and>
     (\<forall>status. snd (output_task_run w t) = Inr status \<longrightarrow>
        fst (output_task_run w t) = expected_actions t (task_process w t argv) \<and>
        popen w (task_process w t argv) = Some status)"
proof -
  let ?p = "task_process w t argv"
  have eq: "output_task_run w t =
      open_then w ReadFile (map_option abspath (t_stdin t)) (open_then w WriteFile (map_option abspath (t_stdout t))
        (open_then w WriteFile (map_option abspath (t_stderr t)) (start_process w ?p)))"
    by (simp add: output_task_run_def node_path_absolute [OF assms(1)] assms Let_def task_process_def)
  have opt: "map how (opt_list (map_option abspath x)) = map (\<lambda>n. how (abspath n)) (opt_list x)" for how :: "string \<Rightarrow> task_action" and x
    by (simp add: opt_list_def split: option.splits)
  have start: "prefix (fst (start_process w ?p)) [Start ?p]"
      "snd (start_process w ?p) = Inr status \<Longrightarrow> fst (start_process w ?p) = [Start ?p] \<and> popen w ?p = Some status" for status
    by (auto simp: start_process_def split: option.splits)
  note err = open_then_prefix [of "start_process w ?p" "[Start ?p]" _ w WriteFile "map_option abspath (t_stderr t)"]
  note out = open_then_prefix [of "open_then w WriteFile (map_option abspath (t_stderr t)) (start_process w ?p)" _ _
      w WriteFile "map_option abspath (t_stdout t)"]
  note inp = open_then_prefix [of "open_then w WriteFile (map_option abspath (t_stdout t))
      (open_then w WriteFile (map_option abspath (t_stderr t)) (start_process w ?p))" _ _ w ReadFile "map_option abspath (t_stdin t)"]
  show ?thesis unfolding eq expected_actions_def opt [symmetric] using err out inp start by blast
qed

lemma passed_mono:
  "list_all2 (passed path ins outs) args ss \<Longrightarrow> set ins \<subseteq> set ins' \<Longrightarrow> set outs \<subseteq> set outs' \<Longrightarrow>
     list_all2 (passed path ins' outs') args ss"
  by (erule list_all2_mono) (auto simp: passed_def split: argument.splits)

lemma apply_cmd_output_task:
  assumes "apply_cmd_output path variant_dir tasks_of g = Inr t"
  shows "t_cwd t = Some variant_dir" "py_map (find_argument path) (g_argv g) = Inr (t_args t)"
    "set (opt_list (t_stdin t)) \<subseteq> set (t_inputs t)" "set (opt_list (t_stdout t)) \<subseteq> set (t_outputs t)"
    "set (opt_list (t_stderr t)) \<subseteq> set (t_outputs t)"
    "set (argument_nodes InputFile (t_args t)) \<subseteq> set (t_inputs t)"
    "set (argument_nodes OutputFile (t_args t)) \<subseteq> set (t_outputs t)"
  using assms by (auto simp: apply_cmd_output_def Let_def split: if_splits)

lemma task_arguments_passed:
  assumes "apply_cmd_output path variant_dir tasks_of g = Inr t" and "argv_of t = Inr argv"
  shows "hd argv = (case t_command t of External c \<Rightarrow> c | Program n \<Rightarrow> abspath n)"
    "list_all2 (passed path (t_inputs t) (t_outputs t)) (g_argv g) (tl argv)"
proof -
  note task = apply_cmd_output_task [OF assms(1)]
  obtain ss where ss: "py_map (\<lambda>a. case a of Plain s \<Rightarrow> Inr s | PathArg p \<Rightarrow> get_path p True) (t_args t) = Inr ss"
      "argv = (case t_command t of Program n \<Rightarrow> abspath n | External c \<Rightarrow> c) # ss"
    using assms(2) by (auto simp: argv_of_def task(1) node_path_absolute [OF task(1)] split: command_of.splits)
  show "hd argv = (case t_command t of External c \<Rightarrow> c | Program n \<Rightarrow> abspath n)"
    by (simp add: ss(2) split: command_of.splits)
  show "list_all2 (passed path (t_inputs t) (t_outputs t)) (g_argv g) (tl argv)"
    using passed_mono [OF arguments_passed [OF task(2) ss(1)] task(6,7)] by (simp add: ss(2))
qed

section \<open>Property\<close>


text \<open>A command with an input file, a template around an output file, and a file for its standard output.\<close>

definition demo_folder :: folder where
  "demo_folder =
     (let node = (\<lambda>s. \<lparr>abspath = ''/top/'' @ s, bldpath = s, src_path = s, node_name = s\<rparr>)
      in \<lparr>find_resource = Some \<circ> node, find_or_declare = Some \<circ> node, find_dir = Some \<circ> node\<rparr>)"

definition demo_generator :: generator where
  "demo_generator = (init_cmd_output 0)
     \<lparr>g_command := Some ''gen'', g_stdout := Some ''log'',
      g_argv := [Plain ''-v'', PathArg \<lparr>arg_kind = InputFile, arg_name = ''a.in'', template = ''%s'', arg_node = None\<rparr>,
        PathArg \<lparr>arg_kind = OutputFile, arg_name = ''a.out'', template = ''--out=%s'', arg_node = None\<rparr>]\<rparr>"


end
