(* ===== verification/Waf_Relocation.thy ===== *)
theory Waf_Relocation
  imports Py_Text
begin

text \<open>
  \<^verbatim>\<open>waf-tools/relocation.py\<close>: when a project has been moved, the nodes below the old source directory are put
  below the new one. Nodes are objects that refer to each other, kept in a store: the children of a node by
  name, and its parent. Looking up and making a node are operations of waf and parameters here.
\<close>

section \<open>The store\<close>

type_synonym node_id = nat

record store =
  children :: "node_id \<Rightarrow> (string, node_id) dict"
  parent :: "node_id \<Rightarrow> node_id option"

definition isabs :: "string \<Rightarrow> bool" where
  "isabs p = startswith p ''/''"

text \<open>The body of the loop over the children of the old directory.\<close>

definition adopt :: "node_id \<Rightarrow> store \<Rightarrow> string \<times> node_id \<Rightarrow> store" where
  "adopt srcnode st kv =
     st\<lparr>children := (children st)(srcnode := AList.update (fst kv) (snd kv) (children st srcnode)),
        parent := (parent st)(snd kv := Some srcnode)\<rparr>"

definition relocate :: "node_id \<Rightarrow> node_id \<Rightarrow> store \<Rightarrow> store" where
  "relocate d srcnode st =
     (let st = st\<lparr>children := (children st)(srcnode := [])\<rparr>;
          st = foldl (adopt srcnode) st (children st d)
      in st\<lparr>children := (children st)(d := [])\<rparr>)"

text \<open>\<open>init_dirs\<close>, up to the call of the original method; \<open>saved\<close> is the source directory of the last build.\<close>

definition init_dirs ::
  "(string \<Rightarrow> store \<Rightarrow> node_id option) \<Rightarrow> (string \<Rightarrow> store \<Rightarrow> node_id \<times> store) \<Rightarrow> string \<Rightarrow> string \<Rightarrow> string option \<Rightarrow>
   store \<Rightarrow> store py" where
  "init_dirs find_node make_node top_dir out_dir saved st =
     (if \<not> (isabs top_dir \<and> isabs out_dir) then Inl WafError
      else (case saved of
          None \<Rightarrow> Inr st
        | Some srcdir \<Rightarrow>
            if srcdir = [] then Inr st
            else (case find_node srcdir st of
                None \<Rightarrow> Inr st
              | Some d \<Rightarrow>
                  if srcdir \<noteq> top_dir \<and> children st d \<noteq> []
                  then (case make_node top_dir st of (srcnode, st) \<Rightarrow> Inr (relocate d srcnode st))
                  else Inr st)))"

text \<open>\<open>apply_incpaths\<close>: the path of a directory from the build directory, or its absolute path.\<close>

record incnode =
  below_source :: bool
  path_from_build :: string
  absolute_path :: string

definition apply_incpaths :: "incnode list \<Rightarrow> string list" where
  "apply_incpaths lst =
     map (\<lambda>x. if below_source x \<and> path_from_build x \<noteq> [] then path_from_build x else absolute_path x) lst"

text \<open>\<open>uid\<close>: computed once from the class and the paths of the nodes, relative to the source directory.\<close>

definition uid :: "(string list \<Rightarrow> string) \<Rightarrow> string \<Rightarrow> string list \<Rightarrow> string list \<Rightarrow> string option \<Rightarrow> string" where
  "uid md5 class_name inputs outputs cached = (case cached of Some u \<Rightarrow> u | None \<Rightarrow> md5 (class_name # inputs @ outputs))"

section \<open>The tree\<close>

definition parent_rel :: "store \<Rightarrow> (node_id \<times> node_id) set" where
  "parent_rel st = {(c, p). parent st c = Some p}"

definition linked :: "store \<Rightarrow> bool" where
  "linked st \<longleftrightarrow> (\<forall>n. dict_ok (children st n)) \<and> (\<forall>n c. c \<in> snd ` set (children st n) \<longrightarrow> parent st c = Some n)"

lemma foldl_adopt:
  "children (foldl (adopt s) st kvs) = (children st)(s := foldl (\<lambda>d kv. AList.update (fst kv) (snd kv) d) (children st s) kvs)"
  "parent (foldl (adopt s) st kvs) = (\<lambda>c. if c \<in> snd ` set kvs then Some s else parent st c)"
  by (induction kvs arbitrary: st) (auto simp: adopt_def fun_eq_iff)

lemma foldl_update_new:
  "dict_ok (acc @ kvs) \<Longrightarrow> foldl (\<lambda>d kv. AList.update (fst kv) (snd kv) d) acc kvs = acc @ kvs"
proof (induction kvs arbitrary: acc)
  case (Cons kv kvs)
  then have "fst kv \<notin> fst ` set acc" by (auto simp: dict_ok_def)
  then have "AList.update (fst kv) (snd kv) acc = acc @ [kv]" by (simp add: update_new)
  then show ?case using Cons by simp
qed simp

lemma relocate_fields:
  assumes "dict_ok (children st d)" "d \<noteq> s"
  shows "children (relocate d s st) = (children st)(s := children st d, d := [])"
    "parent (relocate d s st) = (\<lambda>c. if c \<in> snd ` set (children st d) then Some s else parent st c)"
  using foldl_update_new [of "[]" "children st d"] assms
  by (auto simp: relocate_def Let_def foldl_adopt fun_eq_iff)

text \<open>Redirecting the edges into \<open>d\<close> to \<open>s\<close>.\<close>

definition redirected :: "(node_id \<times> node_id) set \<Rightarrow> node_id \<Rightarrow> node_id \<Rightarrow> (node_id \<times> node_id) set" where
  "redirected R d s = {(c, p). (c, p) \<in> R \<and> (c, d) \<notin> R \<or> (c, d) \<in> R \<and> p = s}"

lemma redirected_reach:
  assumes "(s, d) \<notin> R\<^sup>*" "(s, y) \<in> (redirected R d s)\<^sup>*"
  shows "(s, y) \<in> R\<^sup>*"
  using assms(2)
proof induction
  case (step y z)
  then show ?case using assms(1) by (auto simp: redirected_def intro: rtrancl_into_rtrancl)
qed simp

lemma redirected_path:
  "(x, y) \<in> (redirected R d s)\<^sup>+ \<Longrightarrow>
     (x, y) \<in> R\<^sup>+ \<or> (x, s) \<in> (redirected R d s)\<^sup>+ \<and> (s, y) \<in> (redirected R d s)\<^sup>*"
proof (induction rule: trancl_induct)
  case (base y)
  then show ?case by (auto simp: redirected_def intro: r_into_trancl)
next
  case (step y z)
  show ?case
  proof (cases "(y, d) \<in> R")
    case True
    then have "z = s" using step.hyps(2) by (simp add: redirected_def)
    then show ?thesis using step.hyps by (auto intro: trancl_into_trancl)
  next
    case False
    then have "(y, z) \<in> R" using step.hyps(2) by (simp add: redirected_def)
    then show ?thesis using step by (auto intro: trancl_into_trancl rtrancl_into_rtrancl)
  qed
qed

lemma redirected_from:
  assumes "(s, d) \<notin> R\<^sup>*" "(s, x) \<in> R\<^sup>*" "(x, y) \<in> (redirected R d s)\<^sup>+"
  shows "(x, y) \<in> R\<^sup>+"
  using assms(3)
proof (induction rule: trancl_induct)
  case (base y)
  then show ?case using assms(1,2) by (auto simp: redirected_def intro: rtrancl_into_rtrancl)
next
  case (step y z)
  then have "(s, y) \<in> R\<^sup>*" using assms(2) by (meson rtrancl_trans trancl_into_rtrancl)
  then show ?case using step assms(1) by (auto simp: redirected_def intro: rtrancl_into_rtrancl trancl_into_trancl)
qed

lemma redirected_acyclic:
  assumes "acyclic R" "s \<noteq> d" "single_valued R"
  shows "acyclic (redirected R d s) \<longleftrightarrow> (s, d) \<notin> R\<^sup>*"
proof
  assume a: "acyclic (redirected R d s)"
  show "(s, d) \<notin> R\<^sup>*"
  proof
    assume "(s, d) \<in> R\<^sup>*"
    then obtain c where c: "(s, c) \<in> R\<^sup>*" "(c, d) \<in> R" using assms(2) by (metis rtranclE)
    have "(y, c) \<in> (redirected R d s)\<^sup>*" if "(y, c) \<in> R\<^sup>*" for y
      using that
    proof (induction rule: converse_rtrancl_induct)
      case (step y z)
      have "z \<noteq> d" using step.hyps(2) c(2) assms(1) by (meson acyclic_def rtrancl_into_trancl1)
      then have "(y, d) \<notin> R" using step.hyps(1) assms(3) by (auto dest: single_valuedD)
      then have "(y, z) \<in> redirected R d s" using step.hyps(1) by (simp add: redirected_def)
      then show ?case using step.IH by (rule converse_rtrancl_into_rtrancl)
    qed simp
    then have "(s, c) \<in> (redirected R d s)\<^sup>*" using c(1) by blast
    moreover have "(c, s) \<in> redirected R d s" using c(2) by (simp add: redirected_def)
    ultimately show False using a by (meson acyclic_def rtrancl_into_trancl1)
  qed
next
  assume n: "(s, d) \<notin> R\<^sup>*"
  show "acyclic (redirected R d s)"
  proof (rule acyclicI, intro allI notI)
    fix x
    assume c: "(x, x) \<in> (redirected R d s)\<^sup>+"
    have "(x, x) \<in> R\<^sup>+"
    proof (cases "(x, x) \<in> R\<^sup>+")
      case False
      then have "(s, x) \<in> R\<^sup>*" using redirected_path [OF c] redirected_reach [OF n] by blast
      then show ?thesis using redirected_from [OF n _ c] by blast
    qed
    then show False using assms(1) by (simp add: acyclic_def)
  qed
qed

lemma linked_parent: "linked st \<Longrightarrow> (k, c) \<in> set (children st n) \<Longrightarrow> parent st c = Some n"
  by (force simp: linked_def)

lemma parent_rel_relocate:
  assumes "linked st" "d \<noteq> s" "\<And>c. parent st c = Some d \<Longrightarrow> c \<in> snd ` set (children st d)"
  shows "parent_rel (relocate d s st) = redirected (parent_rel st) d s"
proof -
  have "dict_ok (children st d)" using assms(1) by (simp add: linked_def)
  note fields = relocate_fields [OF this assms(2)]
  have "c \<in> snd ` set (children st d) \<longleftrightarrow> parent st c = Some d" for c
    using assms(3) linked_parent [OF assms(1)] by auto
  then show ?thesis by (auto simp: parent_rel_def redirected_def fields split: if_splits)
qed

lemma relocate_linked:
  assumes "linked st" "d \<noteq> s"
  shows "linked (relocate d s st)"
proof -
  have ok: "dict_ok (children st n)" for n using assms(1) by (simp add: linked_def)
  have "n = d" if "(k, c) \<in> set (children st d)" "(k', c) \<in> set (children st n)" for k k' c n
    using linked_parent [OF assms(1) that(1)] linked_parent [OF assms(1) that(2)] by simp
  then show ?thesis
    using ok linked_parent [OF assms(1)] unfolding linked_def relocate_fields [OF ok assms(2)] by (auto simp: fun_upd_def)
qed

section \<open>Property\<close>

text \<open>
  C28: the relocation of a project. Let the nodes form a tree before: the children of a node have it as their
  parent, a node whose parent is the old directory is one of its children, and nothing is above itself. Then the new
  directory gets all children of the old one, which keeps none, all other children are as before,
  and children and parents agree; but nothing is above itself if and only if the new directory does not lie
  below the old one.
\<close>

theorem relocation_keeps_tree:
  assumes "isabs new" and "isabs out" and "old \<noteq> []" and "old \<noteq> new"
    and "find_node old st = Some d" and "children st d \<noteq> []" and "make_node new st = (s, st1)"
    and "linked st1" and "acyclic (parent_rel st1)" and "d \<noteq> s"
    and "\<forall>c. parent st1 c = Some d \<longrightarrow> c \<in> snd ` set (children st1 d)"
  shows "\<exists>st'. init_dirs find_node make_node new out (Some old) st = Inr st' \<and> linked st' \<and>
     children st' = (children st1)(s := children st1 d, d := []) \<and>
     (acyclic (parent_rel st') \<longleftrightarrow> (s, d) \<notin> (parent_rel st1)\<^sup>*)"
proof -
  have "init_dirs find_node make_node new out (Some old) st = Inr (relocate d s st1)"
    using assms(1-7) by (simp add: init_dirs_def)
  moreover have "single_valued (parent_rel st1)" by (auto simp: parent_rel_def intro: single_valuedI)
  then have "acyclic (parent_rel (relocate d s st1)) \<longleftrightarrow> (s, d) \<notin> (parent_rel st1)\<^sup>*"
    using redirected_acyclic [OF assms(9), of s d] assms(10,11) by (simp add: parent_rel_relocate [OF assms(8,10)])
  moreover have "dict_ok (children st1 d)" using assms(8) by (simp add: linked_def)
  ultimately show ?thesis
    using relocate_linked [OF assms(8,10)] relocate_fields(1) [OF _ assms(10)] by blast
qed

text \<open>The project is moved from \<open>/a\<close>, node 1 with the child 2, to \<open>/b\<close>, node 3; node 0 is the root.\<close>

definition demo_tree :: store where
  "demo_tree =
     \<lparr>children = (\<lambda>n. if n = 0 then [(''a'', 1), (''b'', 3)] else if n = 1 then [(''src'', 2)] else []),
      parent = (\<lambda>n. if n = 1 \<or> n = 3 then Some 0 else if n = 2 then Some 1 else None)\<rparr>"

theorem relocation_keeps_tree_witness:
  "\<exists>st'. init_dirs (\<lambda>_ _. Some 1) (\<lambda>_ st. (3, st)) ''/b'' ''/b/build'' (Some ''/a'') demo_tree = Inr st' \<and> linked st' \<and>
     children st' 3 = [(''src'', 2)] \<and> children st' 1 = [] \<and> acyclic (parent_rel st')"
proof -
  have kids: "children demo_tree (Suc 0) = [(''src'', 2)]" by (simp add: demo_tree_def)
  have rel: "parent_rel demo_tree = {(1, 0), (3, 0), (2, 1)}"
    by (auto simp: parent_rel_def demo_tree_def split: if_splits)
  have acyc: "acyclic (parent_rel demo_tree)"
  proof (rule acyclicI_order [where f = "\<lambda>n. if n = 0 then 0 else if n = 2 then 2 else 1 :: nat"])
    show "(if b = 0 then 0 else if b = 2 then 2 else 1 :: nat) < (if a = 0 then 0 else if a = 2 then 2 else 1)"
      if "(a, b) \<in> parent_rel demo_tree" for a b
      using that by (auto simp: rel)
  qed
  have "(3, 1) \<notin> (parent_rel demo_tree)\<^sup>*"
  proof
    assume "(3, 1) \<in> (parent_rel demo_tree)\<^sup>*"
    moreover have "y = 3 \<or> y = 0" if "(3, y) \<in> (parent_rel demo_tree)\<^sup>*" for y
      using that by induction (auto simp: rel)
    ultimately show False by fastforce
  qed
  moreover have "linked demo_tree" by (auto simp: linked_def demo_tree_def dict_ok_def)
  moreover have "\<forall>c. parent demo_tree c = Some 1 \<longrightarrow> c \<in> snd ` set (children demo_tree 1)"
    by (auto simp: demo_tree_def split: if_splits)
  ultimately show ?thesis
    using relocation_keeps_tree [of "''/b''" "''/b/build''" "''/a''" "\<lambda>_ _. Some 1" demo_tree 1 "\<lambda>_ st. (3, st)" 3 demo_tree] acyc
    by (auto simp: isabs_def startswith_def kids)
qed

end
