(* ===== verification/Spec2Isabelle.thy ===== *)
theory Spec2Isabelle
  imports Topsort Find_Cycles Rad_Sequences Rad_Numeric Shell_Cmd Timeline Test_Report
    Check_Style Ns3_Config Build_Flags Waf_Run Grid_View Waf_Command Module_Gen Create_Module
    Flow_Monitor Viz_Thread Viz_View Viz_Canvas Viz_Shell Viz_Tables
    Waf_Output Waf_Relocation
begin

text \<open>
  Verification of the Python tools of the ns-3 source tree.

  The simulator itself is written in C++. Around it stands a set of Python programs that
  build it, test it and look at its traces; their own logic is what this development
  models. Python 2 is meant throughout. Every theory models one part:

  \<^item> \<open>Py_Prelude\<close>: what the parts share of the language. Exceptions are values of a sum
    type (\<open>'a py\<close>, \<open>py_bind\<close>, \<open>py_map\<close>), dictionaries are association lists with distinct
    keys (interface \<open>py_mapping\<close>), slices, negative indices, \<open>split\<close>, \<open>strip\<close>, \<open>join\<close> and the
    decimal representation are definitions. \<open>guarded_run\<close> is the interface of a machine that
    consumes a list of inputs, keeps an invariant and can fail; the shell parser, the patch reader, the
    event loop of the trace viewer, the file actions of a new module, the reader of flow statistics,
    the updates of stations and the operations on a scene are instances. \<open>Py_Text\<close> adds paths,
    \<open>repr\<close> and the reading of literals.
  \<^item> \<open>Topsort\<close> and \<open>Find_Cycles\<close>: \<open>bindings/python/topsort.py\<close>. \<open>topsort\<close>,
    \<open>topsort_levels_core\<close>, \<open>topsort_levels\<close> and \<open>find_cycles\<close> with their inner loops. The order
    in which a dictionary lists its keys is a parameter (\<open>key_order\<close>). A generator is
    modelled by the list of what it yields and the exception it ends with. All loops
    terminate by measures on the nodes that are left or not yet visited; no fuel is used.
  \<^item> \<open>Rad_Sequences\<close> and \<open>Rad_Numeric\<close>: \<open>bindings/python/rad_util.py\<close>, on lists and on
    unbounded integers. The draws of the random generator are an argument.
  \<^item> \<open>Shell_Cmd\<close>: \<open>waf-tools/shellcmd.py\<close>. \<open>Pipeline.parse\<close> is a state machine over the tokens of
    \<open>shlex.split\<close> (one definition per state); \<open>Pipeline.run\<close> is a loop over the nodes with the
    operating system as a parameter and its effects (opening, closing, starting, waiting,
    printing) as a list of events.
  \<^item> \<open>Timeline\<close>: the data model of \<open>utils/grid.py\<close>: the intervals and events of a trace, the
    binary searches, the bounds, the colours, and the reader of the trace file.
  \<^item> \<open>Grid_View\<close>: the view of \<open>utils/grid.py\<close>: the layout, the scales and their ticks, the
    displayed range and the handlers of the window as a machine over user events. Integers
    and floats are told apart (\<open>pynum\<close>); floats are rationals, without rounding.
  \<^item> \<open>Test_Jobs\<close>, \<open>Test_Workers\<close>, \<open>Test_Report\<close>: \<open>test.py\<close>. First the functional part, from the
    options to the list of jobs (\<open>queued_jobs\<close>); then the threads, as a step relation in
    which the main thread, the workers and the interrupt handler interleave at their queue
    operations; then the report: counting, the XML results file, the exit code and the
    translations to text and HTML. \<open>run_tests\<close> puts the three together. Running a process is
    a function of the job; the file system and the XML parser are parameters.
  \<^item> \<open>Check_Style\<close>: \<open>utils/check-style.py\<close>. Reading and writing patch sets, the removal of
    white space changes with the sharing of line objects between the two sides of a chunk,
    and the check of a list of files. The external programs are parameters.
  \<^item> \<open>Ns3_Config\<close>: \<open>utils.py\<close>, the reader of \<open>.ns3rc\<close>; \<open>Build_Flags\<close>: \<open>waf-tools/cflags.py\<close>;
    \<open>Waf_Run\<close>: \<open>wutils.py\<close>, which finds and runs programs of the build and uses the command
    splitting of \<open>Shell_Cmd\<close>.

  \<^item> \<open>Waf_Command\<close>: \<open>waf-tools/command.py\<close>, the substitution of variables in a command and the run of a
    task, on top of \<open>Shell_Cmd\<close>. \<open>Waf_Misc\<close> and \<open>Waf_Output\<close>: \<open>waf-tools/misc.py\<close>, the replacement of
    variables in files and the commands with declared inputs and outputs. \<open>Waf_Relocation\<close>:
    \<open>waf-tools/relocation.py\<close>, on a store of nodes that refer to each other.
  \<^item> \<open>Module_Scan\<close>: \<open>bindings/python/ns3modulescan.py\<close> and \<open>ns3modulescan-modular.py\<close>: where a header
    belongs, the annotation of declarations from a table that is changed on the way, the sections of
    the modules in topological order (with \<open>Topsort\<close>), and the list of callback classes.
  \<^item> \<open>Module_Gen\<close>: \<open>ns3modulegen.py\<close>, \<open>ns3modulegen-modular.py\<close>, \<open>ns3modulegen_core_customizations.py\<close> and
    \<open>src/core/bindings/modulegen_customizations.py\<close>: smart pointer types, callback classes, disabled
    features and the order of registration.
  \<^item> \<open>Create_Module\<close>: \<open>src/create-module.py\<close>, the templates and the actions on the file system.
  \<^item> \<open>Flow_Monitor\<close>: \<open>src/flow-monitor/examples/flowmon-parse-results.py\<close>, from parser events to the report.
  \<^item> \<open>Viz_Thread\<close>, \<open>Viz_Scene\<close>, \<open>Viz_Traffic\<close>, \<open>Viz_View\<close>, \<open>Viz_Canvas\<close>: the visualizer,
    \<open>src/visualizer/visualizer/core.py\<close>, \<open>base.py\<close>, \<open>hud.py\<close> and the plugins for wireless links and interface
    statistics. \<open>Viz_Thread\<close> is a step relation of the simulation thread and the main loop, with a stack of
    callbacks, because the timer runs the loop again while it waits for the lock. \<open>Viz_Scene\<close> holds the
    objects, the links and the selection; \<open>Viz_Traffic\<close> the samples and the arrows; \<open>Viz_View\<close> puts both
    together into a refresh of the view; \<open>Viz_Canvas\<close> the axes, panning, zooming and dragging. \<open>Viz_Shell\<close> is the
    part of the embedded shell (\<open>ipython_view.py\<close>) that does not depend on the text widget. \<open>Viz_Tables\<close> is
    the table of device types, the loading of plugins, the packet filter and the rows of the windows
    for packets and routes.

  What is shown. For the graph algorithms: soundness and completeness against
  mathematical definitions (topological order, first possible level, the simple cycles up
  to rotation), termination, and exactly when the exception is raised. For the utilities:
  equivalence with the mathematical function, round trips, and the inputs on which they
  raise. For the shell: the parser returns well-formed pipelines or \<open>AssertionError\<close>, printing
  and parsing are inverse, running refines the abstract chain of groups, and no file or
  process is left behind. For the test driver: every job is reported once under all
  interleavings, the threads never deadlock and always terminate, an uninterrupted run
  gives the results of a sequential one, the exit code is 0 exactly when every job passed or
  was skipped, and exactly when the files written are well formed. For the style checker:
  reading inverts writing, the removal of white space changes is characterized, and what
  a check returns. For the trace viewer: what the windows of the searches contain, that the
  reader stores every record, the displayed range under all sequences of user events, the
  ticks of the scales, and the dragging of an edge. For commands: the substitution of variables keeps
  the structure of a pipeline; the text that is written for a file with variables; a command task touches declared files
  only; and what a relocation does to the tree of nodes. For the bindings: dependencies come first, annotations of parameters are delivered
  once, what is scanned is what is generated, spellings of a type have one normal form, and disabled
  features leave everything else. For a new module: exactly the files added, nothing else changed. For
  flow statistics: one line per flow, and the values within their bounds. For the visualizer: mutual
  exclusion, progress, and how far the simulation can run ahead, in all interleavings; messages are shown once; the
  scene stays consistent; a refresh shows the state of the simulation; exactly the arrows of
  the last samples; the ticks of the axes; what a completion gives. For the rest: the values read, the flags set, the process started,
  and when each operation fails.

  Locales are used for interfaces only: \<open>py_mapping\<close>, \<open>guarded_run\<close>, \<open>bisection\<close>,
  \<open>named_registry\<close>, \<open>fifo\<close>, \<open>job_account\<close>; each is interpreted on the definitions of the
  program.

  Hypotheses on parameters are stated where they are used: the order of dictionary keys is a
  permutation, an empty patch changes nothing, a Python interpreter is configured, the
  texts written by a test suite are balanced, the simulator stops at the time it is given and
  does not go back, the layout of a graph places only its vertices, a sample has a positive number of bytes.

  Not modelled: the generated bindings (\<open>modulegen__*.py\<close>, lists of registration calls), \<open>read_waf_config\<close> of
  \<open>test.py\<close>, which executes configuration files as Python code, the drawing of \<open>grid.py\<close>, the
  widgets of the visualizer (menus, tooltips, colours, labels, the text widget of the shell), the tests that call the compiled simulator, \<open>waf-tools/boost.py\<close> (configuration
  tests that rest on the operations of waf), and the rounding
  of floating-point arithmetic. The text of an error message is left out where it has no further effect.
\<close>

end
